(* ===== verification/Prelude.thy ===== *)
theory Prelude
  imports Main "HOL-Library.Word"
begin

unbundle bit_operations_syntax

text \<open>
  Shared vocabulary of the development: machine integers, the failure type, the two small
  monads in which fallible code is written, checked arithmetic, byte-order codecs with the
  locale that states what a codec promises, and the fragment of Rust's integer formatting and
  parsing that the sources use.

  Conventions, which hold in every theory:
  \<^item> a Rust integer of width w is a w-bit word; the plain operators wrap, as they do in the
    release profile of the workspace (Cargo.toml does not turn overflow checks on) and
    \<open>debug_assert!\<close> is compiled out; \<open>checked_add(..).unwrap()\<close>, \<open>assert!\<close> and the unwrapping
    of a missing value are panics;
  \<^item> an error return, an I/O error and a panic are the three constructors of \<open>failure\<close>, so that
    every early exit of the source is a branch of the model;
  \<^item> code that mutates \<open>self\<close> and may fail part-way is an action: it returns its result together
    with the state it leaves behind, also when it fails.
\<close>

named_theorems monad_simps \<open>rewrites for the two monads\<close>
named_theorems codec_simps \<open>decoding what was encoded\<close>
named_theorems no_panic_intros \<open>code that returns errors but never panics\<close>
named_theorems lsn_simps \<open>reading word operations on log positions as naturals\<close>

subsection \<open>Types\<close>

type_synonym u8 = "8 word"
type_synonym u16 = "16 word"
type_synonym u32 = "32 word"
type_synonym u64 = "64 word"
type_synonym bytes = "8 word list"

datatype failure = Bail string | Io string | Panic string

type_synonym 'a res = "failure + 'a"
type_synonym ('s, 'a) act = "'s \<Rightarrow> 'a res \<times> 's"

subsection \<open>Sequencing fallible code\<close>

definition rbind :: "'a res \<Rightarrow> ('a \<Rightarrow> 'b res) \<Rightarrow> 'b res" where
  "rbind m f = (case m of Inl e \<Rightarrow> Inl e | Inr x \<Rightarrow> f x)"

definition abind :: "('s, 'a) act \<Rightarrow> ('a \<Rightarrow> ('s, 'b) act) \<Rightarrow> ('s, 'b) act" where
  "abind m f s = (case m s of (Inl e, s') \<Rightarrow> (Inl e, s') | (Inr x, s') \<Rightarrow> f x s')"

definition areturn :: "'a \<Rightarrow> ('s, 'a) act" where
  "areturn x s = (Inr x, s)"

definition afail :: "failure \<Rightarrow> ('s, 'a) act" where
  "afail e s = (Inl e, s)"

definition rassert :: "bool \<Rightarrow> string \<Rightarrow> unit res" where
  "rassert b msg = (if b then Inr () else Inl (Panic msg))"

lemma rbind_Inl [simp, monad_simps]: "rbind (Inl e) f = Inl e"
  by (simp add: rbind_def)

lemma rbind_Inr [simp, monad_simps]: "rbind (Inr x) f = f x"
  by (simp add: rbind_def)

lemma rbind_eq_Inr [monad_simps]: "rbind m f = Inr y \<longleftrightarrow> (\<exists>x. m = Inr x \<and> f x = Inr y)"
  by (cases m) (auto simp: rbind_def)

lemma rbind_cong [fundef_cong]:
  "m = m' \<Longrightarrow> (\<And>x. m' = Inr x \<Longrightarrow> f x = g x) \<Longrightarrow> rbind m f = rbind m' g"
  by (cases m') (auto simp: rbind_def)

lemma abind_eq_Inr [monad_simps]:
  "abind m f s = (Inr y, s') \<longleftrightarrow> (\<exists>x t. m s = (Inr x, t) \<and> f x t = (Inr y, s'))"
  by (auto simp: abind_def split: prod.splits sum.splits)

lemma abind_Inl: "m s = (Inl e, t) \<Longrightarrow> abind m f s = (Inl e, t)"
  by (simp add: abind_def)

lemma abind_Inr: "m s = (Inr x, t) \<Longrightarrow> abind m f s = f x t"
  by (simp add: abind_def)

lemma rassert_True [simp, monad_simps]: "rassert True msg = Inr ()"
  by (simp add: rassert_def)

lemma rassert_eq_Inr [simp, monad_simps]: "rassert b msg = Inr u \<longleftrightarrow> b"
  by (simp add: rassert_def)

definition no_panic :: "'a res \<Rightarrow> bool" where
  "no_panic r \<longleftrightarrow> (case r of Inl (Panic _) \<Rightarrow> False | _ \<Rightarrow> True)"

lemma no_panic_Inr [no_panic_intros]: "no_panic (Inr x)"
  by (simp add: no_panic_def)

lemma no_panic_Bail [no_panic_intros]: "no_panic (Inl (Bail m))"
  by (simp add: no_panic_def)

lemma no_panic_Io [no_panic_intros]: "no_panic (Inl (Io m))"
  by (simp add: no_panic_def)

lemma no_panic_rbind [no_panic_intros]:
  "no_panic m \<Longrightarrow> (\<And>x. m = Inr x \<Longrightarrow> no_panic (f x)) \<Longrightarrow> no_panic (rbind m f)"
  by (cases m) (auto simp: no_panic_def)

lemma no_panic_prod [no_panic_intros]:
  "(\<And>a b. p = (a, b) \<Longrightarrow> no_panic (f a b)) \<Longrightarrow> no_panic (case p of (a, b) \<Rightarrow> f a b)"
  by (cases p) simp

lemma no_panic_if [no_panic_intros]:
  "(c \<Longrightarrow> no_panic a) \<Longrightarrow> (\<not> c \<Longrightarrow> no_panic b) \<Longrightarrow> no_panic (if c then a else b)"
  by simp

lemma no_panic_option [no_panic_intros]:
  "(x = None \<Longrightarrow> no_panic a) \<Longrightarrow> (\<And>y. x = Some y \<Longrightarrow> no_panic (f y)) \<Longrightarrow>
   no_panic (case x of None \<Rightarrow> a | Some y \<Rightarrow> f y)"
  by (cases x) auto

lemma no_panic_iff: "no_panic r \<longleftrightarrow> (\<forall>m. r \<noteq> Inl (Panic m))"
  by (auto simp: no_panic_def split: sum.splits failure.splits)

text \<open>What an action keeps: a relation between the state before and the state after that
  holds on every branch is kept by sequencing, provided it is reflexive-transitive where it has
  to be. The two lemmas below carry the invariant proofs of every stateful component.\<close>

lemma abind_rel:
  assumes "\<And>s. R s (snd (m s))" "\<And>s x. R s (snd (f x s))" "\<And>a b c. R a b \<Longrightarrow> R b c \<Longrightarrow> R a c"
  shows "R s (snd (abind m f s))"
proof (cases "m s")
  case (Pair r t)
  then have st: "R s t" using assms(1) [of s] by simp
  show ?thesis
  proof (cases r)
    case (Inl e)
    with Pair st show ?thesis by (simp add: abind_def)
  next
    case (Inr x)
    with Pair st assms(2) [of t x] assms(3) show ?thesis by (auto simp: abind_def)
  qed
qed

text \<open>A relation between states that every step keeps: the handlers are compositions, so a
  transitive relation kept by the parts is kept by the whole, on success and on failure.\<close>

definition keeps :: "('s \<Rightarrow> 's \<Rightarrow> bool) \<Rightarrow> ('s, 'a) act \<Rightarrow> bool" where
  "keeps R m \<longleftrightarrow> (\<forall>s. R s (snd (m s)))"

lemma keepsI: "(\<And>s r s'. m s = (r, s') \<Longrightarrow> R s s') \<Longrightarrow> keeps R m"
  by (auto simp: keeps_def intro: surjective_pairing)

lemma keepsD: "keeps R m \<Longrightarrow> m s = (r, s') \<Longrightarrow> R s s'"
  by (metis keeps_def snd_conv)

lemma keeps_abind:
  "transp R \<Longrightarrow> keeps R m \<Longrightarrow> (\<And>x. keeps R (f x)) \<Longrightarrow> keeps R (abind m f)"
  unfolding keeps_def by (intro allI abind_rel [where R = R]) (blast dest: transpD)+

lemma keeps_if: "(b \<Longrightarrow> keeps R m) \<Longrightarrow> (\<not> b \<Longrightarrow> keeps R n) \<Longrightarrow> keeps R (if b then m else n)"
  by simp

lemma keeps_cond:
  "keeps R m \<Longrightarrow> keeps R n \<Longrightarrow> keeps R (\<lambda>s. if P s then m s else n s)"
  by (simp add: keeps_def)

lemma keeps_pure: "reflp R \<Longrightarrow> keeps R (\<lambda>s. (f s, s))"
  by (simp add: keeps_def reflp_def)

lemma keeps_dep: "(\<And>t. keeps R (m t)) \<Longrightarrow> keeps R (\<lambda>s. m (f s) s)"
  by (simp add: keeps_def)

text \<open>Triples for actions: from a state with the precondition, a success establishes the
  postcondition of its result and a failure leaves a state with the exceptional one.\<close>

definition hoare ::
  "('s \<Rightarrow> bool) \<Rightarrow> ('s, 'a) act \<Rightarrow> ('a \<Rightarrow> 's \<Rightarrow> bool) \<Rightarrow> ('s \<Rightarrow> bool) \<Rightarrow> bool" where
  "hoare P m Q E \<longleftrightarrow> (\<forall>s. P s \<longrightarrow> (case m s of (Inl _, s') \<Rightarrow> E s' | (Inr x, s') \<Rightarrow> Q x s'))"

lemma hoareI:
  "(\<And>s e s'. P s \<Longrightarrow> m s = (Inl e, s') \<Longrightarrow> E s') \<Longrightarrow>
   (\<And>s x s'. P s \<Longrightarrow> m s = (Inr x, s') \<Longrightarrow> Q x s') \<Longrightarrow> hoare P m Q E"
  by (auto simp: hoare_def split: prod.splits sum.splits)

lemma hoareD:
  assumes "hoare P m Q E" "P s" "m s = (r, s')"
  shows "case r of Inl _ \<Rightarrow> E s' | Inr x \<Rightarrow> Q x s'"
proof -
  have "case m s of (Inl _, s') \<Rightarrow> E s' | (Inr x, s') \<Rightarrow> Q x s'"
    using assms(1,2) by (simp add: hoare_def)
  then show ?thesis by (simp add: assms(3) split: sum.splits)
qed

lemma hoare_abind:
  "hoare P m Q E \<Longrightarrow> (\<And>x. hoare (Q x) (f x) R E) \<Longrightarrow> hoare P (abind m f) R E"
  unfolding hoare_def abind_def by (fastforce split: prod.splits sum.splits)

lemma hoare_cond:
  "hoare (\<lambda>s. P s \<and> B s) m Q E \<Longrightarrow> hoare (\<lambda>s. P s \<and> \<not> B s) n Q E \<Longrightarrow>
   hoare P (\<lambda>s. if B s then m s else n s) Q E"
  by (simp add: hoare_def)

lemma hoare_return: "(\<And>s. P s \<Longrightarrow> Q (f s) (g s)) \<Longrightarrow> hoare P (\<lambda>s. (Inr (f s), g s)) Q E"
  by (simp add: hoare_def)

lemma hoare_fail: "(\<And>s. P s \<Longrightarrow> E s) \<Longrightarrow> hoare P (\<lambda>s. (Inl (e s), s)) Q E"
  by (simp add: hoare_def)

lemma hoare_weaken:
  assumes "hoare P' m Q' E'" "\<And>s. P s \<Longrightarrow> P' s" "\<And>x s. Q' x s \<Longrightarrow> Q x s" "\<And>s. E' s \<Longrightarrow> E s"
  shows "hoare P m Q E"
proof (rule hoareI)
  fix s e s' assume "P s" "m s = (Inl e, s')"
  then show "E s'" using hoareD [OF assms(1)] assms(2,4) by fastforce
next
  fix s x s' assume "P s" "m s = (Inr x, s')"
  then show "Q x s'" using hoareD [OF assms(1)] assms(2,3) by fastforce
qed

subsection \<open>Checked arithmetic\<close>

definition checked_add :: "'a::len word \<Rightarrow> 'a word \<Rightarrow> 'a word option" where
  "checked_add a b = (if unat a + unat b < 2 ^ LENGTH('a) then Some (a + b) else None)"

definition checked_sub :: "'a::len word \<Rightarrow> 'a word \<Rightarrow> 'a word option" where
  "checked_sub a b = (if b \<le> a then Some (a - b) else None)"

definition saturating_sub :: "'a::len word \<Rightarrow> 'a word \<Rightarrow> 'a word" where
  "saturating_sub a b = (if b \<le> a then a - b else 0)"

lemma unat_add_if: "unat a + unat b < 2 ^ LENGTH('a) \<Longrightarrow> unat (a + b) = unat a + unat b"
  for a b :: "'a::len word"
  by (simp add: unat_word_ariths)

lemma unat_sub_if: "b \<le> a \<Longrightarrow> unat (a - b) = unat a - unat b"
  for a b :: "'a::len word"
  by (simp add: unat_sub)

lemma checked_add_Some:
  "checked_add a b = Some c \<longleftrightarrow> c = a + b \<and> unat a + unat b < 2 ^ LENGTH('a)"
  for a b :: "'a::len word"
  by (auto simp: checked_add_def)

lemma checked_add_unat: "checked_add a b = Some c \<Longrightarrow> unat c = unat a + unat b"
  for a b :: "'a::len word"
  by (auto simp: checked_add_def unat_add_if split: if_splits)

lemma checked_sub_Some: "checked_sub a b = Some c \<longleftrightarrow> b \<le> a \<and> c = a - b"
  for a b :: "'a::len word"
  by (auto simp: checked_sub_def)

lemma unat_lt_2p [simp]: "unat a < 2 ^ LENGTH('a)" for a :: "'a::len word"
  by (rule unsigned_less)

lemma unat_sub_wrap:
  "unat (a - b) = (if unat b \<le> unat a then unat a - unat b else 2 ^ LENGTH('a) + unat a - unat b)"
  for a b :: "'a::len word"
proof (cases "unat b \<le> unat a")
  case True
  then show ?thesis by (simp add: unat_sub word_le_nat_alt)
next
  case False
  define n where "n = 2 ^ LENGTH('a) + unat a - unat b"
  have "unat b < 2 ^ LENGTH('a)" by simp
  with False have n: "n < 2 ^ LENGTH('a)" "n + unat b = 2 ^ LENGTH('a) + unat a"
    unfolding n_def by linarith+
  have "(word_of_nat (n + unat b) :: 'a word) = word_of_nat (2 ^ LENGTH('a) + unat a)"
    by (simp only: n(2))
  then have "word_of_nat n + b = a" by (simp add: of_nat_add)
  then have "a - b = word_of_nat n" by (metis add_diff_cancel_right')
  then have "unat (a - b) = n" using n(1) by (simp add: unat_of_nat)
  then show ?thesis using False by (simp add: n_def)
qed

lemma unat_ucast_u32_u64 [simp]: "unat (ucast x :: u64) = unat x" for x :: u32
proof -
  have "unat x < 2 ^ 64" using unat_lt_2p [of x] by simp
  then show ?thesis by (simp add: unsigned_ucast_eq take_bit_nat_eq_self)
qed

subsection \<open>Byte order\<close>

fun le_nat :: "bytes \<Rightarrow> nat" where
  "le_nat [] = 0"
| "le_nat (b # bs) = unat b + 256 * le_nat bs"

fun le_bytes :: "nat \<Rightarrow> nat \<Rightarrow> bytes" where
  "le_bytes 0 x = []"
| "le_bytes (Suc n) x = of_nat (x mod 256) # le_bytes n (x div 256)"

definition be_nat :: "bytes \<Rightarrow> nat" where
  "be_nat bs = le_nat (rev bs)"

definition be_bytes :: "nat \<Rightarrow> nat \<Rightarrow> bytes" where
  "be_bytes n x = rev (le_bytes n x)"

lemma length_le_bytes [simp]: "length (le_bytes n x) = n"
  by (induction n arbitrary: x) auto

lemma length_be_bytes [simp]: "length (be_bytes n x) = n"
  by (simp add: be_bytes_def)

lemma le_nat_le_bytes: "le_nat (le_bytes n x) = x mod 256 ^ n"
proof (induction n arbitrary: x)
  case 0
  then show ?case by simp
next
  case (Suc n)
  have "unat (of_nat (x mod 256) :: u8) = x mod 256"
    by (simp add: unat_of_nat take_bit_eq_mod)
  then show ?case using Suc by (simp add: mod_mult2_eq)
qed

lemma le_nat_bound: "le_nat bs < 256 ^ length bs"
proof (induction bs)
  case Nil
  then show ?case by simp
next
  case (Cons b bs)
  have "unat b < 256" using unsigned_less [of b] by simp
  with Cons show ?case by (simp add: algebra_simps)
qed

lemma le_bytes_le_nat: "le_bytes (length bs) (le_nat bs) = bs"
proof (induction bs)
  case Nil
  then show ?case by simp
next
  case (Cons b bs)
  have b: "unat b < 256" using unsigned_less [of b] by simp
  then show ?case using Cons by simp
qed

lemma be_nat_be_bytes: "be_nat (be_bytes n x) = x mod 256 ^ n"
  by (simp add: be_nat_def be_bytes_def le_nat_le_bytes)

lemma be_bytes_be_nat: "length bs = n \<Longrightarrow> be_bytes n (be_nat bs) = bs"
  using le_bytes_le_nat [of "rev bs"] by (simp add: be_nat_def be_bytes_def)

lemma be_nat_bound: "be_nat bs < 256 ^ length bs"
  using le_nat_bound [of "rev bs"] by (simp add: be_nat_def)

lemma be_nat_append: "be_nat (xs @ ys) = be_nat xs * 256 ^ length ys + be_nat ys"
proof -
  have "le_nat (xs @ ys) = le_nat xs + 256 ^ length xs * le_nat ys" for xs ys
    by (induction xs) (auto simp: algebra_simps)
  then show ?thesis by (simp add: be_nat_def)
qed

subsection \<open>Codecs\<close>

text \<open>
  A codec writes a value as bytes and reads it back from the front of a buffer, handing on the
  bytes it did not consume. The readers of the wire protocol, of the key encoding and of the
  feedback messages are all of this form; what their clients rely on is the one law below.
\<close>

locale codec =
  fixes enc :: "'a \<Rightarrow> bytes"
    and dec :: "bytes \<Rightarrow> ('a \<times> bytes) res"
    and valid :: "'a \<Rightarrow> bool"
  assumes dec_enc: "valid x \<Longrightarrow> dec (enc x @ rest) = Inr (x, rest)"
begin

lemma enc_prefix_free: "valid x \<Longrightarrow> valid y \<Longrightarrow> enc x @ r = enc y @ s \<Longrightarrow> x = y \<and> r = s"
  by (metis Pair_inject dec_enc sum.inject(2))

lemma enc_inject: "valid x \<Longrightarrow> valid y \<Longrightarrow> enc x = enc y \<Longrightarrow> x = y"
  by (metis enc_prefix_free)

end

text \<open>Reading a repeated element: the loop \<open>for i in 0..n\<close> around a reader.\<close>

fun dec_list :: "(bytes \<Rightarrow> ('a \<times> bytes) res) \<Rightarrow> nat \<Rightarrow> bytes \<Rightarrow> ('a list \<times> bytes) res" where
  "dec_list dec 0 bs = Inr ([], bs)"
| "dec_list dec (Suc n) bs =
     rbind (dec bs) (\<lambda>(x, bs). rbind (dec_list dec n bs) (\<lambda>(xs, bs). Inr (x # xs, bs)))"

context codec
begin

lemma dec_list_enc:
  "\<forall>x \<in> set xs. valid x \<Longrightarrow>
   dec_list dec (length xs) (concat (map enc xs) @ rest) = Inr (xs, rest)"
proof (induction xs)
  case Nil
  then show ?case by simp
next
  case (Cons x xs)
  then show ?case using dec_enc [of x "concat (map enc xs) @ rest"] by simp
qed

end

end
