(* ===== verification/Rust_Fmt.thy ===== *)
theory Rust_Fmt
  imports Prelude
begin

text \<open>
  The parts of Rust's standard library that the sources use to print and read integers and
  strings: the hexadecimal format specifiers (upper and lower case, with and without a minimum
  width), \<open>uN::from_str_radix(s, 16)\<close>, \<open>str::trim\<close> and \<open>str::split\<close>.  A string is the list of
  its UTF-8 bytes, as in the source; the white space that \<open>trim\<close> removes is the Unicode
  property White_Space, written as the UTF-8 encodings of its members.
\<close>

subsection \<open>Hexadecimal digits\<close>

definition hexdig :: "nat \<Rightarrow> nat \<Rightarrow> char" where
  "hexdig a d = char_of (if d < 10 then 48 + d else a + (d - 10))"

text \<open>The letter base is 65 (A) for the upper-case formats and 97 (a) for the lower-case ones.\<close>

function hex_of :: "nat \<Rightarrow> nat \<Rightarrow> string" where
  "hex_of a n = (if n < 16 then [hexdig a n] else hex_of a (n div 16) @ [hexdig a (n mod 16)])"
  by pat_completeness auto
termination
  by (relation "measure snd") auto

declare hex_of.simps [simp del]

definition pad0 :: "nat \<Rightarrow> string \<Rightarrow> string" where
  "pad0 w s = replicate (w - length s) (CHR ''0'') @ s"

definition fmt_X :: "nat \<Rightarrow> string" where "fmt_X n = hex_of 65 n"
definition fmt_0X :: "nat \<Rightarrow> nat \<Rightarrow> string" where "fmt_0X w n = pad0 w (hex_of 65 n)"
definition fmt_0x :: "nat \<Rightarrow> nat \<Rightarrow> string" where "fmt_0x w n = pad0 w (hex_of 97 n)"

definition hex_val :: "char \<Rightarrow> nat option" where
  "hex_val c = (let n = of_char c :: nat in
     if 48 \<le> n \<and> n \<le> 57 then Some (n - 48)
     else if 65 \<le> n \<and> n \<le> 70 then Some (n - 55)
     else if 97 \<le> n \<and> n \<le> 102 then Some (n - 87)
     else None)"

text \<open>The digit loop of \<open>from_str_radix\<close>: multiplication and addition are checked at every
  step, so a prefix that already exceeds the type is an error.\<close>

fun radix16_loop :: "nat \<Rightarrow> nat \<Rightarrow> string \<Rightarrow> nat option" where
  "radix16_loop bnd acc [] = Some acc"
| "radix16_loop bnd acc (c # cs) = (case hex_val c of
       None \<Rightarrow> None
     | Some d \<Rightarrow> if acc * 16 + d < bnd then radix16_loop bnd (acc * 16 + d) cs else None)"

definition from_str_radix16 :: "nat \<Rightarrow> string \<Rightarrow> nat option" where
  "from_str_radix16 bnd s =
     (if s = [] then None
      else if hd s = CHR ''+'' then (if tl s = [] then None else radix16_loop bnd 0 (tl s))
      else radix16_loop bnd 0 s)"

subsection \<open>Splitting and trimming\<close>

fun split_on :: "char \<Rightarrow> string \<Rightarrow> string list" where
  "split_on sep [] = [[]]"
| "split_on sep (c # cs) =
     (if c = sep then [] # split_on sep cs
      else (case split_on sep cs of [] \<Rightarrow> [[c]] | p # ps \<Rightarrow> (c # p) # ps))"

definition white_space :: "string list" where
  "white_space =
     map (\<lambda>n. [char_of (n::nat)]) ([9..<14] @ [32])
     @ map (map char_of) ([[194, 133], [194, 160], [225, 154, 128]]
         @ map (\<lambda>n. [226, 128, n]) ([128..<139] @ [168, 169, 175])
         @ [[226, 129, 159], [227, 128, 128]] :: nat list list)"

function trim_front :: "string list \<Rightarrow> string \<Rightarrow> string" where
  "trim_front ws s = (case find (\<lambda>w. w \<noteq> [] \<and> take (length w) s = w) ws of
       None \<Rightarrow> s | Some w \<Rightarrow> trim_front ws (drop (length w) s))"
  by pat_completeness auto
termination
proof (relation "measure (\<lambda>(ws, s). length s)", goal_cases)
  case (2 ws s w)
  then have "w \<noteq> []" "take (length w) s = w" by (auto simp: find_Some_iff)
  then show ?case by (cases s) auto
qed auto

declare trim_front.simps [simp del]

definition trim :: "string \<Rightarrow> string" where
  "trim s = rev (trim_front (map rev white_space) (rev (trim_front white_space s)))"

subsection \<open>Reading back what was printed\<close>

lemma hex_val_hexdig:
  assumes "d < 16" "a = 65 \<or> a = 97"
  shows "hex_val (hexdig a d) = Some d"
proof -
  have "of_char (hexdig a d) = (if d < 10 then 48 + d else a + (d - 10))"
    using assms by (auto simp: hexdig_def)
  with assms show ?thesis by (auto simp: hex_val_def Let_def)
qed

lemma hexdig_eq_iff:
  assumes "d < 16" "a = 65 \<or> a = 97" "hexdig a d = c"
  shows "hex_val c = Some d"
  using hex_val_hexdig assms by blast

lemma radix16_loop_append:
  "radix16_loop bnd acc (s @ [c]) =
     (case radix16_loop bnd acc s of None \<Rightarrow> None
      | Some v \<Rightarrow> (case hex_val c of None \<Rightarrow> None
                 | Some d \<Rightarrow> if v * 16 + d < bnd then Some (v * 16 + d) else None))"
  by (induction s arbitrary: acc) (auto split: option.splits)

lemma radix16_loop_hex_of:
  assumes "n < bnd" "a = 65 \<or> a = 97"
  shows "radix16_loop bnd 0 (hex_of a n) = Some n"
  using assms(1)
proof (induction n rule: less_induct)
  case (less n)
  show ?case
  proof (cases "n < 16")
    case True
    with less.prems show ?thesis
      by (subst hex_of.simps) (simp add: hex_val_hexdig assms(2))
  next
    case False
    then have "radix16_loop bnd 0 (hex_of a (n div 16)) = Some (n div 16)"
      using less by simp
    with False less.prems show ?thesis
      by (subst hex_of.simps) (simp add: radix16_loop_append hex_val_hexdig assms(2))
  qed
qed

lemma radix16_loop_zeros:
  "0 < bnd \<Longrightarrow> radix16_loop bnd 0 (replicate k (CHR ''0'') @ s) = radix16_loop bnd 0 s"
  by (induction k) (auto simp: hex_val_def)

lemma hex_of_nonempty [simp]: "hex_of a n \<noteq> []"
  by (subst hex_of.simps) simp

lemma hex_of_digits:
  assumes "a = 65 \<or> a = 97"
  shows "c \<in> set (hex_of a n) \<Longrightarrow> \<exists>d < 16. c = hexdig a d"
proof (induction n rule: less_induct)
  case (less n)
  show ?case
  proof (cases "n < 16")
    case True
    with less.prems show ?thesis by (subst (asm) hex_of.simps) auto
  next
    case False
    then have "c \<in> set (hex_of a (n div 16)) \<or> c = hexdig a (n mod 16)"
      using less.prems by (subst (asm) hex_of.simps) auto
    then show ?thesis
    proof
      assume "c \<in> set (hex_of a (n div 16))"
      with less.IH [of "n div 16"] False show ?thesis by simp
    next
      assume "c = hexdig a (n mod 16)"
      then show ?thesis by (intro exI [of _ "n mod 16"]) simp
    qed
  qed
qed

lemma hexdig_range:
  assumes "d < 16" "a = 65 \<or> a = 97"
  shows "48 \<le> (of_char (hexdig a d) :: nat)" "(of_char (hexdig a d) :: nat) \<le> 102"
    "(of_char (hexdig a d) :: nat) \<noteq> 47"
  using assms by (auto simp: hexdig_def)

lemma pad0_chars: "c \<in> set (pad0 w s) \<Longrightarrow> c = CHR ''0'' \<or> c \<in> set s"
  by (auto simp: pad0_def)

lemma hex_char_range:
  assumes "a = 65 \<or> a = 97" "c \<in> set (pad0 w (hex_of a n))"
  shows "48 \<le> (of_char c :: nat) \<and> (of_char c :: nat) \<le> 102"
proof (cases "c = CHR ''0''")
  case True
  then show ?thesis by simp
next
  case False
  then obtain d where "d < 16" "c = hexdig a d"
    using pad0_chars [OF assms(2)] hex_of_digits [OF assms(1)] by blast
  then show ?thesis using hexdig_range assms(1) by simp
qed

lemma from_str_radix16_padded:
  assumes "n < bnd" "a = 65 \<or> a = 97"
  shows "from_str_radix16 bnd (pad0 w (hex_of a n)) = Some n"
proof -
  have ne: "pad0 w (hex_of a n) \<noteq> []" by (simp add: pad0_def)
  then have "hd (pad0 w (hex_of a n)) \<in> set (pad0 w (hex_of a n))" by (rule hd_in_set)
  then have "48 \<le> (of_char (hd (pad0 w (hex_of a n))) :: nat)"
    using hex_char_range [OF assms(2)] by blast
  then have "hd (pad0 w (hex_of a n)) \<noteq> CHR ''+''" by auto
  with ne assms show ?thesis
    by (simp add: from_str_radix16_def pad0_def radix16_loop_zeros radix16_loop_hex_of)
qed

lemma from_str_radix16_hex_of:
  "n < bnd \<Longrightarrow> a = 65 \<or> a = 97 \<Longrightarrow> from_str_radix16 bnd (hex_of a n) = Some n"
  using from_str_radix16_padded [of n bnd a 0] by (simp add: pad0_def)

lemma hex_of_length:
  assumes "n < 16 ^ k" "0 < k"
  shows "length (hex_of a n) \<le> k"
  using assms
proof (induction k arbitrary: n)
  case 0
  then show ?case by simp
next
  case (Suc k)
  show ?case
  proof (cases "n < 16")
    case True
    then show ?thesis by (subst hex_of.simps) simp
  next
    case False
    with Suc.prems have "0 < k" "n div 16 < 16 ^ k"
      by (cases k; simp)+
    with Suc.IH False show ?thesis by (subst hex_of.simps) simp
  qed
qed

lemma length_pad0: "length s \<le> w \<Longrightarrow> length (pad0 w s) = w"
  by (simp add: pad0_def)

lemma length_fmt_0x: "n < 16 ^ w \<Longrightarrow> 0 < w \<Longrightarrow> length (fmt_0x w n) = w"
  by (simp add: fmt_0x_def length_pad0 hex_of_length)

lemma length_fmt_0X: "n < 16 ^ w \<Longrightarrow> 0 < w \<Longrightarrow> length (fmt_0X w n) = w"
  by (simp add: fmt_0X_def length_pad0 hex_of_length)

lemma split_on_none: "sep \<notin> set s \<Longrightarrow> split_on sep s = [s]"
  by (induction s) auto

lemma split_on_append:
  "sep \<notin> set s \<Longrightarrow> split_on sep (s @ sep # t) = s # split_on sep t"
  by (induction s) auto

lemma trim_front_id:
  assumes "s \<noteq> []" "\<forall>w \<in> set ws. w \<noteq> [] \<longrightarrow> hd w \<noteq> hd s"
  shows "trim_front ws s = s"
proof -
  have "\<not> (w \<noteq> [] \<and> take (length w) s = w)" if "w \<in> set ws" for w
    using assms that by (cases w; cases s; auto)
  then have "find (\<lambda>w. w \<noteq> [] \<and> take (length w) s = w) ws = None"
    by (auto simp: find_None_iff)
  then show ?thesis by (subst trim_front.simps) simp
qed

text \<open>A string whose first and last bytes are printable ASCII is its own trimmed form.\<close>

lemma trim_ascii:
  assumes "s \<noteq> []" "32 < (of_char (hd s) :: nat)" "(of_char (hd s) :: nat) < 128"
    "32 < (of_char (last s) :: nat)" "(of_char (last s) :: nat) < 128"
  shows "trim s = s"
proof -
  have ws: "w \<in> set white_space \<Longrightarrow>
      w \<noteq> [] \<and> ((of_char (hd w) :: nat) \<le> 32 \<or> 128 \<le> (of_char (hd w) :: nat))
      \<and> ((of_char (last w) :: nat) \<le> 32 \<or> 128 \<le> (of_char (last w) :: nat))" for w
    by (auto simp: white_space_def)
  have 1: "trim_front white_space s = s"
    using assms ws by (intro trim_front_id) (auto, metis leD)
  have "trim_front (map rev white_space) (rev s) = rev s"
    using assms ws by (intro trim_front_id) (auto simp: hd_rev, metis leD)
  with 1 show ?thesis by (simp add: trim_def)
qed

end
