(* ===== verification/Lsn.thy ===== *)
theory Lsn
  imports Rust_Fmt
begin

text \<open>
  Log sequence numbers, libs/utils/src/lsn.rs: the newtype \<open>Lsn(u64)\<close>, its segment and block
  arithmetic, alignment, overflow behaviour, text format, the atomic cell and the record
  counter.  A position is a 64-bit word; \<open>+\<close> and \<open>+=\<close> on the newtype go through
  \<open>checked_add(..).unwrap()\<close>, so they are fallible here, while \<open>align\<close> uses the plain operator.
  The divisors are the segment sizes; a zero divisor is a panic in the source, which the
  callers with a variable segment size test for (theory WalStorage).
\<close>

type_synonym lsn = "64 word"

definition XLOG_BLCKSZ :: u64 where "XLOG_BLCKSZ = 8192"

definition WAL_SEGMENT_SIZE :: u64 where "WAL_SEGMENT_SIZE = 16777216"

definition lsn_MAX :: lsn where "lsn_MAX = - 1"
definition lsn_INVALID :: lsn where "lsn_INVALID = 0"

definition lsn_checked_sub :: "lsn \<Rightarrow> u64 \<Rightarrow> lsn option" where
  "lsn_checked_sub self other = checked_sub self other"

definition lsn_saturating_sub :: "lsn \<Rightarrow> u64 \<Rightarrow> lsn" where
  "lsn_saturating_sub self other = saturating_sub self other"

definition widening_sub :: "lsn \<Rightarrow> u64 \<Rightarrow> int" where
  "widening_sub self other = uint self - uint other"

definition lsn_from_hex :: "string \<Rightarrow> lsn res" where
  "lsn_from_hex s = (case from_str_radix16 (2 ^ 64) s of
     None \<Rightarrow> Inl (Bail ''LsnParseError'') | Some n \<Rightarrow> Inr (of_nat n))"

definition segment_offset :: "lsn \<Rightarrow> u64 \<Rightarrow> u64" where
  "segment_offset self seg_sz = self mod seg_sz"

definition segment_lsn :: "lsn \<Rightarrow> u64 \<Rightarrow> lsn" where
  "segment_lsn self seg_sz = self - (self mod seg_sz)"

definition segment_number :: "lsn \<Rightarrow> u64 \<Rightarrow> u64" where
  "segment_number self seg_sz = self div seg_sz"

definition block_offset :: "lsn \<Rightarrow> u64" where
  "block_offset self = self mod XLOG_BLCKSZ"

definition page_lsn :: "lsn \<Rightarrow> lsn" where
  "page_lsn self = self - block_offset self"

definition page_offset_in_segment :: "lsn \<Rightarrow> u64 \<Rightarrow> u64" where
  "page_offset_in_segment self seg_sz = (self - block_offset self) - segment_lsn self seg_sz"

definition remaining_in_block :: "lsn \<Rightarrow> u64" where
  "remaining_in_block self = XLOG_BLCKSZ - (self mod XLOG_BLCKSZ)"

definition calc_padding :: "lsn \<Rightarrow> u64 \<Rightarrow> u64" where
  "calc_padding self sz = (sz - self) mod sz"

definition lsn_align :: "lsn \<Rightarrow> lsn" where
  "lsn_align self = (self + 7) AND NOT 7"

definition lsn_is_aligned :: "lsn \<Rightarrow> bool" where
  "lsn_is_aligned self \<longleftrightarrow> self = lsn_align self"

definition lsn_is_valid :: "lsn \<Rightarrow> bool" where
  "lsn_is_valid self \<longleftrightarrow> self \<noteq> lsn_INVALID"

definition lsn_from_str :: "string \<Rightarrow> lsn res" where
  "lsn_from_str s = (case split_on (CHR ''/'') (trim s) of
     [left, right] \<Rightarrow>
       (case from_str_radix16 (2 ^ 32) left of
          None \<Rightarrow> Inl (Bail ''LsnParseError'')
        | Some left_num \<Rightarrow>
            (case from_str_radix16 (2 ^ 32) right of
               None \<Rightarrow> Inl (Bail ''LsnParseError'')
             | Some right_num \<Rightarrow>
                 Inr (push_bit 32 (of_nat left_num :: u64) OR of_nat right_num)))
   | _ \<Rightarrow> Inl (Bail ''LsnParseError''))"

definition lsn_display :: "lsn \<Rightarrow> string" where
  "lsn_display self =
     fmt_X (unat (drop_bit 32 self)) @ [CHR ''/''] @ fmt_X (unat (self AND 0xffffffff))"

definition lsn_add :: "lsn \<Rightarrow> u64 \<Rightarrow> lsn res" where
  "lsn_add self other = (case checked_add self other of
     None \<Rightarrow> Inl (Panic ''called Option::unwrap() on a None value'') | Some v \<Rightarrow> Inr v)"

text \<open>\<open>AtomicLsn\<close>: one cell, each operation one atomic step that returns the old value.\<close>

definition atomic_store :: "lsn \<Rightarrow> lsn \<Rightarrow> lsn" where
  "atomic_store cell v = v"

definition atomic_fetch_add :: "u64 \<Rightarrow> (lsn, lsn) act" where
  "atomic_fetch_add val cell =
     (case checked_add cell val of
        None \<Rightarrow> (Inl (Panic ''AtomicLsn overflow''), cell + val)
      | Some _ \<Rightarrow> (Inr cell, cell + val))"

definition atomic_fetch_max :: "lsn \<Rightarrow> (lsn, lsn) act" where
  "atomic_fetch_max v cell = (Inr cell, max cell v)"

record record_lsn =
  rl_last :: lsn
  rl_prev :: lsn

definition cnt_advance :: "lsn \<Rightarrow> (record_lsn, unit) act" where
  "cnt_advance v self =
     (if rl_last self \<le> v then (Inr (), self\<lparr>rl_last := v, rl_prev := rl_last self\<rparr>)
      else (Inl (Panic ''assertion failed: self.last <= lsn''), self))"

definition cnt_value :: "record_lsn \<Rightarrow> lsn" where
  "cnt_value self = rl_last self"

subsection \<open>Reading the operations as arithmetic\<close>

lemma unat_segment_offset [lsn_simps]: "unat (segment_offset x s) = unat x mod unat s"
  by (simp add: segment_offset_def unat_mod)

lemma unat_segment_number [lsn_simps]: "unat (segment_number x s) = unat x div unat s"
  by (simp add: segment_number_def unat_div)

lemma unat_segment_lsn [lsn_simps]: "unat (segment_lsn x s) = unat x - unat x mod unat s"
proof -
  have "x mod s \<le> x" by (simp add: word_le_nat_alt unat_mod)
  then show ?thesis by (simp add: segment_lsn_def unat_sub unat_mod)
qed

lemma unat_block_offset [lsn_simps]: "unat (block_offset x) = unat x mod 8192"
  by (simp add: block_offset_def XLOG_BLCKSZ_def unat_mod)

lemma unat_page_lsn [lsn_simps]: "unat (page_lsn x) = unat x - unat x mod 8192"
proof -
  have "block_offset x \<le> x" by (simp add: word_le_nat_alt unat_block_offset)
  then show ?thesis by (simp add: page_lsn_def unat_sub unat_block_offset)
qed

lemma unat_remaining_in_block [lsn_simps]:
  "unat (remaining_in_block x) = 8192 - unat x mod 8192"
proof -
  have m: "unat (x mod XLOG_BLCKSZ) = unat x mod 8192"
    by (simp add: XLOG_BLCKSZ_def unat_mod)
  then have "x mod XLOG_BLCKSZ \<le> XLOG_BLCKSZ"
    by (simp add: word_le_nat_alt) (simp add: XLOG_BLCKSZ_def less_imp_le)
  then show ?thesis
    by (simp add: remaining_in_block_def unat_sub m) (simp add: XLOG_BLCKSZ_def)
qed

lemma lsn_add_Inr:
  "lsn_add a b = Inr c \<longleftrightarrow> c = a + b \<and> unat a + unat b < 2 ^ 64"
  by (auto simp: lsn_add_def checked_add_def split: option.splits)

lemma lsn_add_unat: "lsn_add a b = Inr c \<Longrightarrow> unat c = unat a + unat b"
  by (auto simp: lsn_add_Inr unat_add_if)

lemma lsn_add_mono: "lsn_add a b = Inr c \<Longrightarrow> a \<le> c"
  by (drule lsn_add_unat) (simp add: word_le_nat_alt)

lemma lsn_add_both: "lsn_add a b = Inr c \<Longrightarrow> a \<le> c \<and> unat c = unat a + unat b"
  by (simp add: lsn_add_mono lsn_add_unat)

lemma segment_decomp:
  "unat x = unat (segment_number x s) * unat s + unat (segment_offset x s)"
  by (simp add: lsn_simps)

subsection \<open>Padding and alignment\<close>

lemma and_not7: "x AND NOT 7 = x - x mod 8" for x :: u64
proof -
  have "x AND 7 = take_bit 3 x" by (simp add: take_bit_eq_mask mask_eq_exp_minus_1)
  also have "\<dots> = x mod 8" by (simp add: take_bit_eq_mod)
  finally have low: "x AND 7 = x mod 8" .
  have "x - (x AND 7) = x AND NOT (x AND 7)"
    by (rule disjunctive_diff) (simp add: bit_and_iff)
  also have "\<dots> = x AND NOT 7"
    by (rule bit_word_eqI) (auto simp only: bit_and_iff bit_not_iff)
  finally show ?thesis by (simp add: low)
qed

lemma unat_lsn_align:
  assumes "unat x + 7 < 2 ^ 64"
  shows "unat (lsn_align x) = (unat x + 7) - (unat x + 7) mod 8"
proof -
  have "unat (x + 7) = unat x + 7"
    using assms unat_add_if [of x 7] by simp
  moreover have "(x + 7) mod 8 \<le> x + 7"
    by (simp add: word_le_nat_alt unat_mod)
  ultimately show ?thesis
    unfolding lsn_align_def and_not7 by (simp add: unat_sub unat_mod)
qed

lemma wrap_sub_mod:
  fixes d m x :: nat
  assumes "d dvd m" "0 < d" "x < m"
  shows "(if x \<le> d then d - x else m + d - x) mod d = (d - x mod d) mod d"
proof -
  obtain k where m: "m = d * k" using assms(1) by (rule dvdE)
  have xd: "x = d * (x div d) + x mod d" by simp
  have q: "x div d < k" using assms m by (metis less_mult_imp_div_less mult.commute)
  have r: "x mod d < d" using assms(2) by simp
  show ?thesis
  proof (cases "x \<le> d")
    case True
    then show ?thesis by (cases "x = d") auto
  next
    case False
    have "m + d - x = d * (k - x div d) + (d - x mod d)"
      using q r xd m by (metis (no_types, lifting) Nat.add_diff_assoc add_diff_cancel_left' diff_diff_left diff_mult_distrib2 le_add1 less_imp_le mult_le_mono2 Nat.diff_add_assoc2)
    then show ?thesis using False by simp
  qed
qed

lemma len64: "LENGTH(64) = 64"
  by simp

lemma unat_calc_padding:
  assumes "unat sz dvd 2 ^ 64" "0 < sz"
  shows "unat (calc_padding x sz) = (unat sz - unat x mod unat sz) mod unat sz"
proof -
  have "0 < unat sz" using assms(2) by (simp add: word_less_nat_alt)
  moreover have "unat x < 2 ^ 64" using unat_lt_2p [of x] by simp
  ultimately have "unat (sz - x) mod unat sz = (unat sz - unat x mod unat sz) mod unat sz"
    using wrap_sub_mod [OF assms(1), of "unat x"] by (simp only: unat_sub_wrap [of sz x] len64)
  then show ?thesis by (simp only: calc_padding_def unat_mod)
qed

lemma calc_padding_fills:
  assumes "unat sz dvd 2 ^ 64" "0 < sz"
  shows "unat sz dvd unat x + unat (calc_padding x sz)" "calc_padding x sz < sz"
proof -
  have pos: "0 < unat sz" using assms(2) by (simp add: word_less_nat_alt)
  define r where "r = unat x mod unat sz"
  have r: "r < unat sz" using pos by (simp add: r_def)
  show "unat sz dvd unat x + unat (calc_padding x sz)"
  proof (cases "r = 0")
    case True
    then show ?thesis
      by (simp add: unat_calc_padding [OF assms]) (simp add: r_def mod_eq_0_iff_dvd dvd_add)
  next
    case False
    then have "unat (calc_padding x sz) = unat sz - r"
      using r by (simp add: unat_calc_padding [OF assms] flip: r_def)
    then have "unat x + unat (calc_padding x sz) = (unat x - r) + unat sz"
      using r by (simp add: r_def)
    moreover have "unat sz dvd unat x - r" by (simp add: r_def dvd_minus_mod)
    ultimately show ?thesis by simp
  qed
  show "calc_padding x sz < sz"
    using pos by (simp add: word_less_nat_alt unat_calc_padding [OF assms])
qed

subsection \<open>Text format\<close>

lemma lsn_halves:
  "push_bit 32 (of_nat (unat (drop_bit 32 x)) :: u64) OR of_nat (unat (x AND 0xffffffff)) = x" for x :: u64
proof -
  have "x AND 0xffffffff = take_bit 32 x"
    by (simp add: take_bit_eq_mask mask_eq_exp_minus_1)
  moreover have "push_bit 32 (drop_bit 32 x) OR take_bit 32 x = x"
    by (rule bit_word_eqI) (auto simp: bit_or_iff bit_push_bit_iff bit_drop_bit_eq bit_take_bit_iff)
  ultimately show ?thesis by simp
qed
lemma fmt_X_no_slash: "CHR ''/'' \<notin> set (fmt_X n)"
proof
  assume "CHR ''/'' \<in> set (fmt_X n)"
  then have "48 \<le> (of_char (CHR ''/'') :: nat)"
    using hex_char_range [of 65 "CHR ''/''" 0 n] by (simp add: fmt_X_def pad0_def)
  then show False by simp
qed

lemma trim_lsn_display: "trim (lsn_display x) = lsn_display x"
proof -
  have rng: "c \<in> set (fmt_X n) \<Longrightarrow> 48 \<le> (of_char c :: nat) \<and> (of_char c :: nat) \<le> 102" for c n
    using hex_char_range [of 65 c 0 n] by (simp add: fmt_X_def pad0_def)
  have ne: "fmt_X n \<noteq> []" for n by (simp add: fmt_X_def)
  have "hd (lsn_display x) \<in> set (fmt_X (unat (drop_bit 32 x)))"
    using ne by (simp add: lsn_display_def)
  moreover have "last (lsn_display x) \<in> set (fmt_X (unat (x AND 0xffffffff)))"
    using ne by (simp add: lsn_display_def)
  ultimately show ?thesis
    by (intro trim_ascii) (auto simp: lsn_display_def dest!: rng)
qed

lemma lsn_from_str_display: "lsn_from_str (lsn_display x) = Inr x"
proof -
  have low: "x AND 0xffffffff = take_bit 32 x"
    by (simp add: take_bit_eq_mask mask_eq_exp_minus_1)
  have b: "unat (drop_bit 32 x) < 2 ^ 32" "unat (x AND 0xffffffff) < 2 ^ 32"
    using unat_lt_2p [of x]
    by (simp add: drop_bit_eq_div unat_div)
      (simp only: low unsigned_take_bit_eq take_bit_nat_less_exp)
  have "split_on (CHR ''/'') (lsn_display x) =
      [fmt_X (unat (drop_bit 32 x)), fmt_X (unat (x AND 0xffffffff))]"
    by (simp add: lsn_display_def split_on_append split_on_none fmt_X_no_slash)
  then show ?thesis
    using lsn_halves [of x] b
    by (simp add: lsn_from_str_def trim_lsn_display fmt_X_def from_str_radix16_hex_of)
qed

end
