(* ===== verification/WalDecoder.thy ===== *)
theory WalDecoder
  imports Lsn
begin

text \<open>
  The WAL stream decoder: the structure \<open>WalStreamDecoder\<close> (module \<open>waldecoder\<close> of
  libs/postgres_ffi/src/lib.rs) and the state machine of
  libs/postgres_ffi/src/waldecoder_handler.rs that validates page headers and reassembles records.
  One turn of the loop is \<open>decode_iter\<close>; \<open>poll_decode_internal\<close> repeats it and is total.

  The layouts of the Postgres structures come from bindings that the build generates, and they
  are decoded by bincode; the checksum is the crate crc32c. These are the record \<open>pg_bindings\<close>,
  one per supported Postgres version: a header decoder returns the number of bytes it consumed
  and the header, or no header when the bytes do not decode.
\<close>

record page_header =
  xlp_magic :: u16
  xlp_info :: u16
  xlp_pageaddr :: u64
  xlp_rem_len :: u32

record xlog_record =
  xl_info :: u8
  xl_rmid :: u8
  xl_crc :: u32

record pg_bindings =
  pb_XLOG_PAGE_MAGIC :: u16
  pb_SIZE_LONG_PHD :: nat
  pb_SIZE_SHORT_PHD :: nat
  pb_SIZE_RECORD :: nat
  pb_long_header :: "bytes \<Rightarrow> nat \<times> page_header option"
  pb_short_header :: "bytes \<Rightarrow> nat \<times> page_header option"
  pb_record :: "bytes \<Rightarrow> xlog_record option"
  pb_crc32c_append :: "u32 \<Rightarrow> bytes \<Rightarrow> u32"

definition XLP_FIRST_IS_CONTRECORD :: u16 where "XLP_FIRST_IS_CONTRECORD = 1"
definition XLOG_RECORD_CRC_OFFS :: nat where "XLOG_RECORD_CRC_OFFS = 20"
definition XLOG_SWITCH :: u8 where "XLOG_SWITCH = 0x40"
definition RM_XLOG_ID :: u8 where "RM_XLOG_ID = 0"

definition is_xlog_switch_record :: "xlog_record \<Rightarrow> bool" where
  "is_xlog_switch_record self \<longleftrightarrow> xl_info self = XLOG_SWITCH \<and> xl_rmid self = RM_XLOG_ID"

datatype dec_state =
    WaitingForRecord
  | ReassemblingRecord bytes u32
  | SkippingEverything lsn

record decoder =
  d_lsn :: lsn
  d_pg_version :: u32
  d_inputbuf :: bytes
  d_state :: dec_state

definition decoder_new :: "lsn \<Rightarrow> u32 \<Rightarrow> decoder" where
  "decoder_new l pg_version =
     \<lparr>d_lsn = l, d_pg_version = pg_version, d_inputbuf = [], d_state = WaitingForRecord\<rparr>"

definition decoder_available :: "decoder \<Rightarrow> lsn res" where
  "decoder_available self = lsn_add (d_lsn self) (of_nat (length (d_inputbuf self)))"

definition feed_bytes :: "bytes \<Rightarrow> decoder \<Rightarrow> decoder" where
  "feed_bytes buf self = self\<lparr>d_inputbuf := d_inputbuf self @ buf\<rparr>"

subsection \<open>The state machine\<close>

definition validate_page_header :: "pg_bindings \<Rightarrow> decoder \<Rightarrow> page_header \<Rightarrow> unit res" where
  "validate_page_header P self hdr =
     (if xlp_magic hdr \<noteq> pb_XLOG_PAGE_MAGIC P then Inl (Bail ''invalid xlog page header: xlp_magic'')
      else if xlp_pageaddr hdr \<noteq> d_lsn self then Inl (Bail ''invalid xlog page header: xlp_pageaddr'')
      else case d_state self of
        WaitingForRecord \<Rightarrow>
          if xlp_info hdr AND XLP_FIRST_IS_CONTRECORD \<noteq> 0
          then Inl (Bail ''invalid xlog page header: unexpected XLP_FIRST_IS_CONTRECORD'')
          else if xlp_rem_len hdr \<noteq> 0
          then Inl (Bail ''invalid xlog page header: not a contrecord'')
          else Inr ()
      | ReassemblingRecord _ contlen \<Rightarrow>
          if xlp_info hdr AND XLP_FIRST_IS_CONTRECORD = 0
          then Inl (Bail ''invalid xlog page header: XLP_FIRST_IS_CONTRECORD expected'')
          else if xlp_rem_len hdr \<noteq> contlen
          then Inl (Bail ''invalid xlog page header: xlp_rem_len'')
          else Inr ()
      | SkippingEverything _ \<Rightarrow>
          Inl (Panic ''Should not be validating page header in the SkippingEverything state''))"

text \<open>What a turn does next: leave the loop with a result, or go round again.\<close>

datatype 'a flow = Continue | Return 'a

type_synonym decoded = "(lsn \<times> bytes) option"

definition read_page_header ::
  "pg_bindings \<Rightarrow> nat \<Rightarrow> (bytes \<Rightarrow> nat \<times> page_header option) \<Rightarrow> (decoder, decoded flow) act" where
  "read_page_header P phd parse_hdr self =
     (if length (d_inputbuf self) < phd then (Inr (Return None), self)
      else case parse_hdr (d_inputbuf self) of
        (n, None) \<Rightarrow> (Inl (Bail ''header deserialization failed''),
                      self\<lparr>d_inputbuf := drop n (d_inputbuf self)\<rparr>)
      | (n, Some hdr) \<Rightarrow>
          let self = self\<lparr>d_inputbuf := drop n (d_inputbuf self)\<rparr>
          in case validate_page_header P self hdr of
               Inl e \<Rightarrow> (Inl e, self)
             | Inr _ \<Rightarrow>
                 case lsn_add (d_lsn self) (of_nat phd) of
                   Inl e \<Rightarrow> (Inl e, self)
                 | Inr l \<Rightarrow> (Inr Continue, self\<lparr>d_lsn := l\<rparr>))"

definition decode_header :: "pg_bindings \<Rightarrow> (decoder, decoded flow) act" where
  "decode_header P self =
     (case d_state self of
        SkippingEverything _ \<Rightarrow> (Inr Continue, self)
      | _ \<Rightarrow>
          if segment_offset (d_lsn self) WAL_SEGMENT_SIZE = 0
          then read_page_header P (pb_SIZE_LONG_PHD P) (pb_long_header P) self
          else if block_offset (d_lsn self) = 0
          then read_page_header P (pb_SIZE_SHORT_PHD P) (pb_short_header P) self
          else (Inr Continue, self))"

definition complete_record :: "pg_bindings \<Rightarrow> bytes \<Rightarrow> (decoder, lsn \<times> bytes) act" where
  "complete_record P recordbuf self =
     (if length recordbuf < pb_SIZE_RECORD P then (Inl (Panic ''range end index out of range''), self)
      else case pb_record P (take (pb_SIZE_RECORD P) recordbuf) of
        None \<Rightarrow> (Inl (Bail ''xlog record deserialization failed''), self)
      | Some xlogrec \<Rightarrow>
          if length recordbuf < XLOG_RECORD_CRC_OFFS + 4
          then (Inl (Panic ''range start index out of range''), self)
          else
            let crc = pb_crc32c_append P 0 (drop (XLOG_RECORD_CRC_OFFS + 4) recordbuf);
                crc = pb_crc32c_append P crc (take XLOG_RECORD_CRC_OFFS recordbuf)
            in if crc \<noteq> xl_crc xlogrec then (Inl (Bail ''WAL record crc mismatch''), self)
               else
                 case (if is_xlog_switch_record xlogrec
                       then lsn_add (d_lsn self) (calc_padding (d_lsn self) WAL_SEGMENT_SIZE)
                       else Inr (lsn_align (d_lsn self))) of
                   Inl e \<Rightarrow> (Inl e, self)
                 | Inr next_lsn \<Rightarrow>
                     (Inr (next_lsn, recordbuf), self\<lparr>d_state := SkippingEverything next_lsn\<rparr>))"

definition returning :: "(decoder, lsn \<times> bytes) act \<Rightarrow> (decoder, decoded flow) act" where
  "returning m = abind m (\<lambda>x. areturn (Return (Some x)))"

definition decode_waiting :: "pg_bindings \<Rightarrow> (decoder, decoded flow) act" where
  "decode_waiting P self =
     (let buf = d_inputbuf self
      in if length buf < 4 then (Inr (Return None), self)
         else
           let xl_tot_len = (of_nat (le_nat (take 4 buf)) :: u32)
           in if unat xl_tot_len < pb_SIZE_RECORD P then (Inl (Bail ''invalid xl_tot_len''), self)
              else
                let pageleft = (ucast (remaining_in_block (d_lsn self)) :: u32)
                in if length buf \<ge> unat xl_tot_len \<and> xl_tot_len \<le> pageleft
                   then case lsn_add (d_lsn self) (ucast xl_tot_len) of
                          Inl e \<Rightarrow> (Inl e, self)
                        | Inr l \<Rightarrow>
                            returning (complete_record P (take (unat xl_tot_len) buf))
                              (self\<lparr>d_lsn := l, d_inputbuf := drop (unat xl_tot_len) buf\<rparr>)
                   else if xl_tot_len = 0
                   then (Inl (Panic ''called Option::unwrap() on a None value''), self)
                   else (Inr Continue, self\<lparr>d_state := ReassemblingRecord [] xl_tot_len\<rparr>))"

definition decode_reassembling ::
  "pg_bindings \<Rightarrow> bytes \<Rightarrow> u32 \<Rightarrow> (decoder, decoded flow) act" where
  "decode_reassembling P recordbuf contlen self =
     (let buf = d_inputbuf self;
          pageleft = (ucast (remaining_in_block (d_lsn self)) :: u32);
          n = unat (min contlen pageleft)
      in if length buf < n then (Inr (Return None), self)
         else
           let recordbuf = recordbuf @ take n buf;
               self = self\<lparr>d_inputbuf := drop n buf, d_state := ReassemblingRecord recordbuf contlen\<rparr>
           in case lsn_add (d_lsn self) (of_nat n) of
                Inl e \<Rightarrow> (Inl e, self)
              | Inr l \<Rightarrow>
                  let self = self\<lparr>d_lsn := l\<rparr>;
                      contlen' = contlen - of_nat n
                  in if contlen' \<noteq> 0
                     then (Inr Continue, self\<lparr>d_state := ReassemblingRecord recordbuf contlen'\<rparr>)
                     else returning (complete_record P recordbuf)
                            (self\<lparr>d_state := ReassemblingRecord [] contlen\<rparr>))"

definition decode_skipping :: "lsn \<Rightarrow> (decoder, decoded flow) act" where
  "decode_skipping skip_until_lsn self =
     (if \<not> skip_until_lsn \<ge> d_lsn self
      then (Inl (Panic ''assertion failed: *skip_until_lsn >= self.lsn''), self)
      else
        let n = skip_until_lsn - d_lsn self
        in if length (d_inputbuf self) < unat n then (Inr (Return None), self)
           else
             let self = self\<lparr>d_inputbuf := drop (unat n) (d_inputbuf self)\<rparr>
             in case lsn_add (d_lsn self) n of
                  Inl e \<Rightarrow> (Inl e, self)
                | Inr l \<Rightarrow> (Inr Continue, self\<lparr>d_lsn := l, d_state := WaitingForRecord\<rparr>))"

definition decode_body :: "pg_bindings \<Rightarrow> (decoder, decoded flow) act" where
  "decode_body P self =
     (case d_state self of
        WaitingForRecord \<Rightarrow> decode_waiting P self
      | ReassemblingRecord recordbuf contlen \<Rightarrow> decode_reassembling P recordbuf contlen self
      | SkippingEverything skip_until_lsn \<Rightarrow> decode_skipping skip_until_lsn self)"

definition decode_iter :: "pg_bindings \<Rightarrow> (decoder, decoded flow) act" where
  "decode_iter P = abind (decode_header P) (\<lambda>f. case f of
     Return x \<Rightarrow> areturn (Return x) | Continue \<Rightarrow> decode_body P)"

subsection \<open>The loop ends\<close>

text \<open>Every turn that goes round again or returns a record consumes input or moves down in the
  order of the states, so neither the loop nor a caller that polls until nothing is left can run
  forever. (A continuation of length zero cannot arise: the source has a \<open>NonZeroU32\<close> there.)\<close>

fun state_rank :: "dec_state \<Rightarrow> nat" where
  "state_rank (ReassemblingRecord _ contlen) = (if contlen = 0 then 3 else 0)"
| "state_rank WaitingForRecord = 1"
| "state_rank (SkippingEverything _) = 2"

definition dec_measure :: "decoder \<Rightarrow> nat" where
  "dec_measure d = 4 * length (d_inputbuf d) + state_rank (d_state d)"

lemma remaining_in_block_u32: "0 < unat (ucast (remaining_in_block l) :: u32)"
proof -
  have r: "unat (remaining_in_block l) = 8192 - unat l mod 8192" by (simp add: lsn_simps)
  have "unat l mod 8192 < 8192" by simp
  then show ?thesis by (simp add: unsigned_ucast_eq unsigned_take_bit_eq r take_bit_eq_mod)
qed

lemma decode_header_Continue:
  "decode_header P d = (Inr f, d') \<Longrightarrow>
     d_state d' = d_state d \<and> length (d_inputbuf d') \<le> length (d_inputbuf d) \<and>
     (\<forall>x. f \<noteq> Return (Some x))"
  by (auto simp: decode_header_def read_page_header_def Let_def
      split: dec_state.splits if_splits prod.splits option.splits sum.splits)

text \<open>Results after which the decoder is used again: another turn, or a record.\<close>

fun goes_on :: "decoded flow res \<Rightarrow> bool" where
  "goes_on (Inr Continue) \<longleftrightarrow> True"
| "goes_on (Inr (Return (Some _))) \<longleftrightarrow> True"
| "goes_on _ \<longleftrightarrow> False"

lemma returning_eq:
  "returning m d = (r, d') \<longleftrightarrow> (\<exists>q. m d = (q, d') \<and>
     r = (case q of Inl e \<Rightarrow> Inl e | Inr x \<Rightarrow> Inr (Return (Some x))))"
  by (auto simp: returning_def abind_def areturn_def split: prod.splits sum.splits)

lemma complete_record_measure:
  "complete_record P recordbuf d = (Inr x, d') \<Longrightarrow>
     dec_measure d' = 4 * length (d_inputbuf d) + 2 \<and> 24 \<le> length recordbuf"
  by (auto simp: complete_record_def Let_def dec_measure_def XLOG_RECORD_CRC_OFFS_def
      split: if_splits option.splits sum.splits)

lemma returning_measure:
  assumes "returning (complete_record P recordbuf) d = (r, d')" "goes_on r"
  shows "dec_measure d' = 4 * length (d_inputbuf d) + 2 \<and> 24 \<le> length recordbuf"
proof -
  obtain q where q: "complete_record P recordbuf d = (q, d')"
    "r = (case q of Inl e \<Rightarrow> Inl e | Inr x \<Rightarrow> Inr (Return (Some x)))"
    using assms(1) by (auto simp: returning_eq)
  with assms(2) obtain x where "q = Inr x" by (cases q) auto
  with q(1) show ?thesis by (auto dest: complete_record_measure)
qed

lemma returning_not_Continue: "returning m d \<noteq> (Inr Continue, d')"
  by (auto simp: returning_def areturn_def monad_simps)

lemma decode_reassembling_measure:
  assumes "decode_reassembling P recordbuf contlen d = (r, d')" "goes_on r"
    "d_state d = ReassemblingRecord recordbuf contlen"
  shows "dec_measure d' < dec_measure d"
proof -
  define n where "n = unat (min contlen (ucast (remaining_in_block (d_lsn d)) :: u32))"
  have npos: "0 < n" if "contlen \<noteq> 0"
    using that remaining_in_block_u32 [of "d_lsn d"]
    by (auto simp: n_def min_def unat_gt_0 split: if_splits)
  have nle: "n \<le> length (d_inputbuf d)"
    using assms(1,2) by (auto simp: decode_reassembling_def Let_def simp flip: n_def split: if_splits)
  then obtain l where l: "lsn_add (d_lsn d) (of_nat n) = Inr l"
    using assms(1,2) by (cases "lsn_add (d_lsn d) (of_nat n)")
      (auto simp: decode_reassembling_def Let_def simp flip: n_def split: if_splits)
  show ?thesis
  proof (cases "contlen - of_nat n = 0")
    case False
    then have "contlen \<noteq> 0" by (auto simp: n_def)
    then show ?thesis
      using False l nle npos assms
      by (auto simp: decode_reassembling_def Let_def dec_measure_def simp flip: n_def)
  next
    case True
    with l nle assms(1) have "returning (complete_record P (recordbuf @ take n (d_inputbuf d)))
        (d\<lparr>d_inputbuf := drop n (d_inputbuf d), d_lsn := l,
            d_state := ReassemblingRecord [] contlen\<rparr>) = (r, d')"
      by (simp add: decode_reassembling_def Let_def flip: n_def)
    from returning_measure [OF this assms(2)]
    have "dec_measure d' = 4 * length (drop n (d_inputbuf d)) + 2" by simp
    then show ?thesis
      using npos nle assms(3) by (cases "contlen = 0") (auto simp: dec_measure_def)
  qed
qed

lemma decode_waiting_measure:
  assumes "decode_waiting P d = (r, d')" "goes_on r" "d_state d = WaitingForRecord"
  shows "dec_measure d' < dec_measure d"
proof (cases "r = Inr Continue")
  case True
  with assms show ?thesis
    by (auto simp: decode_waiting_def Let_def dec_measure_def returning_not_Continue
        split: if_splits sum.splits)
next
  case False
  then obtain n :: u32 and l where "unat n \<le> length (d_inputbuf d)"
    "returning (complete_record P (take (unat n) (d_inputbuf d)))
       (d\<lparr>d_lsn := l, d_inputbuf := drop (unat n) (d_inputbuf d)\<rparr>) = (r, d')"
    using assms by (auto simp: decode_waiting_def Let_def split: if_splits sum.splits)
  with returning_measure [OF this(2) assms(2)] assms(3) show ?thesis by (auto simp: dec_measure_def)
qed

lemma decode_body_measure:
  assumes "decode_body P d = (r, d')" "goes_on r"
  shows "dec_measure d' < dec_measure d"
proof (cases "d_state d")
  case (SkippingEverything s)
  with assms show ?thesis
    by (auto simp: decode_body_def decode_skipping_def Let_def dec_measure_def
        split: if_splits sum.splits)
qed (use assms decode_waiting_measure decode_reassembling_measure in \<open>auto simp: decode_body_def\<close>)

lemma decode_iter_measure:
  assumes "decode_iter P d = (r, d')" "goes_on r"
  shows "dec_measure d' < dec_measure d"
proof -
  obtain f d1 where h: "decode_header P d = (Inr f, d1)"
    and b: "(case f of Return x \<Rightarrow> areturn (Return x) | Continue \<Rightarrow> decode_body P) d1 = (r, d')"
    using assms by (auto simp: decode_iter_def abind_def split: prod.splits sum.splits)
  then have "f = Continue"
    using assms(2) decode_header_Continue [OF h]
    by (cases f) (auto simp: areturn_def elim: goes_on.elims)
  with h b assms(2) have "dec_measure d1 \<le> dec_measure d" "dec_measure d' < dec_measure d1"
    by (auto simp: dec_measure_def dest!: decode_header_Continue intro: decode_body_measure [unfolded dec_measure_def])
  then show ?thesis by simp
qed

function poll_decode_internal :: "pg_bindings \<Rightarrow> (decoder, decoded) act" where
  "poll_decode_internal P self =
     (case decode_iter P self of
        (Inl e, self') \<Rightarrow> (Inl e, self')
      | (Inr (Return x), self') \<Rightarrow> (Inr x, self')
      | (Inr Continue, self') \<Rightarrow> poll_decode_internal P self')"
  by auto

termination
  by (relation "measure (\<lambda>(P, d). dec_measure d)") (auto intro: decode_iter_measure [OF sym])

declare poll_decode_internal.simps [simp del]

text \<open>\<open>dispatch_pgversion!\<close>: the bindings exist for the versions 14 to 17.\<close>

definition dispatch_pgversion :: "(u32 \<Rightarrow> pg_bindings) \<Rightarrow> u32 \<Rightarrow> pg_bindings option" where
  "dispatch_pgversion B version =
     (if version = 14 \<or> version = 15 \<or> version = 16 \<or> version = 17 then Some (B version) else None)"

definition poll_decode :: "(u32 \<Rightarrow> pg_bindings) \<Rightarrow> (decoder, decoded) act" where
  "poll_decode B self =
     (case dispatch_pgversion B (d_pg_version self) of
        None \<Rightarrow> (Inl (Bail ''Unknown version''), self)
      | Some P \<Rightarrow> poll_decode_internal P self)"

subsection \<open>Positions never go back\<close>

text \<open>What the code relies on from the generated bindings: a header decodes from exactly the
  bytes of its structure.\<close>

definition pb_ok :: "pg_bindings \<Rightarrow> bool" where
  "pb_ok P \<longleftrightarrow>
     (\<forall>bs n h. pb_long_header P bs = (n, Some h) \<longrightarrow> n = pb_SIZE_LONG_PHD P) \<and>
     (\<forall>bs n h. pb_short_header P bs = (n, Some h) \<longrightarrow> n = pb_SIZE_SHORT_PHD P)"

text \<open>The end of the input fed so far, the position below which nothing more is returned, and the
  room the unchecked rounding to eight bytes needs.\<close>

definition d_end :: "decoder \<Rightarrow> nat" where
  "d_end d = unat (d_lsn d) + length (d_inputbuf d)"

definition d_floor :: "decoder \<Rightarrow> lsn" where
  "d_floor d = (case d_state d of SkippingEverything s \<Rightarrow> s | _ \<Rightarrow> d_lsn d)"

definition d_fits :: "decoder \<Rightarrow> bool" where
  "d_fits d \<longleftrightarrow> d_end d + 8 \<le> 2 ^ 64"

definition dec_le :: "decoder \<Rightarrow> decoder \<Rightarrow> bool" where
  "dec_le d d' \<longleftrightarrow> d_pg_version d' = d_pg_version d \<and>
     (d_fits d \<longrightarrow> d_end d' \<le> d_end d \<and> d_floor d \<le> d_floor d')"

lemma dec_le_refl: "reflp dec_le"
  by (simp add: reflp_def dec_le_def)

lemma dec_le_same [simp]: "dec_le d d"
  by (simp add: dec_le_def)

lemma dec_le_trans: "transp dec_le"
  by (auto simp: transp_def dec_le_def d_fits_def intro: order.trans)

lemma lsn_align_ge: "unat l + 8 \<le> 2 ^ 64 \<Longrightarrow> l \<le> lsn_align l"
  by (simp add: word_le_nat_alt unat_lsn_align)

lemma complete_record_le:
  assumes "\<And>s. d_state d \<noteq> SkippingEverything s"
    and "complete_record P recordbuf d = (r, d')"
  shows "dec_le d d'"
proof -
  have f: "d_floor d = d_lsn d" using assms(1) by (auto simp: d_floor_def split: dec_state.splits)
  have "d_lsn d \<le> lsn_align (d_lsn d)" if "d_fits d"
    using that by (intro lsn_align_ge) (simp add: d_fits_def d_end_def)
  with assms(2) f show ?thesis
    by (auto simp: complete_record_def dec_le_def d_fits_def d_end_def d_floor_def Let_def
        split: if_splits option.splits sum.splits dest: lsn_add_mono)
qed

lemma complete_record_Inr:
  "complete_record P recordbuf d = (Inr (l, rec), d') \<Longrightarrow>
     d_state d' = SkippingEverything l \<and> rec = recordbuf \<and> d_end d' = d_end d"
  by (auto simp: complete_record_def Let_def d_end_def split: if_splits option.splits sum.splits)

lemma read_page_header_le:
  assumes "\<And>bs n h. parse_hdr bs = (n, Some h) \<Longrightarrow> n = phd" "\<And>s. d_state d \<noteq> SkippingEverything s"
    and "read_page_header P phd parse_hdr d = (r, d')"
  shows "dec_le d d'" "d_fits d \<Longrightarrow> r = Inr f \<Longrightarrow> d_end d' = d_end d"
proof -
  have n: "unat (of_nat phd :: u64) = phd" if "phd \<le> length (d_inputbuf d)" "d_fits d"
    using that by (simp add: d_fits_def d_end_def unat_of_nat take_bit_eq_mod)
  have f: "d_floor d = d_lsn d" using assms(2) by (auto simp: d_floor_def split: dec_state.splits)
  show "dec_le d d'"
    using assms(3) f n assms(2)
    by (auto simp: read_page_header_def Let_def dec_le_def d_floor_def d_end_def
        split: if_splits prod.splits option.splits sum.splits dec_state.splits
        dest!: lsn_add_both dest: assms(1))
  show "d_fits d \<Longrightarrow> r = Inr f \<Longrightarrow> d_end d' = d_end d"
    using assms(3) n
    by (auto simp: read_page_header_def Let_def d_end_def
        split: if_splits prod.splits option.splits sum.splits dest!: lsn_add_unat dest: assms(1))
qed

lemma decode_header_le:
  assumes "pb_ok P" "decode_header P d = (r, d')"
  shows "dec_le d d'" "d_fits d \<Longrightarrow> r = Inr f \<Longrightarrow> d_end d' = d_end d"
proof -
  have P: "\<And>bs n h. pb_long_header P bs = (n, Some h) \<Longrightarrow> n = pb_SIZE_LONG_PHD P"
    "\<And>bs n h. pb_short_header P bs = (n, Some h) \<Longrightarrow> n = pb_SIZE_SHORT_PHD P"
    using assms(1) unfolding pb_ok_def by blast+
  have "dec_le d d' \<and> (d_fits d \<longrightarrow> r = Inr f \<longrightarrow> d_end d' = d_end d)"
    using assms(2) read_page_header_le [OF P(1)] read_page_header_le [OF P(2)]
    by (cases "d_state d") (auto simp: decode_header_def split: if_splits)
  then show "dec_le d d'" "d_fits d \<Longrightarrow> r = Inr f \<Longrightarrow> d_end d' = d_end d" by auto
qed

lemma returning_complete_le:
  assumes "returning (complete_record P recordbuf) d = (r, d')" "\<And>s. d_state d \<noteq> SkippingEverything s"
  shows "dec_le d d'" "r = Inr f \<Longrightarrow> d_end d' = d_end d \<and> (\<exists>l rec. f = Return (Some (l, rec)) \<and> l = d_floor d')"
proof -
  obtain q where q: "complete_record P recordbuf d = (q, d')"
    "r = (case q of Inl e \<Rightarrow> Inl e | Inr x \<Rightarrow> Inr (Return (Some x)))"
    using assms(1) by (auto simp: returning_eq)
  show "dec_le d d'" by (rule complete_record_le [OF assms(2) q(1)])
  assume "r = Inr f"
  then obtain l rec where "q = Inr (l, rec)" "f = Return (Some (l, rec))"
    using q(2) by (cases q) auto
  with q(1) show "d_end d' = d_end d \<and> (\<exists>l rec. f = Return (Some (l, rec)) \<and> l = d_floor d')"
    by (auto simp: d_floor_def dest!: complete_record_Inr)
qed

text \<open>One turn, after the page header: where it leaves the decoder, that it neither loses nor
  invents input, and what it may return.\<close>

definition turn_ok :: "decoder \<Rightarrow> decoded flow res \<Rightarrow> decoder \<Rightarrow> bool" where
  "turn_ok d r d' \<longleftrightarrow> dec_le d d' \<and> (d_fits d \<longrightarrow> (\<forall>f. r = Inr f \<longrightarrow> d_end d' = d_end d \<and>
     (\<forall>l rec. f = Return (Some (l, rec)) \<longrightarrow> l = d_floor d')))"

lemma turn_ok_same [simp]: "turn_ok d (Inl e) d" "turn_ok d (Inr (Return None)) d" "turn_ok d (Inr Continue) d"
  by (simp_all add: turn_ok_def)

lemma turn_ok_complete:
  assumes "returning (complete_record P recordbuf) d1 = (r, d')" "\<And>s. d_state d1 \<noteq> SkippingEverything s"
    "dec_le d d1" "d_fits d \<Longrightarrow> d_end d1 = d_end d"
  shows "turn_ok d r d'"
  using returning_complete_le [OF assms(1,2)] assms(3,4) transpD [OF dec_le_trans]
  by (auto simp: turn_ok_def)

lemma decode_waiting_ok:
  assumes "decode_waiting P d = (r, d')" "d_state d = WaitingForRecord"
  shows "turn_ok d r d'"
proof -
  define n where "n = (of_nat (le_nat (take 4 (d_inputbuf d))) :: u32)"
  show ?thesis
  proof (cases "4 \<le> length (d_inputbuf d) \<and> \<not> unat n < pb_SIZE_RECORD P \<and> unat n \<le> length (d_inputbuf d)
      \<and> n \<le> ucast (remaining_in_block (d_lsn d))")
    case False
    with assms show ?thesis
      by (auto simp: decode_waiting_def Let_def turn_ok_def dec_le_def d_floor_def d_end_def
          simp flip: n_def split: if_splits)
  next
    case True
    show ?thesis
    proof (cases "lsn_add (d_lsn d) (ucast n)")
      case (Inl e)
      with True assms have "r = Inl e" "d' = d" by (auto simp: decode_waiting_def Let_def simp flip: n_def)
      then show ?thesis by simp
    next
      case (Inr l)
      let ?d = "d\<lparr>d_lsn := l, d_inputbuf := drop (unat n) (d_inputbuf d)\<rparr>"
      have "unat l = unat (d_lsn d) + unat n" "d_lsn d \<le> l"
        using lsn_add_both [OF Inr] by simp_all
      then have "dec_le d ?d" "d_end ?d = d_end d"
        using True assms(2) by (simp_all add: dec_le_def d_end_def d_floor_def)
      moreover have "returning (complete_record P (take (unat n) (d_inputbuf d))) ?d = (r, d')"
        using Inr True assms(1) by (simp add: decode_waiting_def Let_def flip: n_def)
      ultimately show ?thesis using assms(2) by (intro turn_ok_complete [of P _ ?d]) auto
    qed
  qed
qed

lemma decode_reassembling_ok:
  assumes "decode_reassembling P recordbuf contlen d = (r, d')" "d_state d = ReassemblingRecord recordbuf contlen"
  shows "turn_ok d r d'"
proof -
  define n where "n = unat (min contlen (ucast (remaining_in_block (d_lsn d)) :: u32))"
  have n64: "unat (of_nat n :: u64) = n" by (simp add: n_def)
  let ?d1 = "d\<lparr>d_inputbuf := drop n (d_inputbuf d),
      d_state := ReassemblingRecord (recordbuf @ take n (d_inputbuf d)) contlen\<rparr>"
  show ?thesis
  proof (cases "length (d_inputbuf d) < n")
    case True
    with assms(1) have "r = Inr (Return None)" "d' = d"
      by (auto simp: decode_reassembling_def Let_def simp flip: n_def)
    then show ?thesis by simp
  next
    case False
    show ?thesis
    proof (cases "lsn_add (d_lsn d) (of_nat n)")
      case (Inl e)
      with False assms(1) have "r = Inl e" "d' = ?d1"
        by (auto simp: decode_reassembling_def Let_def simp flip: n_def)
      then show ?thesis
        using assms(2) by (simp add: turn_ok_def dec_le_def d_end_def d_floor_def)
    next
      case (Inr l)
      have l: "unat l = unat (d_lsn d) + n" "d_lsn d \<le> l" using lsn_add_both [OF Inr] n64 by simp_all
      have le: "dec_le d (?d1\<lparr>d_lsn := l, d_state := ReassemblingRecord b c\<rparr>)"
        "d_end (?d1\<lparr>d_lsn := l, d_state := ReassemblingRecord b c\<rparr>) = d_end d" for b c
        using l False assms(2) by (simp_all add: dec_le_def d_end_def d_floor_def)
      show ?thesis
      proof (cases "contlen - of_nat n = 0")
        case True
        with False Inr assms(1) have "returning (complete_record P (recordbuf @ take n (d_inputbuf d)))
            (?d1\<lparr>d_lsn := l, d_state := ReassemblingRecord [] contlen\<rparr>) = (r, d')"
          by (simp add: decode_reassembling_def Let_def flip: n_def)
        from turn_ok_complete [OF this _ le] show ?thesis by simp
      next
        case F: False
        with False Inr assms(1) have "r = Inr Continue" "d' = ?d1\<lparr>d_lsn := l,
            d_state := ReassemblingRecord (recordbuf @ take n (d_inputbuf d)) (contlen - of_nat n)\<rparr>"
          by (auto simp: decode_reassembling_def Let_def simp flip: n_def)
        with le show ?thesis by (simp add: turn_ok_def)
      qed
    qed
  qed
qed

lemma decode_skipping_ok:
  assumes "decode_skipping s d = (r, d')" "d_state d = SkippingEverything s"
  shows "turn_ok d r d'"
  using assms
  by (auto simp: decode_skipping_def Let_def turn_ok_def dec_le_def d_end_def d_floor_def unat_sub word_le_nat_alt
      split: if_splits sum.splits dest!: lsn_add_both)

lemma decode_iter_ok:
  assumes "pb_ok P" "decode_iter P d = (r, d')"
  shows "turn_ok d r d'"
proof -
  obtain q d1 where h: "decode_header P d = (q, d1)" by fastforce
  note hl = decode_header_le [OF assms(1) h]
  show ?thesis
  proof (cases "q = Inr Continue")
    case False
    with h assms(2) have "d' = d1" "r = q"
      by (auto simp: decode_iter_def abind_def areturn_def split: sum.splits flow.splits)
    moreover have "q \<noteq> Inr (Return (Some x))" for x
      using h by (auto simp: decode_header_def read_page_header_def Let_def
          split: dec_state.splits if_splits prod.splits option.splits sum.splits)
    ultimately show ?thesis using hl by (auto simp: turn_ok_def)
  next
    case True
    with h assms(2) have b: "decode_body P d1 = (r, d')" by (simp add: decode_iter_def abind_def)
    have "turn_ok d1 r d'"
      using b decode_waiting_ok decode_reassembling_ok decode_skipping_ok
      by (auto simp: decode_body_def split: dec_state.splits)
    then show ?thesis
      using hl True transpD [OF dec_le_trans, of d d1 d']
      by (auto simp: turn_ok_def d_fits_def)
  qed
qed

definition poll_ok :: "decoder \<Rightarrow> decoded res \<Rightarrow> decoder \<Rightarrow> bool" where
  "poll_ok d r d' \<longleftrightarrow> dec_le d d' \<and> (d_fits d \<longrightarrow> (\<forall>x. r = Inr x \<longrightarrow> d_end d' = d_end d \<and>
     (\<forall>l rec. x = Some (l, rec) \<longrightarrow> l = d_floor d')))"

lemma poll_decode_internal_ok:
  "pb_ok P \<Longrightarrow> poll_decode_internal P d = (r, d') \<Longrightarrow> poll_ok d r d'"
proof (induction P d arbitrary: r d' rule: poll_decode_internal.induct)
  case (1 P d)
  obtain q d1 where q: "decode_iter P d = (q, d1)" by fastforce
  have t: "turn_ok d q d1" by (rule decode_iter_ok [OF "1.prems"(1) q])
  show ?case
  proof (cases "q = Inr Continue")
    case True
    then have "poll_decode_internal P d1 = (r, d')"
      using "1.prems"(2) q by (subst (asm) poll_decode_internal.simps) simp
    then have "poll_ok d1 r d'" using "1.IH" "1.prems"(1) q True by auto
    then show ?thesis
      using t True transpD [OF dec_le_trans, of d d1 d'] by (auto simp: poll_ok_def turn_ok_def d_fits_def)
  next
    case False
    then have "d' = d1 \<and> (case q of Inl e \<Rightarrow> r = Inl e | Inr (Return x) \<Rightarrow> r = Inr x | _ \<Rightarrow> False)"
      using "1.prems"(2) q by (subst (asm) poll_decode_internal.simps) (auto split: sum.splits flow.splits)
    then show ?thesis using t by (auto simp: poll_ok_def turn_ok_def split: sum.splits flow.splits)
  qed
qed

lemma poll_decode_ok:
  assumes "\<forall>v. pb_ok (B v)" "poll_decode B d = (r, d')"
  shows "poll_ok d r d'"
proof (cases "dispatch_pgversion B (d_pg_version d)")
  case None
  with assms show ?thesis by (auto simp: poll_decode_def poll_ok_def)
next
  case (Some P)
  then have "P = B (d_pg_version d)" by (auto simp: dispatch_pgversion_def split: if_splits)
  with assms Some show ?thesis by (auto simp: poll_decode_def intro: poll_decode_internal_ok)
qed

text \<open>A returned record costs input: the polling loops of the callers end.\<close>

lemma poll_decode_internal_measure:
  "poll_decode_internal P d = (Inr (Some x), d') \<Longrightarrow> dec_measure d' < dec_measure d"
proof (induction P d arbitrary: d' rule: poll_decode_internal.induct)
  case (1 P d)
  obtain q d1 where q: "decode_iter P d = (q, d1)" by fastforce
  then have "q = Inr Continue \<and> poll_decode_internal P d1 = (Inr (Some x), d') \<or>
      q = Inr (Return (Some x)) \<and> d1 = d'"
    using "1.prems" by (subst (asm) poll_decode_internal.simps) (auto split: sum.splits flow.splits)
  then show ?case
    using "1.IH" q decode_iter_measure [OF q] by fastforce
qed

lemma poll_decode_measure:
  "poll_decode B d = (Inr (Some x), d') \<Longrightarrow> dec_measure d' < dec_measure d"
  by (auto simp: poll_decode_def dest: poll_decode_internal_measure split: option.splits)

text \<open>A record is only returned when there is input beyond the position below which nothing more is
  returned. The length that is still missing of a record is never zero, as its type says.\<close>

definition d_wf :: "decoder \<Rightarrow> bool" where
  "d_wf d \<longleftrightarrow> (\<forall>b. d_state d \<noteq> ReassemblingRecord b 0)"

lemma complete_record_wf: "complete_record P rb d = (r, d') \<Longrightarrow> d_wf d \<Longrightarrow> d_wf d'"
  by (auto simp: complete_record_def Let_def d_wf_def split: if_splits option.splits sum.splits)

lemma returning_wf: "returning (complete_record P rb) d = (r, d') \<Longrightarrow> d_wf d \<Longrightarrow> d_wf d'"
  by (auto simp: returning_eq dest: complete_record_wf)

lemma decode_waiting_wf:
  assumes "decode_waiting P d = (r, d')" "d_wf d"
  shows "d_wf d'" "r = Inr (Return (Some x)) \<Longrightarrow> d_inputbuf d \<noteq> []"
  using assms
  by (auto simp: decode_waiting_def Let_def split: if_splits sum.splits dest!: returning_wf)
    (auto simp: d_wf_def)

lemma decode_reassembling_wf:
  assumes "decode_reassembling P rb c d = (r, d')" "c \<noteq> 0" "d_wf d"
  shows "d_wf d'" "r = Inr (Return (Some x)) \<Longrightarrow> d_inputbuf d \<noteq> []"
proof -
  define n where "n = unat (min c (ucast (remaining_in_block (d_lsn d)) :: u32))"
  have n0: "n = 0 \<Longrightarrow> c - of_nat n \<noteq> 0" using assms(2) by simp
  let ?d = "\<lambda>l b c. d\<lparr>d_inputbuf := drop n (d_inputbuf d), d_lsn := l, d_state := ReassemblingRecord b c\<rparr>"
  have wf: "c' \<noteq> 0 \<Longrightarrow> d_wf (?d l b c')" for l b c' by (simp add: d_wf_def)
  have "d_wf d' \<and> (r = Inr (Return (Some x)) \<longrightarrow> d_inputbuf d \<noteq> [])"
  proof (cases "length (d_inputbuf d) < n")
    case True
    with assms show ?thesis by (simp add: decode_reassembling_def Let_def flip: n_def) auto
  next
    case len: False
    show ?thesis
    proof (cases "lsn_add (d_lsn d) (of_nat n)")
      case (Inl e)
      with len assms show ?thesis by (simp add: decode_reassembling_def Let_def d_wf_def flip: n_def) auto
    next
      case (Inr l)
      show ?thesis
      proof (cases "c - of_nat n = 0")
        case True
        with len Inr assms(1) have "returning (complete_record P (rb @ take n (d_inputbuf d))) (?d l [] c) = (r, d')"
          by (simp add: decode_reassembling_def Let_def flip: n_def)
        from returning_wf [OF this wf [OF assms(2)]] True n0 len show ?thesis by auto
      next
        case False
        with len Inr assms(1) have "r = Inr Continue" "d' = ?d l (rb @ take n (d_inputbuf d)) (c - of_nat n)"
          by (simp_all add: decode_reassembling_def Let_def flip: n_def)
        with wf [OF False] show ?thesis by simp
      qed
    qed
  qed
  then show "d_wf d'" "r = Inr (Return (Some x)) \<Longrightarrow> d_inputbuf d \<noteq> []" by auto
qed

lemma decode_body_wf:
  assumes "decode_body P d = (r, d')" "d_wf d"
  shows "d_wf d'" "r = Inr (Return (Some x)) \<Longrightarrow> unat (d_floor d) < d_end d"
proof -
  have k: "d_wf d' \<and> (r = Inr (Return (Some x)) \<longrightarrow> d_inputbuf d \<noteq> [] \<and> d_floor d = d_lsn d)"
  proof (cases "d_state d")
    case WaitingForRecord
    then have "decode_waiting P d = (r, d')" using assms(1) by (simp add: decode_body_def)
    from decode_waiting_wf(1) [OF this assms(2)] decode_waiting_wf(2) [OF this assms(2), of x]
    show ?thesis using WaitingForRecord by (simp add: d_floor_def)
  next
    case (ReassemblingRecord rb c)
    then have "c \<noteq> 0" using assms(2) by (auto simp: d_wf_def)
    moreover have "decode_reassembling P rb c d = (r, d')"
      using assms(1) ReassemblingRecord by (simp add: decode_body_def)
    ultimately show ?thesis
      using decode_reassembling_wf(1) [of P rb c d r d'] decode_reassembling_wf(2) [of P rb c d r d' x] assms(2)
        ReassemblingRecord by (simp add: d_floor_def)
  next
    case (SkippingEverything s)
    with assms show ?thesis
      by (auto simp: decode_body_def decode_skipping_def Let_def d_wf_def split: if_splits sum.splits)
  qed
  then show "d_wf d'" "r = Inr (Return (Some x)) \<Longrightarrow> unat (d_floor d) < d_end d" by (auto simp: d_end_def)
qed

lemma decode_header_state: "decode_header P d = (r, d') \<Longrightarrow> d_state d' = d_state d"
  by (auto simp: decode_header_def read_page_header_def Let_def
      split: dec_state.splits if_splits prod.splits option.splits sum.splits)

lemma decode_iter_wf:
  assumes "pb_ok P" "decode_iter P d = (r, d')" "d_wf d"
  shows "d_wf d'" "r = Inr (Return (Some x)) \<Longrightarrow> d_fits d \<Longrightarrow> unat (d_floor d) < d_end d"
proof -
  obtain q d1 where h: "decode_header P d = (q, d1)" by fastforce
  note hl = decode_header_le [OF assms(1) h]
  have w1: "d_wf d1" using decode_header_state [OF h] assms(3) by (simp add: d_wf_def)
  have "d_wf d' \<and> (r = Inr (Return (Some x)) \<longrightarrow> d_fits d \<longrightarrow> unat (d_floor d) < d_end d)"
  proof (cases "q = Inr Continue")
    case False
    with h assms(2) have "d' = d1" "r = q"
      by (auto simp: decode_iter_def abind_def areturn_def split: sum.splits flow.splits)
    moreover have "q \<noteq> Inr (Return (Some x))"
      using h by (auto simp: decode_header_def read_page_header_def Let_def
          split: dec_state.splits if_splits prod.splits option.splits sum.splits)
    ultimately show ?thesis using w1 by simp
  next
    case True
    with h assms(2) have b: "decode_body P d1 = (r, d')" by (simp add: decode_iter_def abind_def)
    show ?thesis
      using decode_body_wf(1) [OF b w1] decode_body_wf(2) [OF b w1, of x] hl(1) hl(2) [OF _ True]
      by (auto simp: dec_le_def word_le_nat_alt simp del: split_paired_All)
  qed
  then show "d_wf d'" "r = Inr (Return (Some x)) \<Longrightarrow> d_fits d \<Longrightarrow> unat (d_floor d) < d_end d" by auto
qed

lemma poll_decode_internal_wf:
  "pb_ok P \<Longrightarrow> poll_decode_internal P d = (r, d') \<Longrightarrow> d_wf d \<Longrightarrow>
     d_wf d' \<and> (r = Inr (Some x) \<longrightarrow> d_fits d \<longrightarrow> unat (d_floor d) < d_end d)"
proof (induction P d arbitrary: r d' rule: poll_decode_internal.induct)
  case (1 P d)
  obtain q d1 where q: "decode_iter P d = (q, d1)" by fastforce
  note w = decode_iter_wf [OF "1.prems"(1) q "1.prems"(3)]
  have t: "turn_ok d q d1" by (rule decode_iter_ok [OF "1.prems"(1) q])
  show ?case
  proof (cases "q = Inr Continue")
    case True
    then have "poll_decode_internal P d1 = (r, d')"
      using "1.prems"(2) q by (subst (asm) poll_decode_internal.simps) simp
    then have i: "d_wf d' \<and> (r = Inr (Some x) \<longrightarrow> d_fits d1 \<longrightarrow> unat (d_floor d1) < d_end d1)"
      using "1.IH" "1.prems"(1) q True w(1) by auto
    have "d_fits d \<Longrightarrow> d_fits d1 \<and> d_end d1 = d_end d \<and> d_floor d \<le> d_floor d1"
      using t True by (simp add: turn_ok_def dec_le_def d_fits_def)
    with i show ?thesis by (auto simp: word_le_nat_alt)
  next
    case False
    then have "d' = d1 \<and> (case q of Inl e \<Rightarrow> r = Inl e | Inr (Return x) \<Rightarrow> r = Inr x | _ \<Rightarrow> False)"
      using "1.prems"(2) q by (subst (asm) poll_decode_internal.simps) (auto split: sum.splits flow.splits)
    then show ?thesis using w by (auto split: sum.splits flow.splits)
  qed
qed

lemma poll_decode_wf:
  assumes "\<forall>v. pb_ok (B v)" "poll_decode B d = (r, d')" "d_wf d"
  shows "d_wf d'" "r = Inr (Some x) \<Longrightarrow> d_fits d \<Longrightarrow> unat (d_floor d) < d_end d"
proof -
  have "d_wf d' \<and> (r = Inr (Some x) \<longrightarrow> d_fits d \<longrightarrow> unat (d_floor d) < d_end d)"
    using assms poll_decode_internal_wf [of "B (d_pg_version d)" d r d' x]
    by (auto simp: poll_decode_def dispatch_pgversion_def split: if_splits)
  then show "d_wf d'" "r = Inr (Some x) \<Longrightarrow> d_fits d \<Longrightarrow> unat (d_floor d) < d_end d" by auto
qed

end
