(* ===== verification/Fs.thy ===== *)
theory Fs
  imports Prelude "HOL-Library.AList"
begin

text \<open>
  The file operations the storage code uses (std and tokio file APIs) and \<open>durable_rename\<close> of
  libs/utils/src/crashsafe.rs. A directory maps names to inodes; an open file is its inode, so it
  survives a rename or an unlink. Every operation first consults a list of faults: \<open>Some k\<close> makes
  it fail, a write after \<open>k\<close> bytes, so a statement over all fault lists covers a failure, or a
  crash, at every point. For crashes, an inode remembers whether its contents are synced and the
  directory which entries were synced last.
\<close>

record inode =
  ino_data :: bytes
  ino_synced :: bool

record fs =
  fs_dir :: "(string \<times> nat) list"
  fs_dir_synced :: "(string \<times> nat) list"
  fs_inodes :: "inode list"
  fs_faults :: "nat option list"

definition next_fault :: "fs \<Rightarrow> nat option \<times> fs" where
  "next_fault fs = (case fs_faults fs of [] \<Rightarrow> (None, fs) | f # r \<Rightarrow> (f, fs\<lparr>fs_faults := r\<rparr>))"

definition io :: "(fs \<Rightarrow> 'a res \<times> fs) \<Rightarrow> (fs, 'a) act" where
  "io m fs = (case next_fault fs of
     (Some _, fs) \<Rightarrow> (Inl (Io ''input/output error''), fs) | (None, fs) \<Rightarrow> m fs)"

definition fs_open :: "string \<Rightarrow> (fs, nat) act" where
  "fs_open name = io (\<lambda>fs. case map_of (fs_dir fs) name of
     None \<Rightarrow> (Inl (Io ''NotFound''), fs) | Some i \<Rightarrow> (Inr i, fs))"

definition set_inode :: "nat \<Rightarrow> inode \<Rightarrow> fs \<Rightarrow> fs" where
  "set_inode i n fs = fs\<lparr>fs_inodes := (fs_inodes fs)[i := n]\<rparr>"

text \<open>\<open>File::create\<close>: an existing file is truncated, otherwise a new one is made.\<close>

definition fs_create :: "string \<Rightarrow> (fs, nat) act" where
  "fs_create name = io (\<lambda>fs. case map_of (fs_dir fs) name of
     Some i \<Rightarrow> (Inr i, set_inode i \<lparr>ino_data = [], ino_synced = False\<rparr> fs)
   | None \<Rightarrow> (Inr (length (fs_inodes fs)),
       fs\<lparr>fs_dir := AList.update name (length (fs_inodes fs)) (fs_dir fs),
          fs_inodes := fs_inodes fs @ [\<lparr>ino_data = [], ino_synced = False\<rparr>]\<rparr>))"

definition pad_to :: "nat \<Rightarrow> bytes \<Rightarrow> bytes" where
  "pad_to n bs = bs @ replicate (n - length bs) 0"

definition write_at :: "nat \<Rightarrow> bytes \<Rightarrow> bytes \<Rightarrow> bytes" where
  "write_at pos bs old = take pos (pad_to pos old) @ bs @ drop (pos + length bs) old"

definition inode_of :: "fs \<Rightarrow> nat \<Rightarrow> inode" where
  "inode_of fs i = (if i < length (fs_inodes fs) then fs_inodes fs ! i
     else \<lparr>ino_data = [], ino_synced = False\<rparr>)"

definition put_data :: "nat \<Rightarrow> bytes \<Rightarrow> fs \<Rightarrow> fs" where
  "put_data i bs fs = set_inode i \<lparr>ino_data = bs, ino_synced = False\<rparr> fs"

definition fs_write_all :: "nat \<Rightarrow> nat \<Rightarrow> bytes \<Rightarrow> (fs, unit) act" where
  "fs_write_all i pos bs fs = (case next_fault fs of
     (None, fs) \<Rightarrow> (Inr (), put_data i (write_at pos bs (ino_data (inode_of fs i))) fs)
   | (Some k, fs) \<Rightarrow> (Inl (Io ''write error''),
       put_data i (write_at pos (take k bs) (ino_data (inode_of fs i))) fs))"

definition fs_flush :: "nat \<Rightarrow> (fs, unit) act" where
  "fs_flush i = io (\<lambda>fs. (Inr (), fs))"

definition fs_set_len :: "nat \<Rightarrow> nat \<Rightarrow> (fs, unit) act" where
  "fs_set_len i n = io (\<lambda>fs. (Inr (), put_data i (take n (pad_to n (ino_data (inode_of fs i)))) fs))"

definition fs_sync :: "nat \<Rightarrow> (fs, unit) act" where
  "fs_sync i = io (\<lambda>fs. (Inr (), set_inode i ((inode_of fs i)\<lparr>ino_synced := True\<rparr>) fs))"

definition fs_sync_dir :: "(fs, unit) act" where
  "fs_sync_dir = io (\<lambda>fs. (Inr (), fs\<lparr>fs_dir_synced := fs_dir fs\<rparr>))"

definition fs_rename :: "string \<Rightarrow> string \<Rightarrow> (fs, unit) act" where
  "fs_rename a b = io (\<lambda>fs. case map_of (fs_dir fs) a of
     None \<Rightarrow> (Inl (Io ''NotFound''), fs)
   | Some i \<Rightarrow> (Inr (), fs\<lparr>fs_dir := AList.update b i (AList.delete a (fs_dir fs))\<rparr>))"

definition fs_remove :: "string \<Rightarrow> (fs, unit) act" where
  "fs_remove name = io (\<lambda>fs. case map_of (fs_dir fs) name of
     None \<Rightarrow> (Inl (Io ''NotFound''), fs)
   | Some _ \<Rightarrow> (Inr (), fs\<lparr>fs_dir := AList.delete name (fs_dir fs)\<rparr>))"

definition fs_read :: "nat \<Rightarrow> (fs, bytes) act" where
  "fs_read i = io (\<lambda>fs. (Inr (ino_data (inode_of fs i)), fs))"

definition fs_read_dir :: "(fs, string list) act" where
  "fs_read_dir = io (\<lambda>fs. (Inr (map fst (fs_dir fs)), fs))"

definition fs_next_entry :: "(fs, unit) act" where
  "fs_next_entry = io (\<lambda>fs. (Inr (), fs))"

definition fs_seek :: "nat \<Rightarrow> nat \<Rightarrow> (fs, nat \<times> nat) act" where
  "fs_seek i pos = io (\<lambda>fs. (Inr (i, pos), fs))"

text \<open>\<open>read\<close> of a file at a position: up to \<open>n\<close> bytes, none at the end of the file.\<close>

definition fs_read_at :: "nat \<Rightarrow> nat \<Rightarrow> nat \<Rightarrow> (fs, bytes) act" where
  "fs_read_at i pos n = io (\<lambda>fs. (Inr (take n (drop pos (ino_data (inode_of fs i)))), fs))"

text \<open>\<open>fsync_async_opt\<close> of a file by name and of the directory, and \<open>durable_rename\<close>.\<close>

definition fsync_opt :: "string \<Rightarrow> bool \<Rightarrow> (fs, unit) act" where
  "fsync_opt name do_fsync = (if do_fsync then abind (fs_open name) fs_sync else areturn ())"

definition fsync_dir_opt :: "bool \<Rightarrow> (fs, unit) act" where
  "fsync_dir_opt do_fsync = (if do_fsync then fs_sync_dir else areturn ())"

definition durable_rename :: "string \<Rightarrow> string \<Rightarrow> bool \<Rightarrow> (fs, unit) act" where
  "durable_rename old_path new_path do_fsync =
     abind (fsync_opt old_path do_fsync) (\<lambda>_.
     abind (fs_rename old_path new_path) (\<lambda>_.
     fsync_dir_opt do_fsync))"

subsection \<open>What is on disk after a crash\<close>

text \<open>A name may come back with its current or its last synced entry; an inode that was not
  synced may come back with anything.\<close>

definition crash_reads :: "fs \<Rightarrow> string \<Rightarrow> bytes \<Rightarrow> bool" where
  "crash_reads fs name bs \<longleftrightarrow>
     (\<exists>i. (map_of (fs_dir fs) name = Some i \<or> map_of (fs_dir_synced fs) name = Some i) \<and>
          (ino_synced (inode_of fs i) \<longrightarrow> bs = ino_data (inode_of fs i)))"

definition fs_ok :: "fs \<Rightarrow> bool" where
  "fs_ok fs \<longleftrightarrow> (\<forall>name i. map_of (fs_dir fs) name = Some i \<or> map_of (fs_dir_synced fs) name = Some i
     \<longrightarrow> i < length (fs_inodes fs))"

lemma next_fault_simps:
  "next_fault fs = (f, fs') \<Longrightarrow> fs_dir fs' = fs_dir fs \<and> fs_dir_synced fs' = fs_dir_synced fs \<and>
     fs_inodes fs' = fs_inodes fs"
  by (auto simp: next_fault_def split: list.splits)

lemma inode_of_set_inode:
  "i < length (fs_inodes fs) \<Longrightarrow> inode_of (set_inode i n fs) j = (if i = j then n else inode_of fs j)"
  by (auto simp: inode_of_def set_inode_def)

end
