(* ===== verification/Wire.thy ===== *)
theory Wire
  imports Prelude
begin

text \<open>
  Fixed-width reads and writes on a byte buffer and zero-terminated strings: the trait \<open>BytesF\<close>
  and \<open>get_cstr\<close>/\<open>put_cstr\<close> of safekeeper/src/safekeeper.rs and \<open>read_cstr\<close> of
  libs/pq_proto/src/lib.rs. A buffer is the list of the bytes that remain; a read returns the
  value and the rest. The unguarded reads (\<open>get_u32_le\<close> and its relatives) panic on a short
  buffer, the guarded ones of \<open>BytesF\<close> return an error. Values are converted as
  \<open>from_be_bytes\<close>/\<open>from_le_bytes\<close> do. Every reader with a writer is an instance of the locale
  \<open>codec\<close>.
\<close>

subsection \<open>Unguarded reads and writes\<close>

definition get_be :: "nat \<Rightarrow> bytes \<Rightarrow> ('a::len word \<times> bytes) res" where
  "get_be n bs = (if length bs < n then Inl (Panic ''advance out of bounds'')
     else Inr (of_nat (be_nat (take n bs)), drop n bs))"

definition get_le :: "nat \<Rightarrow> bytes \<Rightarrow> ('a::len word \<times> bytes) res" where
  "get_le n bs = (if length bs < n then Inl (Panic ''advance out of bounds'')
     else Inr (of_nat (le_nat (take n bs)), drop n bs))"

definition put_u8 :: "u8 \<Rightarrow> bytes" where "put_u8 x = [x]"
definition put_u16 :: "u16 \<Rightarrow> bytes" where "put_u16 x = be_bytes 2 (unat x)"
definition put_u32 :: "u32 \<Rightarrow> bytes" where "put_u32 x = be_bytes 4 (unat x)"
definition put_u64 :: "u64 \<Rightarrow> bytes" where "put_u64 x = be_bytes 8 (unat x)"
definition put_u32_le :: "u32 \<Rightarrow> bytes" where "put_u32_le x = le_bytes 4 (unat x)"
definition put_u64_le :: "u64 \<Rightarrow> bytes" where "put_u64_le x = le_bytes 8 (unat x)"

definition get_u8 :: "bytes \<Rightarrow> (u8 \<times> bytes) res" where "get_u8 = get_be 1"
definition get_u32 :: "bytes \<Rightarrow> (u32 \<times> bytes) res" where "get_u32 = get_be 4"
definition get_u64 :: "bytes \<Rightarrow> (u64 \<times> bytes) res" where "get_u64 = get_be 8"
definition get_u32_le :: "bytes \<Rightarrow> (u32 \<times> bytes) res" where "get_u32_le = get_le 4"
definition get_u64_le :: "bytes \<Rightarrow> (u64 \<times> bytes) res" where "get_u64_le = get_le 8"

subsection \<open>BytesF: guarded big-endian reads\<close>

definition get_u8_f :: "bytes \<Rightarrow> (u8 \<times> bytes) res" where
  "get_u8_f bs = (if bs = [] then Inl (Bail ''no bytes left, expected 1'') else get_u8 bs)"

definition get_u16_f :: "bytes \<Rightarrow> (u16 \<times> bytes) res" where
  "get_u16_f bs = (if length bs < 2 then Inl (Bail ''no bytes left, expected 2'') else get_be 2 bs)"

definition get_u32_f :: "bytes \<Rightarrow> (u32 \<times> bytes) res" where
  "get_u32_f bs = (if length bs < 4 then Inl (Bail ''bytes left, expected 4'') else get_u32 bs)"

definition get_u64_f :: "bytes \<Rightarrow> (u64 \<times> bytes) res" where
  "get_u64_f bs = (if length bs < 8 then Inl (Bail ''bytes left, expected 8'') else get_u64 bs)"

text \<open>\<open>with_context\<close>: the outer message replaces the one of an error return; a panic passes.\<close>

definition ctx :: "string \<Rightarrow> 'a res \<Rightarrow> 'a res" where
  "ctx msg m = (case m of Inl (Panic p) \<Rightarrow> Inl (Panic p) | Inl _ \<Rightarrow> Inl (Bail msg) | Inr x \<Rightarrow> Inr x)"

subsection \<open>Strings\<close>

text \<open>Well-formed UTF-8, the test of \<open>std::str::from_utf8\<close>: the byte ranges of the standard's
  table, overlong forms and surrogates excluded.\<close>

definition cont :: "u8 \<Rightarrow> bool" where
  "cont b \<longleftrightarrow> 0x80 \<le> b \<and> b \<le> 0xBF"

fun utf8 :: "bytes \<Rightarrow> bool" where
  "utf8 [] = True"
| "utf8 (a # bs) =
     (if a < 0x80 then utf8 bs
      else if 0xC2 \<le> a \<and> a \<le> 0xDF then (case bs of b # r \<Rightarrow> cont b \<and> utf8 r | _ \<Rightarrow> False)
      else if 0xE0 \<le> a \<and> a \<le> 0xEF then
        (case bs of b # c # r \<Rightarrow>
           cont b \<and> cont c \<and> (a = 0xE0 \<longrightarrow> 0xA0 \<le> b) \<and> (a = 0xED \<longrightarrow> b \<le> 0x9F) \<and> utf8 r
         | _ \<Rightarrow> False)
      else if 0xF0 \<le> a \<and> a \<le> 0xF4 then
        (case bs of b # c # d # r \<Rightarrow>
           cont b \<and> cont c \<and> cont d \<and> (a = 0xF0 \<longrightarrow> 0x90 \<le> b) \<and> (a = 0xF4 \<longrightarrow> b \<le> 0x8F) \<and> utf8 r
         | _ \<Rightarrow> False)
      else False)"

definition as_bytes :: "string \<Rightarrow> bytes" where
  "as_bytes s = map (\<lambda>c. of_nat (of_char c)) s"

definition of_bytes :: "bytes \<Rightarrow> string" where
  "of_bytes bs = map (\<lambda>b. char_of (unat b)) bs"

fun split_nul :: "bytes \<Rightarrow> (bytes \<times> bytes) option" where
  "split_nul [] = None"
| "split_nul (b # bs) = (if b = 0 then Some ([], bs)
     else map_option (\<lambda>(p, r). (b # p, r)) (split_nul bs))"

definition read_cstr :: "bytes \<Rightarrow> (bytes \<times> bytes) res" where
  "read_cstr buf = (case split_nul buf of
     None \<Rightarrow> Inl (Bail ''missing cstring terminator'') | Some (p, r) \<Rightarrow> Inr (p, r))"

definition get_cstr :: "bytes \<Rightarrow> (string \<times> bytes) res" where
  "get_cstr buf = (case split_nul buf of
     None \<Rightarrow> Inl (Bail ''missing cstring terminator'')
   | Some (p, r) \<Rightarrow>
       if utf8 p then Inr (of_bytes p, r) else Inl (Bail ''invalid utf8 in cstring''))"

definition put_cstr :: "string \<Rightarrow> bytes" where
  "put_cstr s = as_bytes s @ put_u8 0"

text \<open>A Rust string without an inner zero byte.\<close>

definition cstr_ok :: "string \<Rightarrow> bool" where
  "cstr_ok s \<longleftrightarrow> utf8 (as_bytes s) \<and> CHR 0x00 \<notin> set s"

subsection \<open>Reading back what was written\<close>

lemma get_be_append:
  "length p = n \<Longrightarrow> get_be n (p @ r) = Inr (of_nat (be_nat p), r)"
  by (simp add: get_be_def)

lemma get_le_append:
  "length p = n \<Longrightarrow> get_le n (p @ r) = Inr (of_nat (le_nat p), r)"
  by (simp add: get_le_def)

lemma of_nat_be_nat [simp]:
  "LENGTH('a) = 8 * n \<Longrightarrow> (of_nat (be_nat (be_bytes n (unat x))) :: 'a::len word) = x"
proof -
  assume "LENGTH('a) = 8 * n"
  then have "unat x < 256 ^ n"
    using unsigned_less [of x] by (simp add: power_mult)
  then show ?thesis by (simp add: be_nat_be_bytes)
qed

lemma of_nat_le_nat [simp]:
  "LENGTH('a) = 8 * n \<Longrightarrow> (of_nat (le_nat (le_bytes n (unat x))) :: 'a::len word) = x"
proof -
  assume "LENGTH('a) = 8 * n"
  then have "unat x < 256 ^ n"
    using unsigned_less [of x] by (simp add: power_mult)
  then show ?thesis by (simp add: le_nat_le_bytes)
qed

lemma of_char_byte [simp]: "unat (of_nat (of_char c) :: u8) = of_char c"
proof -
  have "(of_char c :: nat) < 256" by simp
  then show ?thesis by (simp add: unat_of_nat take_bit_eq_mod)
qed

lemma of_bytes_as_bytes [simp]: "of_bytes (as_bytes s) = s"
  by (simp add: of_bytes_def as_bytes_def comp_def)

lemma split_nul_append: "0 \<notin> set p \<Longrightarrow> split_nul (p @ 0 # r) = Some (p, r)"
  by (induction p) auto

lemma split_nul_SomeD: "split_nul bs = Some (p, r) \<Longrightarrow> bs = p @ 0 # r \<and> 0 \<notin> set p"
  by (induction bs arbitrary: p r) (fastforce split: if_splits)+

lemma zero_not_in_as_bytes: "CHR 0x00 \<notin> set s \<Longrightarrow> 0 \<notin> set (as_bytes s)"
proof
  assume "CHR 0x00 \<notin> set s" "0 \<in> set (as_bytes s)"
  then obtain c where c: "c \<in> set s" "(of_nat (of_char c) :: u8) = 0" by (auto simp: as_bytes_def)
  then have "(of_char c :: nat) = 0" using of_char_byte [of c] by simp
  then have "c = char_of (0 :: nat)" by (metis char_of_char)
  with c \<open>CHR 0x00 \<notin> set s\<close> show False by (simp add: char_of_def)
qed

lemma get_u8_f_put [codec_simps]: "get_u8_f (put_u8 x @ r) = Inr (x, r)"
  by (simp add: get_u8_f_def put_u8_def get_u8_def get_be_def be_nat_def)

interpretation u16: codec put_u16 get_u16_f "\<lambda>_. True"
  by unfold_locales (simp add: get_u16_f_def put_u16_def get_be_append)

interpretation u32: codec put_u32 get_u32_f "\<lambda>_. True"
  by unfold_locales (simp add: get_u32_f_def put_u32_def get_u32_def get_be_append)

interpretation u64: codec put_u64 get_u64_f "\<lambda>_. True"
  by unfold_locales (simp add: get_u64_f_def put_u64_def get_u64_def get_be_append)

interpretation u32_le: codec put_u32_le get_u32_le "\<lambda>_. True"
  by unfold_locales (simp add: put_u32_le_def get_u32_le_def get_le_append)

interpretation u64_le: codec put_u64_le get_u64_le "\<lambda>_. True"
  by unfold_locales (simp add: put_u64_le_def get_u64_le_def get_le_append)

interpretation raw_u32: codec put_u32 get_u32 "\<lambda>_. True"
  by unfold_locales (simp add: put_u32_def get_u32_def get_be_append)

interpretation raw_u64: codec put_u64 get_u64 "\<lambda>_. True"
  by unfold_locales (simp add: put_u64_def get_u64_def get_be_append)

interpretation cstr: codec put_cstr get_cstr cstr_ok
  by unfold_locales
    (simp add: get_cstr_def put_cstr_def put_u8_def cstr_ok_def split_nul_append zero_not_in_as_bytes)

lemmas wire_dec [codec_simps] =
  u16.dec_enc [OF TrueI] u32.dec_enc [OF TrueI] u64.dec_enc [OF TrueI]
  u32_le.dec_enc [OF TrueI] u64_le.dec_enc [OF TrueI]
  raw_u32.dec_enc [OF TrueI] raw_u64.dec_enc [OF TrueI] cstr.dec_enc

lemma put_lengths [simp]:
  "length (put_u8 a) = 1" "length (put_u16 b) = 2" "length (put_u32 c) = 4" "length (put_u64 d) = 8"
  "length (put_u32_le c) = 4" "length (put_u64_le d) = 8"
  by (simp_all add: put_u8_def put_u16_def put_u32_def put_u64_def put_u32_le_def put_u64_le_def)

lemma ctx_Inr [simp]: "ctx m (Inr x) = Inr x"
  by (simp add: ctx_def)

lemma ctx_eq_Inr [monad_simps]: "ctx m r = Inr x \<longleftrightarrow> r = Inr x"
  by (auto simp: ctx_def split: sum.splits failure.splits)

text \<open>No guarded read panics: on a short buffer it returns an error. The unguarded ones do not
  panic on a buffer that is long enough.\<close>

lemma get_f_no_panic [no_panic_intros]:
  "no_panic (get_u8_f bs)" "no_panic (get_u16_f bs)" "no_panic (get_u32_f bs)" "no_panic (get_u64_f bs)"
  by (auto simp: no_panic_def get_u8_f_def get_u8_def get_u16_f_def get_u32_f_def get_u32_def
      get_u64_f_def get_u64_def get_be_def Suc_le_eq)

lemma get_cstr_no_panic [no_panic_intros]: "no_panic (get_cstr bs)"
  by (auto simp: no_panic_def get_cstr_def split: option.splits)

lemma ctx_no_panic [no_panic_intros]: "no_panic m \<Longrightarrow> no_panic (ctx msg m)"
  by (auto simp: no_panic_def ctx_def split: sum.splits failure.splits)

lemma get_le_no_panic:
  "4 \<le> length bs \<Longrightarrow> no_panic (get_u32_le bs)" "8 \<le> length bs \<Longrightarrow> no_panic (get_u64_le bs)"
  by (auto simp: no_panic_def get_u32_le_def get_u64_le_def get_le_def)

lemma get_u64_le_Inr: "get_u64_le bs = Inr (x, r) \<Longrightarrow> length bs = 8 + length r"
  by (auto simp: get_u64_le_def get_le_def split: if_splits)

end
