(* ===== verification/XlogFile.thy ===== *)
theory XlogFile
  imports WalDecoder Fs Wire
begin

text \<open>
  WAL segment files, from libs/postgres_ffi/src/xlog_utils.rs: the names of segments, the search
  for the end of the WAL on disk at start-up, and \<open>wal_file_paths\<close> of
  safekeeper/src/wal_storage.rs. A division by a zero segment size panics, as in the source.
  File names are their bytes; \<open>to_str\<close> is the check that these are UTF-8, and a slice of a string
  panics when it is out of range or does not fall on character boundaries.
\<close>

type_synonym seg_no = u64

definition PG_TLI :: u32 where "PG_TLI = 1"
definition XLOG_FNAME_LEN :: nat where "XLOG_FNAME_LEN = 24"

definition char_boundary :: "string \<Rightarrow> nat \<Rightarrow> bool" where
  "char_boundary s i \<longleftrightarrow> i = length s \<or> i < length s \<and> \<not> cont (as_bytes s ! i)"

definition str_slice :: "string \<Rightarrow> nat \<Rightarrow> nat \<Rightarrow> string res" where
  "str_slice s a b =
     (if a \<le> b \<and> b \<le> length s \<and> char_boundary s a \<and> char_boundary s b
      then Inr (take (b - a) (drop a s)) else Inl (Panic ''byte index out of range''))"

definition u32_from_radix16 :: "string \<Rightarrow> u32 res" where
  "u32_from_radix16 s = (case from_str_radix16 (2 ^ 32) s of
     None \<Rightarrow> Inl (Bail ''ParseIntError'') | Some n \<Rightarrow> Inr (of_nat n))"

definition XLogSegmentsPerXLogId :: "u64 \<Rightarrow> u64 res" where
  "XLogSegmentsPerXLogId wal_segsz_bytes =
     rbind (rassert (wal_segsz_bytes \<noteq> 0) ''attempt to divide by zero'') (\<lambda>_.
     Inr (0x100000000 div wal_segsz_bytes))"

definition XLogSegNoOffsetToRecPtr :: "seg_no \<Rightarrow> u32 \<Rightarrow> u64 \<Rightarrow> u64" where
  "XLogSegNoOffsetToRecPtr segno offset wal_segsz_bytes = segno * wal_segsz_bytes + ucast offset"

definition XLogFileName :: "u32 \<Rightarrow> seg_no \<Rightarrow> u64 \<Rightarrow> string res" where
  "XLogFileName tli logSegNo wal_segsz_bytes =
     rbind (XLogSegmentsPerXLogId wal_segsz_bytes) (\<lambda>per.
     rbind (rassert (per \<noteq> 0) ''attempt to divide by zero'') (\<lambda>_.
     Inr (fmt_0X 8 (unat tli) @ fmt_0X 8 (unat (logSegNo div per)) @ fmt_0X 8 (unat (logSegNo mod per)))))"

definition XLogFromFileName :: "string \<Rightarrow> u64 \<Rightarrow> (seg_no \<times> u32) res" where
  "XLogFromFileName fname wal_seg_size =
     (if utf8 (as_bytes fname) then
        rbind (rbind (str_slice fname 0 8) u32_from_radix16) (\<lambda>tli.
        rbind (rbind (str_slice fname 8 16) u32_from_radix16) (\<lambda>log.
        rbind (rbind (str_slice fname 16 24) u32_from_radix16) (\<lambda>seg.
        rbind (XLogSegmentsPerXLogId wal_seg_size) (\<lambda>per.
        Inr (ucast log * per + ucast seg, tli)))))
      else Inl (Bail ''non-ut8 filename''))"

definition IsXLogFileName :: "string \<Rightarrow> bool" where
  "IsXLogFileName fname \<longleftrightarrow> utf8 (as_bytes fname) \<and> length fname = XLOG_FNAME_LEN \<and>
     list_all (\<lambda>c. hex_val c \<noteq> None) fname"

definition IsPartialXLogFileName :: "string \<Rightarrow> bool" where
  "IsPartialXLogFileName fname \<longleftrightarrow> utf8 (as_bytes fname) \<and>
     8 \<le> length fname \<and> drop (length fname - 8) fname = ''.partial'' \<and>
     IsXLogFileName (take (length fname - 8) fname)"

definition normalize_lsn :: "pg_bindings \<Rightarrow> lsn \<Rightarrow> u64 \<Rightarrow> lsn res" where
  "normalize_lsn P l seg_sz =
     (if l mod XLOG_BLCKSZ = 0 then
        rbind (rassert (seg_sz \<noteq> 0) ''attempt to calculate the remainder with a divisor of zero'') (\<lambda>_.
        lsn_add l (of_nat (if l mod seg_sz = 0 then pb_SIZE_LONG_PHD P else pb_SIZE_SHORT_PHD P)))
      else Inr (lsn_align l))"

text \<open>\<open>wal_file_paths\<close>: the name of a segment and of its \<open>.partial\<close> brother.\<close>

definition wal_file_paths :: "seg_no \<Rightarrow> u64 \<Rightarrow> (string \<times> string) res" where
  "wal_file_paths segno wal_seg_size =
     rbind (XLogFileName PG_TLI segno wal_seg_size) (\<lambda>name. Inr (name, name @ ''.partial''))"

subsection \<open>An empty segment\<close>

text \<open>The generated structures are encoded by bincode: the encoders are parameters, of the page
  header (with the timeline) and of the long page header (with the system identifier, the segment
  size and the block size).\<close>

record phd_encoders =
  enc_short_header :: "u32 \<Rightarrow> page_header \<Rightarrow> bytes res"
  enc_long_header :: "u32 \<Rightarrow> page_header \<Rightarrow> u64 \<Rightarrow> u32 \<Rightarrow> u32 \<Rightarrow> bytes res"

definition XLP_LONG_HEADER :: u16 where "XLP_LONG_HEADER = 2"

definition first_page_rem :: "nat \<Rightarrow> nat \<Rightarrow> (u32 \<times> u16) res" where
  "first_page_rem off hdr_size =
     (if off > 0 then
        rbind (rassert (off \<ge> hdr_size) ''assertion failed'') (\<lambda>_.
        Inr (of_nat (off - hdr_size), XLP_FIRST_IS_CONTRECORD))
      else Inr (0, 0))"

definition generate_segment_v ::
  "pg_bindings \<Rightarrow> phd_encoders \<Rightarrow> seg_no \<Rightarrow> u64 \<Rightarrow> lsn \<Rightarrow> bytes res" where
  "generate_segment_v P E segno system_id l =
     (let pageaddr = XLogSegNoOffsetToRecPtr segno 0 WAL_SEGMENT_SIZE;
          page_off = unat (block_offset l);
          seg_off = unat (segment_offset l WAL_SEGMENT_SIZE);
          first_page_only = (seg_off < unat XLOG_BLCKSZ);
          size = unat WAL_SEGMENT_SIZE
      in rbind (if first_page_only then first_page_rem seg_off (pb_SIZE_LONG_PHD P) else Inr (0, 0))
           (\<lambda>(rem_len, infoflags).
         rbind (enc_long_header E PG_TLI
             \<lparr>xlp_magic = pb_XLOG_PAGE_MAGIC P, xlp_info = XLP_LONG_HEADER OR infoflags,
              xlp_pageaddr = pageaddr, xlp_rem_len = rem_len\<rparr>
             system_id (ucast WAL_SEGMENT_SIZE) (ucast XLOG_BLCKSZ)) (\<lambda>hdr_bytes.
         let seg_buf = take size (pad_to size hdr_bytes)
         in if first_page_only then Inr seg_buf else
         rbind (first_page_rem page_off (pb_SIZE_SHORT_PHD P)) (\<lambda>(rem_len, info).
         rbind (enc_short_header E PG_TLI
             \<lparr>xlp_magic = pb_XLOG_PAGE_MAGIC P, xlp_info = info,
              xlp_pageaddr = page_lsn l, xlp_rem_len = rem_len\<rparr>) (\<lambda>hdr_bytes.
         let block_offset = unat (page_offset_in_segment l WAL_SEGMENT_SIZE)
         in if block_offset + length hdr_bytes \<le> length seg_buf
            then Inr (write_at block_offset hdr_bytes seg_buf)
            else Inl (Panic ''range end index out of range''))))))"

definition generate_wal_segment ::
  "(u32 \<Rightarrow> pg_bindings) \<Rightarrow> (u32 \<Rightarrow> phd_encoders) \<Rightarrow> seg_no \<Rightarrow> u64 \<Rightarrow> u32 \<Rightarrow> lsn \<Rightarrow> bytes res" where
  "generate_wal_segment B E segno system_id pg_version l =
     rbind (rassert (segno = segment_number l WAL_SEGMENT_SIZE) ''assertion failed'') (\<lambda>_.
     case dispatch_pgversion B pg_version of
       None \<Rightarrow> Inl (Bail ''BadInput'')
     | Some P \<Rightarrow> generate_segment_v P (E pg_version) segno system_id l)"

subsection \<open>The end of the WAL on disk\<close>

definition open_wal_segment :: "string \<Rightarrow> (fs, nat option) act" where
  "open_wal_segment seg_file_path fs =
     (case fs_open (seg_file_path @ ''.partial'') fs of
        (Inr file, fs) \<Rightarrow> (Inr (Some file), fs)
      | (Inl e, fs) \<Rightarrow>
          if e = Io ''NotFound'' then
            (case fs_open seg_file_path fs of
               (Inr file, fs) \<Rightarrow> (Inr (Some file), fs)
             | (Inl e, fs) \<Rightarrow> if e = Io ''NotFound'' then (Inr None, fs) else (Inl e, fs))
          else (Inl e, fs))"

text \<open>The loop that takes all complete records out of the decoder. It stops the search on a decode
  error (the \<open>Inl\<close> result); a panic of the decoder is not caught.\<close>

function drain_records :: "(u32 \<Rightarrow> pg_bindings) \<Rightarrow> lsn \<Rightarrow> decoder \<Rightarrow> (failure option \<times> lsn) \<times> decoder" where
  "drain_records B result decoder =
     (case poll_decode B decoder of
        (Inl e, decoder) \<Rightarrow> ((Some e, result), decoder)
      | (Inr None, decoder) \<Rightarrow> ((None, result), decoder)
      | (Inr (Some (l, _)), decoder) \<Rightarrow> drain_records B l decoder)"
  by auto
termination
  by (relation "measure (\<lambda>(B, r, d). dec_measure d)") (auto intro: poll_decode_measure [OF sym])

declare drain_records.simps [simp del]

fun is_panic :: "failure \<Rightarrow> bool" where
  "is_panic (Panic m) = True"
| "is_panic _ = False"

text \<open>Where the scan of a segment ends: with the final answer, or at the next segment.\<close>

datatype scan = Scan_done lsn | Scan_next lsn lsn decoder

function scan_segment ::
  "(u32 \<Rightarrow> pg_bindings) \<Rightarrow> u64 \<Rightarrow> seg_no \<Rightarrow> nat \<Rightarrow> nat \<Rightarrow> lsn \<Rightarrow> lsn \<Rightarrow> decoder \<Rightarrow> (fs, scan) act" where
  "scan_segment B sz segno file pos curr_lsn result decoder fs =
     (if segment_number curr_lsn sz \<noteq> segno then (Inr (Scan_next curr_lsn result decoder), fs) else
      (case fs_read_at file pos (unat XLOG_BLCKSZ) fs of
         (Inl e, fs) \<Rightarrow> (Inl e, fs)
       | (Inr buf, fs) \<Rightarrow>
           if buf = [] then (Inr (Scan_done result), fs) else
           (case lsn_add curr_lsn (of_nat (length buf)) of
              Inl e \<Rightarrow> (Inl e, fs)
            | Inr curr_lsn \<Rightarrow>
                (case drain_records B result (feed_bytes buf decoder) of
                   ((Some e, result), decoder) \<Rightarrow>
                     if is_panic e then (Inl e, fs) else (Inr (Scan_done result), fs)
                 | ((None, result), decoder) \<Rightarrow>
                     scan_segment B sz segno file (pos + length buf) curr_lsn result decoder fs))))"
  by pat_completeness auto

lemma fs_read_at_length: "fs_read_at i p n fs = (Inr buf, fs') \<Longrightarrow> length buf \<le> n"
  by (auto simp: fs_read_at_def io_def split: prod.splits option.splits)

lemma unat_read_length:
  assumes "fs_read_at i p (unat XLOG_BLCKSZ) fs = (Inr buf, fs')"
  shows "unat (of_nat (length buf) :: u64) = length buf"
  using fs_read_at_length [OF assms] by (simp add: XLOG_BLCKSZ_def unat_of_nat take_bit_eq_mod)

lemma read_advances:
  assumes "fs_read_at i p (unat XLOG_BLCKSZ) fs = (Inr buf, fs')" "buf \<noteq> []"
    and "lsn_add l (of_nat (length buf)) = Inr l'"
  shows "l < l'"
  using lsn_add_unat [OF assms(3)] unat_read_length [OF assms(1)] assms(2)
  by (cases buf) (auto simp: word_less_nat_alt)

lemma read_measure:
  assumes "(Inr buf, fs') = fs_read_at i p (unat XLOG_BLCKSZ) fs" "buf \<noteq> []"
    and "lsn_add l (of_nat (length buf)) = Inr l'"
  shows "2 ^ 64 - unat l' < 2 ^ 64 - unat l"
  using read_advances [OF assms(1) [symmetric] assms(2,3)] unat_lt_2p [of l']
  by (simp add: word_less_nat_alt)

termination scan_segment
  by (relation "measure (\<lambda>(B, sz, segno, file, pos, cur, result, d, fs). 2 ^ 64 - unat cur)")
    (simp_all del: power_numeral add: read_measure)

declare scan_segment.simps [simp del]

lemma scan_segment_next:
  "scan_segment B sz segno i pos cur result d fs = (Inr (Scan_next c r d'), fs') \<Longrightarrow>
     cur \<le> c \<and> segment_number c sz \<noteq> segno"
proof (induction B sz segno i pos cur result d fs rule: scan_segment.induct)
  case (1 B sz segno i pos cur result d fs)
  show ?case
  proof (cases "segment_number cur sz = segno")
    case False
    with "1.prems" show ?thesis by (subst (asm) scan_segment.simps) auto
  next
    case True
    with "1.prems" obtain buf fs1 l r1 d1 where
      rd: "fs_read_at i pos (unat XLOG_BLCKSZ) fs = (Inr buf, fs1)" "buf \<noteq> []"
        "lsn_add cur (of_nat (length buf)) = Inr l"
      and dr: "drain_records B result (feed_bytes buf d) = ((None, r1), d1)"
      and sc: "scan_segment B sz segno i (pos + length buf) l r1 d1 fs1 = (Inr (Scan_next c r d'), fs')"
      by (subst (asm) scan_segment.simps)
        (auto split: prod.splits sum.splits if_splits option.splits)
    have "l \<le> c \<and> segment_number c sz \<noteq> segno" 
      by (rule "1.IH" [OF _ rd(1) [symmetric] refl rd(2,3) dr [symmetric] refl refl sc]) (simp add: True)
    then show ?thesis using read_advances [OF rd] by auto
  qed
qed

function find_end_loop :: "(u32 \<Rightarrow> pg_bindings) \<Rightarrow> u64 \<Rightarrow> lsn \<Rightarrow> lsn \<Rightarrow> decoder \<Rightarrow> (fs, lsn) act" where
  "find_end_loop B sz curr_lsn result decoder fs =
     (let segno = segment_number curr_lsn sz in
      case XLogFileName PG_TLI segno sz of
        Inl e \<Rightarrow> (Inl e, fs)
      | Inr seg_file_name \<Rightarrow>
     (case open_wal_segment seg_file_name fs of
        (Inl e, fs) \<Rightarrow> (Inl e, fs)
      | (Inr None, fs) \<Rightarrow> (Inr result, fs)
      | (Inr (Some segment), fs) \<Rightarrow>
     (case fs_seek segment (unat (segment_offset curr_lsn sz)) fs of
        (Inl e, fs) \<Rightarrow> (Inl e, fs)
      | (Inr (file, pos), fs) \<Rightarrow>
     (case scan_segment B sz segno file pos curr_lsn result decoder fs of
        (Inl e, fs) \<Rightarrow> (Inl e, fs)
      | (Inr (Scan_done result), fs) \<Rightarrow> (Inr result, fs)
      | (Inr (Scan_next curr_lsn result decoder), fs) \<Rightarrow> find_end_loop B sz curr_lsn result decoder fs))))"
  by pat_completeness auto

lemma scan_measure:
  assumes "(Inr (Scan_next c r d'), fs') = scan_segment B sz (segment_number cur sz) file pos cur result d fs"
  shows "2 ^ 64 - unat c < 2 ^ 64 - unat cur"
proof -
  have "cur < c" using scan_segment_next [OF assms [symmetric]] by (auto simp: order_less_le)
  then show ?thesis using unat_lt_2p [of c] by (simp add: word_less_nat_alt)
qed

termination find_end_loop
  by (relation "measure (\<lambda>(B, sz, cur, result, d, fs). 2 ^ 64 - unat cur)")
    (simp_all del: power_numeral add: scan_measure)

declare find_end_loop.simps [simp del]

definition find_end_of_wal :: "(u32 \<Rightarrow> pg_bindings) \<Rightarrow> u32 \<Rightarrow> u64 \<Rightarrow> lsn \<Rightarrow> (fs, lsn) act" where
  "find_end_of_wal B pg_version wal_seg_size start_lsn =
     (\<lambda>fs. case rassert (wal_seg_size \<noteq> 0) ''attempt to divide by zero'' of
        Inl e \<Rightarrow> (Inl e, fs)
      | Inr _ \<Rightarrow> find_end_loop B wal_seg_size start_lsn start_lsn (decoder_new start_lsn pg_version) fs)"

subsection \<open>Segment names read back\<close>

lemma length_hex_of: "n < 16 ^ k \<Longrightarrow> 0 < k \<Longrightarrow> length (hex_of a n) \<le> k"
proof (induction k arbitrary: n)
  case (Suc k)
  show ?case
  proof (cases "n < 16")
    case True
    then show ?thesis by (subst hex_of.simps) simp
  next
    case False
    then have "n div 16 < 16 ^ k" "0 < k" using Suc.prems by (auto simp: less_mult_imp_div_less mult.commute intro: gr0I)
    with Suc.IH False show ?thesis by (subst hex_of.simps) simp
  qed
qed simp

lemma fmt_0X_len: "n < 2 ^ 32 \<Longrightarrow> length (fmt_0X 8 n) = 8"
  using length_hex_of [of n 8 65] by (simp add: fmt_0X_def pad0_def)

lemma fmt_0X_hex: "c \<in> set (fmt_0X w n) \<Longrightarrow> hex_val c \<noteq> None"
proof -
  assume "c \<in> set (fmt_0X w n)"
  then have "c = CHR ''0'' \<or> c \<in> set (hex_of 65 n)" unfolding fmt_0X_def by (rule pad0_chars)
  then show ?thesis using hex_of_digits [of 65 c n] hex_val_hexdig [of _ 65] by (auto simp: hex_val_def)
qed

lemma hex_val_byte: "hex_val c \<noteq> None \<Longrightarrow> (of_nat (of_char c) :: u8) < 128"
  by (auto simp: hex_val_def Let_def word_less_nat_alt split: if_splits)

lemma utf8_ascii: "(\<And>b. b \<in> set bs \<Longrightarrow> b < 0x80) \<Longrightarrow> utf8 bs"
  by (induction bs) auto

text \<open>Strings of hexadecimal digits are ASCII: valid UTF-8, with a boundary at every position.\<close>

definition hex_str :: "string \<Rightarrow> bool" where
  "hex_str s \<longleftrightarrow> list_all (\<lambda>c. hex_val c \<noteq> None) s"

lemma hex_str_append [simp]: "hex_str (s @ t) \<longleftrightarrow> hex_str s \<and> hex_str t"
  by (simp add: hex_str_def)

lemma hex_str_fmt [simp]: "hex_str (fmt_0X w n)"
  using fmt_0X_hex by (auto simp: hex_str_def list_all_iff)

lemma hex_str_byte: "hex_str s \<Longrightarrow> b \<in> set (as_bytes s) \<Longrightarrow> b < 0x80"
  using hex_val_byte by (auto simp: hex_str_def list_all_iff as_bytes_def)

lemma hex_str_utf8: "hex_str s \<Longrightarrow> utf8 (as_bytes s)"
  using hex_str_byte utf8_ascii by blast

lemma hex_str_boundary:
  assumes "hex_str s" "i \<le> length s"
  shows "char_boundary (s @ t) i \<longleftrightarrow> i < length s \<or> char_boundary t 0"
proof (cases "i < length s")
  case True
  then have "as_bytes (s @ t) ! i \<in> set (as_bytes s)" by (simp add: as_bytes_def nth_append)
  then have "as_bytes (s @ t) ! i < 0x80" by (rule hex_str_byte [OF assms(1)])
  with True show ?thesis by (auto simp: char_boundary_def cont_def)
next
  case False
  with assms(2) show ?thesis by (auto simp: char_boundary_def as_bytes_def nth_append)
qed

lemma u32_from_fmt:
  assumes "unat (x :: u64) < 2 ^ 32"
  shows "\<exists>y. u32_from_radix16 (fmt_0X w (unat x)) = Inr y \<and> (ucast y :: u64) = x"
proof -
  have "unat (of_nat (unat x) :: u32) = unat x" 
    using assms by (simp add: unsigned_ucast_eq unsigned_take_bit_eq take_bit_eq_mod)
  then have "(ucast (of_nat (unat x) :: u32) :: u64) = x"
    by (simp only: word_unat_eq_iff unat_ucast_u32_u64)
  moreover have "u32_from_radix16 (fmt_0X w (unat x)) = Inr (of_nat (unat x))"
    using from_str_radix16_padded [of "unat x" "2 ^ 32" 65 w] assms by (simp add: u32_from_radix16_def fmt_0X_def)
  ultimately show ?thesis by blast
qed

lemma u32_from_fmt_u32: "u32_from_radix16 (fmt_0X w (unat x)) = Inr x"
  using from_str_radix16_padded [of "unat x" "2 ^ 32" 65 w] unat_lt_2p [of x]
  by (simp add: u32_from_radix16_def fmt_0X_def)

lemma str_slice_mid:
  assumes "hex_str (a @ b @ c)" "length a = n" "length b = m" "char_boundary t 0"
  shows "str_slice (a @ b @ c @ t) n (n + m) = Inr b"
proof -
  have "char_boundary ((a @ b @ c) @ t) n" "char_boundary ((a @ b @ c) @ t) (n + m)"
    using hex_str_boundary [OF assms(1), of n t] hex_str_boundary [OF assms(1), of "n + m" t] assms(2-4) by auto
  then show ?thesis using assms(2,3) by (simp add: str_slice_def)
qed

lemma from_file_name_parts:
  assumes "length a = 8" "length b = 8" "length c = 8" "hex_str (a @ b @ c)"
    and "utf8 (as_bytes (a @ b @ c @ t))" "char_boundary t 0" "sz \<noteq> 0"
  shows "XLogFromFileName (a @ b @ c @ t) sz =
     rbind (u32_from_radix16 a) (\<lambda>tli. rbind (u32_from_radix16 b) (\<lambda>log.
       rbind (u32_from_radix16 c) (\<lambda>seg. Inr (ucast log * (0x100000000 div sz) + ucast seg, tli))))"
proof -
  have "str_slice (a @ b @ c @ t) 0 8 = Inr a" "str_slice (a @ b @ c @ t) 8 16 = Inr b"
    "str_slice (a @ b @ c @ t) 16 24 = Inr c"
    using str_slice_mid [of "[]" a "b @ c" 0 8 t] str_slice_mid [of a b c 8 8 t]
      str_slice_mid [of "a @ b" c "[]" 16 8 t] assms by simp_all
  with assms(5,7) show ?thesis by (simp add: XLogFromFileName_def XLogSegmentsPerXLogId_def)
qed

lemma partial_ascii: "utf8 (as_bytes (s @ ''.partial''))" if "hex_str s" for s
  by (rule utf8_ascii) (use hex_str_byte [OF that] in \<open>auto simp: as_bytes_def\<close>)

lemma partial_boundary: "char_boundary ''.partial'' 0" "char_boundary [] 0"
  by (simp_all add: char_boundary_def as_bytes_def cont_def)

lemma seg_parts_bound:
  assumes "unat sz dvd 2 ^ 32" "sz \<noteq> 0"
  shows "unat (segment_number l sz div (0x100000000 div sz)) < 2 ^ 32"
    "unat (segment_number l sz mod (0x100000000 div sz)) < 2 ^ 32" "(0x100000000 div sz :: u64) \<noteq> 0"
proof -
  let ?s = "unat sz"
  obtain p where p: "2 ^ 32 = ?s * p" using assms(1) by (auto simp: dvd_def)
  have s: "0 < ?s" using assms(2) by (simp add: unat_gt_0)
  have "unat (0x100000000 div sz) = 2 ^ 32 div ?s" by (simp add: unat_div)
  also have "\<dots> = p" using p s by (metis nonzero_mult_div_cancel_left not_gr_zero)
  finally have per: "unat (0x100000000 div sz) = p" .
  have p0: "0 < p" "p \<le> 2 ^ 32" using p s by (metis mult_0_right power_not_zero gr0I zero_neq_numeral, metis mult_le_mono1 Suc_leI One_nat_def mult_1)
  have "unat l div ?s div p = unat l div 2 ^ 32" by (simp only: p div_mult2_eq)
  also have "\<dots> < 2 ^ 32" using unat_lt_2p [of l] by (intro less_mult_imp_div_less) simp
  finally show "unat (segment_number l sz div (0x100000000 div sz)) < 2 ^ 32"
    by (simp only: unat_div [of "segment_number l sz"] per unat_segment_number)
  have "unat l div ?s mod p < p" using p0 by simp
  then show "unat (segment_number l sz mod (0x100000000 div sz)) < 2 ^ 32"
    using p0 by (simp only: unat_mod [of "segment_number l sz"] per unat_segment_number)
  show "(0x100000000 div sz :: u64) \<noteq> 0" using per p0 by (metis unat_0 less_irrefl)
qed

lemma segment_name_parts:
  assumes "unat sz dvd 2 ^ 32" "sz \<noteq> 0"
  shows "\<exists>name. XLogFileName tli (segment_number l sz) sz = Inr name \<and>
     IsXLogFileName name \<and> IsPartialXLogFileName (name @ ''.partial'') \<and>
     XLogFromFileName name sz = Inr (segment_number l sz, tli) \<and>
     XLogFromFileName (name @ ''.partial'') sz = Inr (segment_number l sz, tli)"
proof -
  let ?n = "segment_number l sz" and ?per = "0x100000000 div sz :: u64"
  let ?a = "fmt_0X 8 (unat tli)" and ?b = "fmt_0X 8 (unat (?n div ?per))" and ?c = "fmt_0X 8 (unat (?n mod ?per))"
  let ?name = "?a @ ?b @ ?c"
  note B = seg_parts_bound(1,2) [OF assms, of l] seg_parts_bound(3) [OF assms]
  have len: "length ?a = 8" "length ?b = 8" "length ?c = 8"
    using fmt_0X_len B unat_lt_2p [of tli] by simp_all
  have hx: "hex_str ?name" by simp
  obtain y z where y: "u32_from_radix16 ?b = Inr y" "ucast y = ?n div ?per"
    and z: "u32_from_radix16 ?c = Inr z" "ucast z = ?n mod ?per"
    using u32_from_fmt [OF B(1), of 8] u32_from_fmt [OF B(2), of 8] by auto
  have "ucast y * ?per + ucast z = ?n" by (simp only: y z div_mult_mod_eq)
  then have r: "XLogFromFileName (?a @ ?b @ ?c @ t) sz = Inr (?n, tli)"
    if "utf8 (as_bytes (?a @ ?b @ ?c @ t))" "char_boundary t 0" for t
    using from_file_name_parts [OF len hx that assms(2)] y z by (simp add: u32_from_fmt_u32)
  have i: "IsXLogFileName ?name"
    using hx hex_str_utf8 [OF hx] len by (simp add: IsXLogFileName_def XLOG_FNAME_LEN_def hex_str_def)
  have "XLogFromFileName ?name sz = Inr (?n, tli)" "XLogFromFileName (?name @ ''.partial'') sz = Inr (?n, tli)"
    using r [of "[]"] r [of "''.partial''"] partial_boundary partial_ascii [OF hx] hex_str_utf8 [OF hx] by simp_all
  moreover have "IsPartialXLogFileName (?name @ ''.partial'')"
    using i partial_ascii [OF hx] by (simp add: IsPartialXLogFileName_def)
  moreover have "XLogFileName tli ?n sz = Inr ?name"
    using assms(2) B(3) by (simp add: XLogFileName_def XLogSegmentsPerXLogId_def)
  ultimately show ?thesis using i by blast
qed

text \<open>C32: a WAL segment is found again by its file name. For every segment size that divides 4 GiB,
  the name of the segment that holds a position is a segment name, the name with the suffix
  \<open>.partial\<close> is a partial segment name, and both are read back as that segment and timeline.\<close>

theorem segment_name_round_trip:
  assumes "unat sz dvd 2 ^ 32" "sz \<noteq> 0"
  shows "\<exists>name. XLogFileName tli (segment_number l sz) sz = Inr name \<and>
     IsXLogFileName name \<and> IsPartialXLogFileName (name @ ''.partial'') \<and>
     XLogFromFileName name sz = Inr (segment_number l sz, tli) \<and>
     XLogFromFileName (name @ ''.partial'') sz = Inr (segment_number l sz, tli)"
  by (rule segment_name_parts [OF assms])

theorem segment_name_round_trip_witness:
  "unat (0x1000000 :: u64) dvd 2 ^ 32 \<and> (\<exists>name. XLogFileName 1 (segment_number 0x2000000 0x1000000) 0x1000000 = Inr name \<and>
     IsXLogFileName name \<and> IsPartialXLogFileName (name @ ''.partial'') \<and>
     XLogFromFileName name 0x1000000 = Inr (segment_number 0x2000000 0x1000000, 1) \<and>
     XLogFromFileName (name @ ''.partial'') 0x1000000 = Inr (segment_number 0x2000000 0x1000000, 1))"
proof -
  have d: "unat (0x1000000 :: u64) dvd 2 ^ 32" by simp
  show ?thesis using d segment_name_round_trip [OF d _, of 1 "0x2000000"] by simp
qed

end
