(* ===== verification/Ids.thy ===== *)
theory Ids
  imports Wire Rust_Fmt
begin

text \<open>
  The 128-bit identifiers of libs/utils/src/id.rs: \<open>Id([u8; 16])\<close> and its newtypes \<open>TenantId\<close>
  and \<open>TimelineId\<close> as the list of their sixteen bytes, with their hexadecimal text form. Decoding
  is done by the third-party crate hex: \<open>decode_to_slice\<close> is the parameter \<open>hx\<close>, which takes the
  text and the length of the destination and returns the bytes or nothing. What the crate
  documents about it is the predicate \<open>hex_crate\<close>.
\<close>

type_synonym id = bytes
type_synonym hex_decode = "string \<Rightarrow> nat \<Rightarrow> bytes option"

definition id_ok :: "id \<Rightarrow> bool" where
  "id_ok i \<longleftrightarrow> length i = 16"

definition id_from_slice :: "bytes \<Rightarrow> id res" where
  "id_from_slice src = (if length src \<noteq> 16 then Inl (Bail ''invalid id length'') else Inr src)"

definition id_zero :: id where
  "id_zero = replicate 16 0"

definition HEX :: string where
  "HEX = ''0123456789abcdef''"

definition id_hex_encode :: "id \<Rightarrow> string" where
  "id_hex_encode self = concat (map (\<lambda>b.
     [HEX ! unat (drop_bit 4 b AND 0xf), HEX ! unat (b AND 0xf)]) self)"

definition id_from_hex :: "hex_decode \<Rightarrow> string \<Rightarrow> id res" where
  "id_from_hex hx s = (case hx s 16 of None \<Rightarrow> Inl (Bail ''FromHexError'') | Some buf \<Rightarrow> Inr buf)"

definition id_to_u128 :: "id \<Rightarrow> 128 word" where
  "id_to_u128 i = of_nat (le_nat i)"

text \<open>\<open>TenantTimelineId\<close>.\<close>

record tenant_timeline_id =
  tti_tenant_id :: id
  tti_timeline_id :: id

definition tti_empty :: tenant_timeline_id where
  "tti_empty = \<lparr>tti_tenant_id = id_zero, tti_timeline_id = id_zero\<rparr>"

definition tti_display :: "tenant_timeline_id \<Rightarrow> string" where
  "tti_display self = id_hex_encode (tti_tenant_id self) @ ''/'' @ id_hex_encode (tti_timeline_id self)"

text \<open>The documented behaviour of \<open>hex::decode_to_slice\<close>: the text must have exactly two digits
  for every byte of the destination, upper or lower case, high digit first; otherwise it is an
  error.\<close>

definition hex_crate :: "hex_decode \<Rightarrow> bool" where
  "hex_crate hx \<longleftrightarrow> (\<forall>s n bs. hx s n = Some bs \<longleftrightarrow>
     length s = 2 * n \<and> length bs = n \<and>
     (\<forall>i < n. hex_val (s ! (2 * i)) = Some (unat (bs ! i) div 16) \<and>
             hex_val (s ! (2 * i + 1)) = Some (unat (bs ! i) mod 16)))"

text \<open>A decoder with that behaviour, used where a closed instance is evaluated.\<close>

fun hex_pairs :: "string \<Rightarrow> bytes option" where
  "hex_pairs [] = Some []"
| "hex_pairs [c] = None"
| "hex_pairs (c # d # s) = (case (hex_val c, hex_val d, hex_pairs s) of
     (Some h, Some l, Some bs) \<Rightarrow> Some (of_nat (16 * h + l) # bs) | _ \<Rightarrow> None)"

definition hex_ref :: hex_decode where
  "hex_ref s n = (if length s = 2 * n then hex_pairs s else None)"

subsection \<open>The text form determines the identifier\<close>

lemma hex_val_HEX: "n < 16 \<Longrightarrow> hex_val (HEX ! n) = Some n"
proof -
  have "list_all (\<lambda>n. hex_val (HEX ! n) = Some n) [0..<16]" by code_simp
  then show "n < 16 \<Longrightarrow> hex_val (HEX ! n) = Some n" by (simp add: list_all_iff)
qed

lemma hex_val_bound: "hex_val c = Some d \<Longrightarrow> d < 16"
  by (auto simp: hex_val_def Let_def split: if_splits)

lemma nibbles:
  "unat (drop_bit 4 b AND 0xf) = unat b div 16" "unat (b AND 0xf) = unat b mod 16" for b :: u8
proof -
  have m: "x AND 0xf = x mod 16" for x :: u8
    using take_bit_eq_mask [of 4 x] by (simp add: take_bit_eq_mod mask_eq_exp_minus_1)
  have "unat b div 16 < 16" using unat_lt_2p [of b] by simp
  then show "unat (drop_bit 4 b AND 0xf) = unat b div 16"
    by (simp add: m unat_mod unat_div drop_bit_eq_div)
  show "unat (b AND 0xf) = unat b mod 16" by (simp add: m unat_mod)
qed

lemma concat_pairs_nth:
  "i < length xs \<Longrightarrow> concat (map (\<lambda>b. [f b, g b]) xs) ! (2 * i) = f (xs ! i)"
  "i < length xs \<Longrightarrow> concat (map (\<lambda>b. [f b, g b]) xs) ! (2 * i + 1) = g (xs ! i)"
proof (induction xs arbitrary: i)
  case (Cons x xs)
  { case 1 with Cons show ?case by (cases i) auto }
  { case 2 with Cons show ?case by (cases i) auto }
qed auto

lemma length_id_hex_encode [simp]: "length (id_hex_encode i) = 2 * length i"
  by (induction i) (auto simp: id_hex_encode_def)

lemma id_hex_encode_nth:
  assumes "i < length bs"
  shows "hex_val (id_hex_encode bs ! (2 * i)) = Some (unat (bs ! i) div 16)"
    "hex_val (id_hex_encode bs ! (2 * i + 1)) = Some (unat (bs ! i) mod 16)"
proof -
  have "unat (bs ! i) div 16 < 16" using unat_lt_2p [of "bs ! i"] by simp
  then show "hex_val (id_hex_encode bs ! (2 * i)) = Some (unat (bs ! i) div 16)"
    "hex_val (id_hex_encode bs ! (2 * i + 1)) = Some (unat (bs ! i) mod 16)"
    using assms unfolding id_hex_encode_def
    by (simp_all only: concat_pairs_nth nibbles(1) hex_val_HEX)
      (simp add: nibbles(2) hex_val_HEX)
qed

lemma hex_val_id_hex_encode: "c \<in> set (id_hex_encode i) \<Longrightarrow> hex_val c \<noteq> None"
proof -
  assume "c \<in> set (id_hex_encode i)"
  then obtain b :: u8 where "c = HEX ! unat (drop_bit 4 b AND 0xf) \<or> c = HEX ! unat (b AND 0xf)"
    by (simp add: id_hex_encode_def) blast
  moreover have "unat b div 16 < 16" "unat b mod 16 < 16"
    using unat_lt_2p [of b] by simp_all
  ultimately show ?thesis by (elim disjE) (simp_all only: nibbles(1), simp_all add: nibbles(2) hex_val_HEX)
qed

lemma id_from_hex_encode:
  assumes "hex_crate hx" "id_ok i"
  shows "id_from_hex hx (id_hex_encode i) = Inr i"
proof -
  have "hx (id_hex_encode i) 16 = Some i"
    using assms by (simp add: hex_crate_def id_ok_def id_hex_encode_nth [simplified])
  then show ?thesis by (simp add: id_from_hex_def)
qed

lemma id_from_hex_ok: "hex_crate hx \<Longrightarrow> id_from_hex hx s = Inr i \<Longrightarrow> id_ok i \<and> length s = 32"
  by (auto simp: id_from_hex_def hex_crate_def id_ok_def split: option.splits)

lemma len8: "LENGTH(8) = 8"
  by simp

lemma hex_pairs_Some:
  "hex_pairs s = Some bs \<longleftrightarrow> length s = 2 * length bs \<and>
     (\<forall>i < length bs. hex_val (s ! (2 * i)) = Some (unat (bs ! i) div 16) \<and>
                     hex_val (s ! (2 * i + 1)) = Some (unat (bs ! i) mod 16))"
proof (induction s arbitrary: bs rule: hex_pairs.induct)
  case 1
  then show ?case by auto
next
  case (2 c)
  then show ?case by auto
next
  case (3 c d s)
  have byte: "of_nat (16 * h + l) = b \<longleftrightarrow> h = unat b div 16 \<and> l = unat b mod 16"
    if "h < 16" "l < 16" for h l and b :: u8
  proof -
    have "16 * h + l < 2 ^ 8" using that by simp
    then have "unat (of_nat (16 * h + l) :: u8) = 16 * h + l"
      by (simp only: unat_of_nat take_bit_eq_mod len8 mod_less)
    then have "of_nat (16 * h + l) = b \<longleftrightarrow> 16 * h + l = unat b"
      by (auto simp: word_unat_eq_iff)
    moreover have "16 * h + l = n \<longleftrightarrow> h = n div 16 \<and> l = n mod 16" for n
      using that by auto
    ultimately show ?thesis by (simp only:)
  qed
  show ?case
  proof (cases bs)
    case Nil
    then show ?thesis by (auto split: option.splits)
  next
    case (Cons b bs')
    have "hex_pairs (c # d # s) = Some bs \<longleftrightarrow>
        hex_val c = Some (unat b div 16) \<and> hex_val d = Some (unat b mod 16) \<and> hex_pairs s = Some bs'"
      using byte hex_val_bound unfolding Cons by (auto split: option.splits)
    moreover have "(\<forall>i < length bs. P i) \<longleftrightarrow> P 0 \<and> (\<forall>i < length bs'. P (Suc i))" for P
      unfolding Cons using less_Suc_eq_0_disj by auto
    ultimately show ?thesis using 3 [of bs'] by (auto simp: Cons)
  qed
qed

lemma hex_crate_ref: "hex_crate hex_ref"
  by (auto simp: hex_crate_def hex_ref_def hex_pairs_Some)

end
