(* ===== verification/Membership.thy ===== *)
theory Membership
  imports Ids
begin

text \<open>
  Safekeeper membership configurations, libs/safekeeper_api/src/membership.rs: generations,
  the duplicate-free member sets and the configuration with its optional second set.
\<close>

type_synonym node_id = u64
type_synonym sk_generation = u32

definition INVALID_GENERATION :: sk_generation where "INVALID_GENERATION = 0"
definition INITIAL_GENERATION :: sk_generation where "INITIAL_GENERATION = 1"

definition generation_previous :: "sk_generation \<Rightarrow> sk_generation option" where
  "generation_previous self = checked_sub self 1"

definition generation_next :: "sk_generation \<Rightarrow> sk_generation" where
  "generation_next self = self + 1"

record safekeeper_id =
  ski_id :: node_id
  ski_host :: string
  ski_pg_port :: u16

record member_set =
  ms_m :: "safekeeper_id list"

definition member_set_empty :: member_set where
  "member_set_empty = \<lparr>ms_m = []\<rparr>"

definition member_set_new :: "safekeeper_id list \<Rightarrow> member_set res" where
  "member_set_new members =
     (if length (remdups (map ski_id members)) \<noteq> length members
      then Inl (Bail ''duplicate safekeeper id in the set'') else Inr \<lparr>ms_m = members\<rparr>)"

definition member_set_contains :: "member_set \<Rightarrow> node_id \<Rightarrow> bool" where
  "member_set_contains self sk \<longleftrightarrow> list_ex (\<lambda>m. ski_id m = sk) (ms_m self)"

definition member_set_add :: "member_set \<Rightarrow> safekeeper_id \<Rightarrow> member_set res" where
  "member_set_add self sk =
     (if member_set_contains self (ski_id sk) then Inl (Bail ''sk is already member of the set'')
      else Inr \<lparr>ms_m = ms_m self @ [sk]\<rparr>)"

record configuration =
  cfg_generation :: sk_generation
  cfg_members :: member_set
  cfg_new_members :: "member_set option"

definition configuration_empty :: configuration where
  "configuration_empty =
     \<lparr>cfg_generation = INVALID_GENERATION, cfg_members = member_set_empty, cfg_new_members = None\<rparr>"

definition configuration_new :: "member_set \<Rightarrow> configuration" where
  "configuration_new members =
     \<lparr>cfg_generation = INITIAL_GENERATION, cfg_members = members, cfg_new_members = None\<rparr>"

definition configuration_contains :: "configuration \<Rightarrow> node_id \<Rightarrow> bool" where
  "configuration_contains self sk \<longleftrightarrow> member_set_contains (cfg_members self) sk \<or>
     (case cfg_new_members self of None \<Rightarrow> False | Some m \<Rightarrow> member_set_contains m sk)"

subsection \<open>Member sets have no duplicate ids\<close>

definition member_set_ok :: "member_set \<Rightarrow> bool" where
  "member_set_ok ms \<longleftrightarrow> distinct (map ski_id (ms_m ms))"

lemma member_set_contains_iff: "member_set_contains ms n \<longleftrightarrow> n \<in> ski_id ` set (ms_m ms)"
  by (auto simp: member_set_contains_def list_ex_iff)

lemma member_set_empty_ok [simp]: "member_set_ok member_set_empty"
  by (simp add: member_set_ok_def member_set_empty_def)

lemma member_set_new_iff:
  "member_set_new members = Inr ms \<longleftrightarrow> ms = \<lparr>ms_m = members\<rparr> \<and> member_set_ok ms"
proof -
  have "length (remdups (map ski_id members)) = length members \<longleftrightarrow> distinct (map ski_id members)"
    using length_remdups_eq [of "map ski_id members"] remdups_id_iff_distinct [of "map ski_id members"]
    by simp
  then show ?thesis by (auto simp: member_set_new_def member_set_ok_def)
qed

lemma member_set_add_ok:
  "member_set_ok ms \<Longrightarrow> member_set_add ms sk = Inr ms' \<Longrightarrow> member_set_ok ms'"
  by (auto simp: member_set_add_def member_set_ok_def member_set_contains_iff split: if_splits)

lemma member_set_add_iff:
  "member_set_add ms sk = Inr ms' \<longleftrightarrow>
     ms' = \<lparr>ms_m = ms_m ms @ [sk]\<rparr> \<and> ski_id sk \<notin> ski_id ` set (ms_m ms)"
  by (auto simp: member_set_add_def member_set_contains_iff)

lemma member_set_add_contains:
  "member_set_add ms sk = Inr ms' \<Longrightarrow>
     member_set_contains ms' n \<longleftrightarrow> member_set_contains ms n \<or> n = ski_id sk"
  by (auto simp: member_set_add_iff member_set_contains_iff)

end
