(* ===== verification/TermHistory.thy ===== *)
theory TermHistory
  imports Lsn Wire
begin

text \<open>
  Terms and histories of term switches, safekeeper/src/safekeeper.rs: \<open>TermLsn\<close>, \<open>TermHistory\<close>
  with its two wire readers, \<open>up_to\<close> and \<open>find_highest_common_point\<close>, and \<open>AcceptorState\<close>. A
  history is the list of its switches; the position at which two histories part is stated with
  \<open>up_to\<close>, which is the history of the WAL that ends at a position.
\<close>

type_synonym term_no = u64

definition INITIAL_TERM :: term_no where "INITIAL_TERM = 0"

datatype term_lsn = TermLsn (tl_term: term_no) (tl_lsn: lsn)

instantiation term_lsn :: linorder
begin

definition less_eq_term_lsn :: "term_lsn \<Rightarrow> term_lsn \<Rightarrow> bool" where
  "less_eq_term_lsn a b \<longleftrightarrow>
     tl_term a < tl_term b \<or> tl_term a = tl_term b \<and> tl_lsn a \<le> tl_lsn b"

definition less_term_lsn :: "term_lsn \<Rightarrow> term_lsn \<Rightarrow> bool" where
  "less_term_lsn a b \<longleftrightarrow>
     tl_term a < tl_term b \<or> tl_term a = tl_term b \<and> tl_lsn a < tl_lsn b"

instance
  by standard (auto simp: less_eq_term_lsn_def less_term_lsn_def term_lsn.expand)

end

type_synonym term_history = "term_lsn list"

definition th_empty :: term_history where "th_empty = []"

fun from_bytes_loop :: "nat \<Rightarrow> bytes \<Rightarrow> (term_history \<times> bytes) res" where
  "from_bytes_loop 0 bs = Inr ([], bs)"
| "from_bytes_loop (Suc n) bs =
     rbind (ctx ''TermHistory misses term'' (get_u64_f bs)) (\<lambda>(tm, bs).
     rbind (ctx ''TermHistory misses lsn'' (get_u64_f bs)) (\<lambda>(l, bs).
     rbind (from_bytes_loop n bs) (\<lambda>(res, bs). Inr (TermLsn tm l # res, bs))))"

definition th_from_bytes :: "bytes \<Rightarrow> (term_history \<times> bytes) res" where
  "th_from_bytes bs =
     rbind (ctx ''TermHistory misses len'' (get_u32_f bs)) (\<lambda>(n_entries, bs).
     from_bytes_loop (unat n_entries) bs)"

fun from_bytes_le_loop :: "nat \<Rightarrow> bytes \<Rightarrow> (term_history \<times> bytes) res" where
  "from_bytes_le_loop 0 bs = Inr ([], bs)"
| "from_bytes_le_loop (Suc n) bs =
     (if length bs < 16 then Inl (Bail ''TermHistory is incomplete'')
      else rbind (get_u64_le bs) (\<lambda>(tm, bs).
           rbind (get_u64_le bs) (\<lambda>(l, bs).
           rbind (from_bytes_le_loop n bs) (\<lambda>(res, bs). Inr (TermLsn tm l # res, bs)))))"

definition th_from_bytes_le :: "bytes \<Rightarrow> (term_history \<times> bytes) res" where
  "th_from_bytes_le bs =
     (if length bs < 4 then Inl (Bail ''TermHistory misses len'')
      else rbind (get_u32_le bs) (\<lambda>(n_entries, bs). from_bytes_le_loop (unat n_entries) bs))"

fun up_to :: "term_history \<Rightarrow> lsn \<Rightarrow> term_history" where
  "up_to [] u = []"
| "up_to (e # es) u = (if tl_lsn e > u then [] else e # up_to es u)"

text \<open>The loop over \<open>0..min(sk_th.len(), prop_th.len())\<close>; the accumulator is \<open>last_common_idx\<close>.\<close>

fun last_common_loop ::
  "term_history \<Rightarrow> term_history \<Rightarrow> nat \<Rightarrow> nat option \<Rightarrow> nat option res" where
  "last_common_loop (p # ps) (s # ss) i last_common_idx =
     (if tl_term p \<noteq> tl_term s then Inr last_common_idx
      else if tl_lsn p \<noteq> tl_lsn s then Inl (Panic ''same term has different start LSNs'')
      else last_common_loop ps ss (Suc i) (Some i))"
| "last_common_loop _ _ i last_common_idx = Inr last_common_idx"

definition find_highest_common_point ::
  "term_history \<Rightarrow> term_history \<Rightarrow> lsn \<Rightarrow> term_lsn option res" where
  "find_highest_common_point prop_th sk_th sk_wal_end =
     rbind (rassert (sk_th \<noteq> [] \<longrightarrow> tl_lsn (last sk_th) \<le> sk_wal_end)
              ''safekeeper term history end LSN is higher than WAL end'') (\<lambda>_.
     rbind (last_common_loop prop_th sk_th 0 None) (\<lambda>last_common_idx.
     case last_common_idx of
       None \<Rightarrow> Inr None
     | Some i \<Rightarrow>
         if i = length prop_th - 1
         then Inr (Some (TermLsn (tl_term (prop_th ! i)) sk_wal_end))
         else
           let prop_common_term_end = tl_lsn (prop_th ! (i + 1));
               sk_common_term_end =
                 (if i + 1 < length sk_th then tl_lsn (sk_th ! (i + 1)) else sk_wal_end)
           in Inr (Some (TermLsn (tl_term (prop_th ! i))
                 (min prop_common_term_end sk_common_term_end)))))"

record acceptor_state =
  as_term :: term_no
  as_term_history :: term_history

definition as_get_last_log_term :: "acceptor_state \<Rightarrow> lsn \<Rightarrow> term_no" where
  "as_get_last_log_term self flush_lsn =
     (let th = up_to (as_term_history self) flush_lsn
      in if th = [] then 0 else tl_term (last th))"

subsection \<open>Wire format of a history\<close>

text \<open>The two loops that write a history, in the two byte orders (from
  \<open>AcceptorProposerMessage::serialize\<close>).\<close>

definition put_history :: "term_history \<Rightarrow> bytes" where
  "put_history th = put_u32 (of_nat (length th)) @
     concat (map (\<lambda>e. put_u64 (tl_term e) @ put_u64 (tl_lsn e)) th)"

definition put_history_le :: "term_history \<Rightarrow> bytes" where
  "put_history_le th = put_u32_le (of_nat (length th)) @
     concat (map (\<lambda>e. put_u64_le (tl_term e) @ put_u64_le (tl_lsn e)) th)"

definition th_fits :: "term_history \<Rightarrow> bool" where
  "th_fits th \<longleftrightarrow> length th < 2 ^ 32"

lemma from_bytes_loop_put:
  "from_bytes_loop (length th)
     (concat (map (\<lambda>e. put_u64 (tl_term e) @ put_u64 (tl_lsn e)) th) @ r) = Inr (th, r)"
  by (induction th) (simp_all add: codec_simps)

lemma from_bytes_le_loop_put:
  "from_bytes_le_loop (length th)
     (concat (map (\<lambda>e. put_u64_le (tl_term e) @ put_u64_le (tl_lsn e)) th) @ r) = Inr (th, r)"
  by (induction th) (simp_all add: codec_simps)

interpretation history: codec put_history th_from_bytes th_fits
  by unfold_locales
    (simp add: put_history_def th_from_bytes_def codec_simps from_bytes_loop_put th_fits_def
      unat_of_nat take_bit_eq_mod)

interpretation history_le: codec put_history_le th_from_bytes_le th_fits
  by unfold_locales
    (simp add: put_history_le_def th_from_bytes_le_def codec_simps from_bytes_le_loop_put th_fits_def
      unat_of_nat take_bit_eq_mod)

subsection \<open>Cutting a history\<close>

lemma up_to_takeWhile: "up_to th u = takeWhile (\<lambda>e. tl_lsn e \<le> u) th"
  by (induction th) (auto simp: not_less)

lemma up_to_filter:
  "sorted (map tl_lsn th) \<Longrightarrow> up_to th u = filter (\<lambda>e. tl_lsn e \<le> u) th"
proof (induction th)
  case (Cons e es)
  show ?case
  proof (cases "tl_lsn e \<le> u")
    case False
    then have "\<forall>x \<in> set (e # es). u < tl_lsn x" using Cons.prems by fastforce
    then show ?thesis by (auto simp: filter_empty_conv not_le)
  qed (use Cons in auto)
qed simp

lemma up_to_idem: "up_to (up_to th a) b = up_to th (min a b)"
  by (induction th) (auto simp: min_def not_less)

lemma up_to_prefix: "\<exists>rest. th = up_to th u @ rest"
  by (metis takeWhile_dropWhile_id up_to_takeWhile)

lemma up_to_bound: "e \<in> set (up_to th u) \<Longrightarrow> tl_lsn e \<le> u"
  by (auto simp: up_to_takeWhile dest: set_takeWhileD)

lemma up_to_all: "\<forall>e \<in> set th. tl_lsn e \<le> u \<Longrightarrow> up_to th u = th"
  by (simp add: up_to_takeWhile)

lemma up_to_append_short:
  "(xs = [] \<or> u < tl_lsn (hd xs)) \<Longrightarrow> up_to (p @ xs) u = up_to p u"
  by (induction p) (cases xs, auto)

text \<open>Well-formed histories: terms grow strictly, start positions never decrease.\<close>

definition th_ok :: "term_history \<Rightarrow> bool" where
  "th_ok th \<longleftrightarrow> sorted_wrt (<) (map tl_term th) \<and> sorted (map tl_lsn th)"

lemma th_ok_Nil [simp]: "th_ok []"
  by (simp add: th_ok_def)

lemma th_ok_appendD: "th_ok (xs @ ys) \<Longrightarrow> th_ok xs \<and> th_ok ys"
  by (simp add: th_ok_def sorted_wrt_append sorted_append)

lemma th_ok_up_to: "th_ok th \<Longrightarrow> th_ok (up_to th u)"
  by (metis th_ok_appendD up_to_prefix)

subsection \<open>The highest common point\<close>

lemma last_common_loop_shift:
  "last_common_loop ps ss i acc = Inr r \<Longrightarrow>
   \<exists>n. n \<le> length ps \<and> n \<le> length ss \<and> take n ps = take n ss \<and>
     r = (if n = 0 then acc else Some (i + n - 1)) \<and>
     (n < length ps \<longrightarrow> n < length ss \<longrightarrow> tl_term (ps ! n) \<noteq> tl_term (ss ! n))"
proof (induction ps ss i acc rule: last_common_loop.induct)
  case (1 p ps s ss i acc)
  show ?case
  proof (cases "tl_term p \<noteq> tl_term s")
    case True
    with 1 show ?thesis by (intro exI [of _ 0]) auto
  next
    case False
    with 1 have eq: "p = s" and "last_common_loop ps ss (Suc i) (Some i) = Inr r"
      by (auto simp: term_lsn.expand split: if_splits)
    then obtain n where "n \<le> length ps" "n \<le> length ss" "take n ps = take n ss"
      "r = (if n = 0 then Some i else Some (Suc i + n - 1))"
      "n < length ps \<longrightarrow> n < length ss \<longrightarrow> tl_term (ps ! n) \<noteq> tl_term (ss ! n)"
      using 1 False by auto
    then show ?thesis using eq by (intro exI [of _ "Suc n"]) auto
  qed
qed auto

text \<open>The longest common prefix, with what the function returns for it.\<close>

lemma find_highest_common_point_prefix:
  assumes "find_highest_common_point prop sk wal_end = Inr r"
  obtains n where "n \<le> length prop" "n \<le> length sk" "take n prop = take n sk"
    "n < length prop \<longrightarrow> n < length sk \<longrightarrow> tl_term (prop ! n) \<noteq> tl_term (sk ! n)"
    "n = 0 \<longleftrightarrow> r = None"
    "0 < n \<Longrightarrow> r = Some (TermLsn (tl_term (prop ! (n - 1)))
       (if n = length prop then wal_end
        else min (tl_lsn (prop ! n)) (if n < length sk then tl_lsn (sk ! n) else wal_end)))"
proof -
  obtain idx where l: "last_common_loop prop sk 0 None = Inr idx"
    using assms by (auto simp: find_highest_common_point_def monad_simps)
  from last_common_loop_shift [OF l] obtain n where n: "n \<le> length prop" "n \<le> length sk"
    "take n prop = take n sk" "idx = (if n = 0 then None else Some (0 + n - 1))"
    "n < length prop \<longrightarrow> n < length sk \<longrightarrow> tl_term (prop ! n) \<noteq> tl_term (sk ! n)"
    by blast
  show thesis
  proof (rule that [of n])
    show "n = 0 \<longleftrightarrow> r = None"
      using assms l n(4) by (auto simp: find_highest_common_point_def Let_def monad_simps split: if_splits)
    show "0 < n \<Longrightarrow> r = Some (TermLsn (tl_term (prop ! (n - 1)))
       (if n = length prop then wal_end
        else min (tl_lsn (prop ! n)) (if n < length sk then tl_lsn (sk ! n) else wal_end)))"
      using assms l n(1,4)
      by (auto simp: find_highest_common_point_def Let_def monad_simps split: if_splits)
  qed (use n in auto)
qed

text \<open>Below the common point neither history has left the common prefix.\<close>

lemma up_to_common:
  assumes "take n xs = take n ys"
    and "n < length xs \<Longrightarrow> u < tl_lsn (xs ! n)" "n < length ys \<Longrightarrow> u < tl_lsn (ys ! n)"
  shows "up_to xs u = up_to ys u"
proof -
  have cut: "up_to zs u = up_to (take n zs) u" if "n < length zs \<Longrightarrow> u < tl_lsn (zs ! n)" for zs
    using up_to_append_short [of "drop n zs" u "take n zs"] that
    by (cases "n < length zs") (simp_all add: hd_drop_conv_nth)
  show ?thesis using cut [of xs] cut [of ys] assms by simp
qed

lemma th_ok_up_to_nth:
  assumes "sorted (map tl_lsn th)" "n < length th" "tl_lsn (th ! n) \<le> u"
  shows "n < length (up_to th u)" "up_to th u ! n = th ! n"
proof -
  have "tl_lsn (th ! i) \<le> u" if "i \<le> n" for i
    using assms that sorted_nth_mono [of "map tl_lsn th" i n] by force
  then have "\<forall>e \<in> set (take (Suc n) th). tl_lsn e \<le> u"
    by (auto simp: in_set_conv_nth)
  then have "up_to th u = take (Suc n) th @ up_to (drop (Suc n) th) u"
    by (metis append_take_drop_id takeWhile_append2 up_to_takeWhile)
  with assms(2) show "n < length (up_to th u)" "up_to th u ! n = th ! n"
    by (simp_all add: nth_append)
qed

lemma up_to_nth_bound: "n < length (up_to th u) \<Longrightarrow> n < length th \<and> up_to th u ! n = th ! n \<and> tl_lsn (th ! n) \<le> u"
  by (metis length_takeWhile_le nth_mem order.strict_trans2 takeWhile_nth up_to_bound up_to_takeWhile)

text \<open>A leader's history ends in its own term, which is above every term a safekeeper has seen;
  so if the whole leader history is common, the safekeeper has no further switch.\<close>

lemma leader_prefix_complete:
  assumes "th_ok sk" "\<forall>e \<in> set sk. tl_term e \<le> tl_term (last prop)"
    and "0 < n" "n = length prop" "take n prop = take n sk"
  shows "length sk \<le> n"
proof (rule ccontr)
  assume "\<not> length sk \<le> n"
  then have "n < length sk" by simp
  moreover have "sk ! (n - 1) = last prop"
    using assms(3-5) by (metis One_nat_def Suc_pred last_conv_nth length_greater_0_conv lessI nth_take take_all order_refl)
  ultimately have "tl_term (last prop) < tl_term (sk ! n)"
    using assms(1,3) sorted_wrt_nth_less [of "(<)" "map tl_term sk" "n - 1" n]
    by (simp add: th_ok_def)
  with assms(2) \<open>n < length sk\<close> show False by (auto simp: not_le [symmetric])
qed

lemma find_common_agree:
  assumes "find_highest_common_point prop sk wal_end = Inr (Some (TermLsn t l))"
    and "th_ok sk" "\<forall>e \<in> set sk. tl_term e \<le> tl_term (last prop)" "u < l"
  shows "up_to prop u = up_to sk u"
proof -
  obtain n where n: "n \<le> length prop" "n \<le> length sk" "take n prop = take n sk" "0 < n"
    "l = (if n = length prop then wal_end
          else min (tl_lsn (prop ! n)) (if n < length sk then tl_lsn (sk ! n) else wal_end))"
    by (rule find_highest_common_point_prefix [OF assms(1)]) auto
  have "n < length prop \<Longrightarrow> u < tl_lsn (prop ! n)" using n assms(4) by (auto split: if_splits)
  moreover have "u < tl_lsn (sk ! n)" if "n < length sk"
  proof -
    have "n \<noteq> length prop" using leader_prefix_complete [OF assms(2,3) n(4)] n(3) that by fastforce
    then show ?thesis using n assms(4) that by (auto split: if_splits)
  qed
  ultimately show ?thesis by (rule up_to_common [OF n(3)])
qed

lemma find_common_diverge:
  assumes "find_highest_common_point prop sk wal_end = Inr (Some (TermLsn t l))"
    and "sorted (map tl_lsn prop)" "sorted (map tl_lsn sk)" "l < wal_end"
  shows "up_to prop l \<noteq> up_to sk l"
proof -
  obtain n where n: "n \<le> length prop" "n \<le> length sk"
    "n < length prop \<longrightarrow> n < length sk \<longrightarrow> tl_term (prop ! n) \<noteq> tl_term (sk ! n)"
    "l = (if n = length prop then wal_end
          else min (tl_lsn (prop ! n)) (if n < length sk then tl_lsn (sk ! n) else wal_end))"
    by (rule find_highest_common_point_prefix [OF assms(1)]) auto
  then have np: "n < length prop" and l: "l = tl_lsn (prop ! n) \<or> n < length sk \<and> l = tl_lsn (sk ! n)"
    using assms(4) by (auto simp: min_def split: if_splits)
  show ?thesis
  proof
    assume eq: "up_to prop l = up_to sk l"
    have "n < length (up_to prop l) \<and> n < length (up_to sk l)"
      using l th_ok_up_to_nth(1) [OF assms(2) np, of l] th_ok_up_to_nth(1) [OF assms(3), of n l] eq
      by (metis order_refl)
    then have "n < length sk" "prop ! n = sk ! n" using eq up_to_nth_bound by metis+
    with n(3) np show False by simp
  qed
qed

lemma find_common_term:
  assumes "find_highest_common_point prop sk wal_end = Inr (Some (TermLsn t l))"
  shows "\<exists>e. e \<in> set prop \<and> e \<in> set sk \<and> t = tl_term e"
proof -
  obtain n where n: "n \<le> length prop" "n \<le> length sk" "take n prop = take n sk" "0 < n"
    "t = tl_term (prop ! (n - 1))"
    by (rule find_highest_common_point_prefix [OF assms]) auto
  then have "prop ! (n - 1) = sk ! (n - 1)" by (metis diff_less nth_take zero_less_one)
  with n show ?thesis
    by (metis diff_less less_le_trans nth_mem zero_less_one)
qed

text \<open>The assertions of the search never fire on histories that agree on where a term starts.\<close>

lemma last_common_loop_total:
  assumes "\<forall>a \<in> set ps. \<forall>b \<in> set ss. tl_term a = tl_term b \<longrightarrow> tl_lsn a = tl_lsn b"
  shows "\<exists>r. last_common_loop ps ss i acc = Inr r"
  using assms by (induction ps ss i acc rule: last_common_loop.induct) auto

text \<open>The cut history keeps the last entry at or below the cut.\<close>

lemma get_last_log_term_in:
  "as_get_last_log_term st u \<noteq> 0 \<Longrightarrow>
     \<exists>e \<in> set (as_term_history st). tl_lsn e \<le> u \<and> as_get_last_log_term st u = tl_term e"
  by (auto simp: as_get_last_log_term_def Let_def split: if_splits)
    (metis last_in_set set_takeWhileD up_to_takeWhile)

end
