(* ===== verification/TimelineState.thy ===== *)
theory TimelineState
  imports Membership TermHistory
begin

text \<open>
  The per-timeline state of a safekeeper, safekeeper/src/state.rs: the persistent part
  (\<open>TimelinePersistentState\<close>), the in-memory layer over it (\<open>TimelineMemState\<close>) and the operations
  of \<open>TimelineState\<close>. The structure is generic over the trait \<open>control_file::Storage\<close>; a trait
  implementation is a record of its operations, passed to the operations that use it. The locale
  \<open>control_file\<close> says what the state relies on: a successful \<open>persist\<close> replaces the stored state, a
  failed one leaves it.
\<close>

record server_info =
  si_pg_version :: u32
  si_system_id :: u64
  si_wal_seg_size :: u32

text \<open>Partial backup state (safekeeper/src/wal_backup_partial.rs), stored in the control file.\<close>

datatype upload_status = InProgress | Uploaded | Deleting

record partial_remote_segment =
  prs_status :: upload_status
  prs_name :: string
  prs_commit_lsn :: lsn
  prs_flush_lsn :: lsn
  prs_term :: term_no

type_synonym partial_backup_state = "partial_remote_segment list"

definition uploaded_segment :: "partial_backup_state \<Rightarrow> partial_remote_segment option" where
  "uploaded_segment segments = find (\<lambda>seg. prs_status seg = Uploaded) segments"

datatype eviction_state = Present | Offloaded lsn

record timeline_persistent_state =
  ps_tenant_id :: id
  ps_timeline_id :: id
  ps_mconf :: configuration
  ps_acceptor_state :: acceptor_state
  ps_server :: server_info
  ps_proposer_uuid :: bytes
  ps_timeline_start_lsn :: lsn
  ps_local_start_lsn :: lsn
  ps_commit_lsn :: lsn
  ps_backup_lsn :: lsn
  ps_peer_horizon_lsn :: lsn
  ps_remote_consistent_lsn :: lsn
  ps_partial_backup :: partial_backup_state
  ps_eviction_state :: eviction_state
  ps_creation_ts :: int

definition UNKNOWN_SERVER_VERSION :: u32 where "UNKNOWN_SERVER_VERSION = 0"

text \<open>The clock is an argument: \<open>now\<close> stands for \<open>SystemTime::now()\<close>.\<close>

definition persistent_state_new ::
  "int \<Rightarrow> tenant_timeline_id \<Rightarrow> configuration \<Rightarrow> server_info \<Rightarrow> lsn \<Rightarrow> lsn
   \<Rightarrow> timeline_persistent_state res" where
  "persistent_state_new now ttid mconf server start_lsn commit_lsn =
     (if si_wal_seg_size server = 0 then Inl (Bail ''UninitializedWalSegSize'')
      else if si_pg_version server = UNKNOWN_SERVER_VERSION then Inl (Bail ''UninitialinzedPgVersion'')
      else if commit_lsn < start_lsn then Inl (Bail ''commit_lsn is smaller than start_lsn'')
      else Inr \<lparr>ps_tenant_id = tti_tenant_id ttid, ps_timeline_id = tti_timeline_id ttid,
        ps_mconf = mconf,
        ps_acceptor_state = \<lparr>as_term = INITIAL_TERM,
          as_term_history =
            (if commit_lsn \<noteq> lsn_INVALID then [TermLsn INITIAL_TERM start_lsn] else th_empty)\<rparr>,
        ps_server = server, ps_proposer_uuid = replicate 16 0,
        ps_timeline_start_lsn = start_lsn, ps_local_start_lsn = start_lsn,
        ps_commit_lsn = commit_lsn, ps_backup_lsn = start_lsn, ps_peer_horizon_lsn = start_lsn,
        ps_remote_consistent_lsn = 0, ps_partial_backup = [], ps_eviction_state = Present,
        ps_creation_ts = now\<rparr>)"

definition persistent_state_empty :: "int \<Rightarrow> timeline_persistent_state res" where
  "persistent_state_empty now =
     (case persistent_state_new now tti_empty configuration_empty
        \<lparr>si_pg_version = 170000, si_system_id = 0, si_wal_seg_size = ucast WAL_SEGMENT_SIZE\<rparr>
        lsn_INVALID lsn_INVALID of
        Inl _ \<Rightarrow> Inl (Panic ''called Result::unwrap() on an Err value'') | Inr s \<Rightarrow> Inr s)"

text \<open>A timeline in a configuration of one member, for closed instances.\<close>

definition example_state :: timeline_persistent_state where
  "example_state = \<lparr>ps_tenant_id = replicate 16 1, ps_timeline_id = replicate 16 2,
     ps_mconf = configuration_new
       \<lparr>ms_m = [\<lparr>ski_id = 1, ski_host = ''sk1'', ski_pg_port = 5454\<rparr>]\<rparr>,
     ps_acceptor_state = \<lparr>as_term = 1, as_term_history = [TermLsn 1 4096]\<rparr>,
     ps_server = \<lparr>si_pg_version = 170000, si_system_id = 9, si_wal_seg_size = 16777216\<rparr>,
     ps_proposer_uuid = replicate 16 0, ps_timeline_start_lsn = 4096, ps_local_start_lsn = 4096,
     ps_commit_lsn = 4096, ps_backup_lsn = 4096, ps_peer_horizon_lsn = 4096,
     ps_remote_consistent_lsn = 0, ps_partial_backup = [], ps_eviction_state = Present,
     ps_creation_ts = 0\<rparr>"

record timeline_mem_state =
  im_commit_lsn :: lsn
  im_backup_lsn :: lsn
  im_peer_horizon_lsn :: lsn
  im_remote_consistent_lsn :: lsn
  im_proposer_uuid :: bytes

text \<open>The trait \<open>control_file::Storage\<close>.\<close>

record 'c ctrl_storage =
  cs_deref :: "'c \<Rightarrow> timeline_persistent_state"
  cs_persist :: "timeline_persistent_state \<Rightarrow> ('c, unit) act"

record 'c timeline_state =
  ts_inmem :: timeline_mem_state
  ts_pers :: 'c

abbreviation pers :: "'c ctrl_storage \<Rightarrow> 'c timeline_state \<Rightarrow> timeline_persistent_state" where
  "pers C ts \<equiv> cs_deref C (ts_pers ts)"

definition mem_of :: "timeline_persistent_state \<Rightarrow> timeline_mem_state" where
  "mem_of s = \<lparr>im_commit_lsn = ps_commit_lsn s, im_backup_lsn = ps_backup_lsn s,
     im_peer_horizon_lsn = ps_peer_horizon_lsn s,
     im_remote_consistent_lsn = ps_remote_consistent_lsn s,
     im_proposer_uuid = ps_proposer_uuid s\<rparr>"

definition timeline_state_new :: "'c ctrl_storage \<Rightarrow> 'c \<Rightarrow> 'c timeline_state" where
  "timeline_state_new C state = \<lparr>ts_inmem = mem_of (cs_deref C state), ts_pers = state\<rparr>"

definition start_change :: "'c ctrl_storage \<Rightarrow> 'c timeline_state \<Rightarrow> timeline_persistent_state" where
  "start_change C self =
     (pers C self)\<lparr>ps_commit_lsn := im_commit_lsn (ts_inmem self),
       ps_backup_lsn := im_backup_lsn (ts_inmem self),
       ps_peer_horizon_lsn := im_peer_horizon_lsn (ts_inmem self),
       ps_remote_consistent_lsn := im_remote_consistent_lsn (ts_inmem self),
       ps_proposer_uuid := im_proposer_uuid (ts_inmem self)\<rparr>"

definition finish_change ::
  "'c ctrl_storage \<Rightarrow> timeline_persistent_state \<Rightarrow> ('c timeline_state, unit) act" where
  "finish_change C s self =
     (if s = pers C self then (Inr (), self\<lparr>ts_inmem := mem_of s\<rparr>)
      else case cs_persist C s (ts_pers self) of
        (Inl e, p) \<Rightarrow> (Inl e, self\<lparr>ts_pers := p\<rparr>)
      | (Inr _, p) \<Rightarrow> (Inr (), self\<lparr>ts_pers := p, ts_inmem := mem_of s\<rparr>))"

definition ts_flush :: "'c ctrl_storage \<Rightarrow> ('c timeline_state, unit) act" where
  "ts_flush C self = finish_change C (start_change C self) self"

definition set_term :: "term_no \<Rightarrow> timeline_persistent_state \<Rightarrow> timeline_persistent_state" where
  "set_term t s = s\<lparr>ps_acceptor_state := (ps_acceptor_state s)\<lparr>as_term := t\<rparr>\<rparr>"

abbreviation cur_term :: "'c ctrl_storage \<Rightarrow> 'c timeline_state \<Rightarrow> term_no" where
  "cur_term C ts \<equiv> as_term (ps_acceptor_state (pers C ts))"

definition bump_target :: "term_no \<Rightarrow> term_no option \<Rightarrow> term_no" where
  "bump_target cur to = (case to of Some t \<Rightarrow> max cur t | None \<Rightarrow> cur + 1)"

definition term_bump ::
  "'c ctrl_storage \<Rightarrow> term_no option \<Rightarrow> ('c timeline_state, term_no \<times> term_no) act" where
  "term_bump C to self =
     (let before = cur_term C self;
          state = start_change C self;
          cur = as_term (ps_acceptor_state state);
          new = bump_target cur to
      in if new > cur then
           (case finish_change C (set_term new state) self of
              (Inl e, self) \<Rightarrow> (Inl e, self)
            | (Inr _, self) \<Rightarrow> (Inr (before, cur_term C self), self))
         else (Inr (before, cur_term C self), self))"

definition membership_switch ::
  "'c ctrl_storage \<Rightarrow> configuration \<Rightarrow> ('c timeline_state, configuration \<times> configuration) act" where
  "membership_switch C to self =
     (let before = ps_mconf (pers C self)
      in if cfg_generation to \<le> cfg_generation (ps_mconf (pers C self))
         then (Inr (before, ps_mconf (pers C self)), self)
         else case finish_change C ((start_change C self)\<lparr>ps_mconf := to\<rparr>) self of
                (Inl e, self) \<Rightarrow> (Inl e, self)
              | (Inr _, self) \<Rightarrow> (Inr (before, ps_mconf (pers C self)), self))"

subsection \<open>Reading a change\<close>

text \<open>What the in-memory layer is for: \<open>start_change\<close> reads it back.\<close>

lemma start_change_simps [simp]:
  "ps_commit_lsn (start_change C ts) = im_commit_lsn (ts_inmem ts)"
  "ps_backup_lsn (start_change C ts) = im_backup_lsn (ts_inmem ts)"
  "ps_peer_horizon_lsn (start_change C ts) = im_peer_horizon_lsn (ts_inmem ts)"
  "ps_remote_consistent_lsn (start_change C ts) = im_remote_consistent_lsn (ts_inmem ts)"
  "ps_proposer_uuid (start_change C ts) = im_proposer_uuid (ts_inmem ts)"
  "ps_acceptor_state (start_change C ts) = ps_acceptor_state (pers C ts)"
  "ps_mconf (start_change C ts) = ps_mconf (pers C ts)"
  "ps_server (start_change C ts) = ps_server (pers C ts)"
  "ps_tenant_id (start_change C ts) = ps_tenant_id (pers C ts)"
  "ps_timeline_id (start_change C ts) = ps_timeline_id (pers C ts)"
  "ps_timeline_start_lsn (start_change C ts) = ps_timeline_start_lsn (pers C ts)"
  "ps_local_start_lsn (start_change C ts) = ps_local_start_lsn (pers C ts)"
  "ps_partial_backup (start_change C ts) = ps_partial_backup (pers C ts)"
  "ps_eviction_state (start_change C ts) = ps_eviction_state (pers C ts)"
  by (simp_all add: start_change_def)

lemma mem_of_start_change [simp]: "mem_of (start_change C ts) = ts_inmem ts"
  by (simp add: mem_of_def)

lemma mem_of_simps [simp]:
  "im_commit_lsn (mem_of s) = ps_commit_lsn s"
  "im_backup_lsn (mem_of s) = ps_backup_lsn s"
  "im_peer_horizon_lsn (mem_of s) = ps_peer_horizon_lsn s"
  "im_remote_consistent_lsn (mem_of s) = ps_remote_consistent_lsn s"
  "im_proposer_uuid (mem_of s) = ps_proposer_uuid s"
  by (simp_all add: mem_of_def)

lemma set_term_simps [simp]:
  "as_term (ps_acceptor_state (set_term t s)) = t"
  "as_term_history (ps_acceptor_state (set_term t s)) = as_term_history (ps_acceptor_state s)"
  "ps_commit_lsn (set_term t s) = ps_commit_lsn s"
  "ps_backup_lsn (set_term t s) = ps_backup_lsn s"
  "ps_peer_horizon_lsn (set_term t s) = ps_peer_horizon_lsn s"
  "ps_remote_consistent_lsn (set_term t s) = ps_remote_consistent_lsn s"
  "ps_eviction_state (set_term t s) = ps_eviction_state s"
  "ps_proposer_uuid (set_term t s) = ps_proposer_uuid s"
  "ps_mconf (set_term t s) = ps_mconf s"
  "ps_server (set_term t s) = ps_server s"
  "ps_tenant_id (set_term t s) = ps_tenant_id s"
  "ps_timeline_id (set_term t s) = ps_timeline_id s"
  "ps_timeline_start_lsn (set_term t s) = ps_timeline_start_lsn s"
  "ps_local_start_lsn (set_term t s) = ps_local_start_lsn s"
  by (simp_all add: set_term_def)

subsection \<open>The contract of the control file\<close>

text \<open>\<open>persist\<close> replaces the stored state when it succeeds and leaves it when it fails; \<open>ctrl_inv\<close> is
  an invariant of the storage.\<close>

locale control_file =
  fixes C :: "'c ctrl_storage" and ctrl_inv :: "'c \<Rightarrow> bool"
  assumes persist_Inr: "cs_persist C s c = (Inr u, c') \<Longrightarrow> cs_deref C c' = s"
    and persist_Inl: "cs_persist C s c = (Inl e, c') \<Longrightarrow> cs_deref C c' = cs_deref C c"
    and persist_inv: "ctrl_inv c \<Longrightarrow> ctrl_inv (snd (cs_persist C s c))"
begin

lemma finish_change_Inr:
  "finish_change C s ts = (Inr u, ts') \<Longrightarrow> pers C ts' = s \<and> ts_inmem ts' = mem_of s"
  by (auto simp: finish_change_def split: if_splits prod.splits sum.splits dest: persist_Inr)

lemma finish_change_Inl:
  "finish_change C s ts = (Inl e, ts') \<Longrightarrow> pers C ts' = pers C ts \<and> ts_inmem ts' = ts_inmem ts"
  by (auto simp: finish_change_def split: if_splits prod.splits sum.splits dest: persist_Inl)

lemma finish_change_inv: "ctrl_inv (ts_pers ts) \<Longrightarrow> ctrl_inv (ts_pers (snd (finish_change C s ts)))"
  using persist_inv [of "ts_pers ts" s]
  by (auto simp: finish_change_def split: if_splits prod.splits sum.splits)

text \<open>A change either takes effect as a whole or leaves the state as it was.\<close>

lemma finish_change_cases:
  obtains (applied) ts' where "finish_change C s ts = (Inr (), ts')" "pers C ts' = s"
    "ts_inmem ts' = mem_of s"
  | (failed) e ts' where "finish_change C s ts = (Inl e, ts')" "pers C ts' = pers C ts"
    "ts_inmem ts' = ts_inmem ts"
proof (cases "finish_change C s ts")
  case (Pair r ts')
  show thesis
  proof (cases r)
    case (Inl e)
    with Pair show ?thesis using failed finish_change_Inl by blast
  next
    case (Inr u)
    with Pair show ?thesis using finish_change_Inr by (intro applied [of ts']) auto
  qed
qed

lemma term_bump_cases:
  assumes "term_bump C to ts = (r, ts')"
  obtains (same) "pers C ts' = pers C ts" "isl r \<or> bump_target (cur_term C ts) to \<le> cur_term C ts"
      "\<not> isl r \<Longrightarrow> r = Inr (cur_term C ts, cur_term C ts)"
  | (bumped) "cur_term C ts < bump_target (cur_term C ts) to"
      "pers C ts' = set_term (bump_target (cur_term C ts) to) (start_change C ts)"
      "r = Inr (cur_term C ts, bump_target (cur_term C ts) to)"
proof (cases "cur_term C ts < bump_target (cur_term C ts) to")
  case False
  then have "r = Inr (cur_term C ts, cur_term C ts)" "ts' = ts"
    using assms by (auto simp: term_bump_def Let_def)
  with False show ?thesis by (intro that(1)) auto
next
  case True
  with assms that show ?thesis
    by (cases rule: finish_change_cases
          [of "set_term (bump_target (cur_term C ts) to) (start_change C ts)" ts])
      (auto simp: term_bump_def Let_def)
qed

lemma term_bump_mono: "term_bump C to ts = (r, ts') \<Longrightarrow> cur_term C ts \<le> cur_term C ts'"
  by (erule term_bump_cases) simp_all

lemma membership_switch_cases:
  assumes "membership_switch C to ts = (r, ts')"
  obtains (kept) "pers C ts' = pers C ts" "ts_inmem ts' = ts_inmem ts"
      "isl r \<or> cfg_generation to \<le> cfg_generation (ps_mconf (pers C ts))"
  | (switched) "cfg_generation (ps_mconf (pers C ts)) < cfg_generation to"
      "pers C ts' = (start_change C ts)\<lparr>ps_mconf := to\<rparr>" "ts_inmem ts' = ts_inmem ts"
      "r = Inr (ps_mconf (pers C ts), to)"
proof (cases "cfg_generation to \<le> cfg_generation (ps_mconf (pers C ts))")
  case True
  with assms that(1) show ?thesis by (simp add: membership_switch_def Let_def)
next
  case False
  let ?s = "(start_change C ts)\<lparr>ps_mconf := to\<rparr>"
  have m: "mem_of ?s = ts_inmem ts" by (simp add: mem_of_def start_change_def)
  have lt: "cfg_generation (ps_mconf (pers C ts)) < cfg_generation to" using False by simp
  show ?thesis
    using assms that lt m False
    by (cases rule: finish_change_cases [of ?s ts]) (auto simp: membership_switch_def Let_def)
qed

end

end
