(* ===== verification/Feedback.thy ===== *)
theory Feedback
  imports Lsn Wire
begin

text \<open>
  Feedback messages: \<open>PageserverFeedback\<close> with its key/value wire format
  (libs/utils/src/pageserver_feedback.rs) and \<open>HotStandbyFeedback\<close>
  (libs/safekeeper_api/src/models.rs). A time is the number of nanoseconds since the Postgres
  epoch. Malformed input is a panic in this parser, not an error.
\<close>

record pageserver_feedback =
  pf_current_timeline_size :: u64
  pf_last_received_lsn :: lsn
  pf_disk_consistent_lsn :: lsn
  pf_remote_consistent_lsn :: lsn
  pf_replytime :: int
  pf_shard_number :: u32

definition pf_empty :: pageserver_feedback where
  "pf_empty = \<lparr>pf_current_timeline_size = 0, pf_last_received_lsn = lsn_INVALID,
     pf_disk_consistent_lsn = lsn_INVALID, pf_remote_consistent_lsn = lsn_INVALID,
     pf_replytime = 0, pf_shard_number = 0\<rparr>"

definition pf_field :: "string \<Rightarrow> u32 \<Rightarrow> bytes \<Rightarrow> bytes" where
  "pf_field key len val = as_bytes key @ [0] @ put_u32 len @ val"

definition pf_serialize :: "pageserver_feedback \<Rightarrow> bytes res" where
  "pf_serialize self =
     (if pf_replytime self < 0
      then Inl (Panic ''failed to serialize pg_replytime earlier than PG_EPOCH'')
      else
        let timestamp = (of_int (pf_replytime self div 1000) :: u64);
            nkeys = (if pf_shard_number self > 0 then 6 else 5)
        in Inr (put_u8 nkeys
          @ pf_field ''current_timeline_size'' 8 (put_u64 (pf_current_timeline_size self))
          @ pf_field ''ps_writelsn'' 8 (put_u64 (pf_last_received_lsn self))
          @ pf_field ''ps_flushlsn'' 8 (put_u64 (pf_disk_consistent_lsn self))
          @ pf_field ''ps_applylsn'' 8 (put_u64 (pf_remote_consistent_lsn self))
          @ pf_field ''ps_replytime'' 8 (put_u64 timestamp)
          @ (if pf_shard_number self > 0
             then pf_field ''shard_number'' 4 (put_u32 (pf_shard_number self)) else [])))"

text \<open>A value of eight or four bytes after its length: \<open>get_i32\<close>, \<open>assert_eq!\<close>, then the value.\<close>

definition sized_u64 :: "bytes \<Rightarrow> (u64 \<times> bytes) res" where
  "sized_u64 buf = rbind (get_u32 buf) (\<lambda>(len, buf).
     rbind (rassert (len = 8) ''assertion failed: len == 8'') (\<lambda>_. get_u64 buf))"

definition sized_u32 :: "bytes \<Rightarrow> (u32 \<times> bytes) res" where
  "sized_u32 buf = rbind (get_u32 buf) (\<lambda>(len, buf).
     rbind (rassert (len = 4) ''assertion failed: len == 4'') (\<lambda>_. get_u32 buf))"

definition raw_time_to_reply :: "u64 \<Rightarrow> int" where
  "raw_time_to_reply raw =
     (if sint raw > 0 then uint raw * 1000 else - (uint (- raw) * 1000))"

definition pf_parse_field :: "pageserver_feedback \<Rightarrow> bytes \<Rightarrow> (pageserver_feedback \<times> bytes) res" where
  "pf_parse_field rf buf =
     (case read_cstr buf of
        Inl _ \<Rightarrow> Inl (Panic ''called Result::unwrap() on an Err value'')
      | Inr (key, buf) \<Rightarrow>
          if key = as_bytes ''current_timeline_size'' then
            rbind (sized_u64 buf) (\<lambda>(v, buf). Inr (rf\<lparr>pf_current_timeline_size := v\<rparr>, buf))
          else if key = as_bytes ''ps_writelsn'' then
            rbind (sized_u64 buf) (\<lambda>(v, buf). Inr (rf\<lparr>pf_last_received_lsn := v\<rparr>, buf))
          else if key = as_bytes ''ps_flushlsn'' then
            rbind (sized_u64 buf) (\<lambda>(v, buf). Inr (rf\<lparr>pf_disk_consistent_lsn := v\<rparr>, buf))
          else if key = as_bytes ''ps_applylsn'' then
            rbind (sized_u64 buf) (\<lambda>(v, buf). Inr (rf\<lparr>pf_remote_consistent_lsn := v\<rparr>, buf))
          else if key = as_bytes ''ps_replytime'' then
            rbind (sized_u64 buf) (\<lambda>(v, buf). Inr (rf\<lparr>pf_replytime := raw_time_to_reply v\<rparr>, buf))
          else if key = as_bytes ''shard_number'' then
            rbind (sized_u32 buf) (\<lambda>(v, buf). Inr (rf\<lparr>pf_shard_number := v\<rparr>, buf))
          else
            rbind (get_u32 buf) (\<lambda>(len, buf).
              let n = unat (scast len :: u64)
              in if length buf < n then Inl (Panic ''advance out of bounds'')
                 else Inr (rf, drop n buf)))"

fun pf_parse_loop :: "nat \<Rightarrow> pageserver_feedback \<Rightarrow> bytes \<Rightarrow> pageserver_feedback res" where
  "pf_parse_loop 0 rf buf = Inr rf"
| "pf_parse_loop (Suc n) rf buf =
     rbind (pf_parse_field rf buf) (\<lambda>(rf, buf). pf_parse_loop n rf buf)"

definition pf_parse :: "bytes \<Rightarrow> pageserver_feedback res" where
  "pf_parse buf = rbind (get_u8 buf) (\<lambda>(nfields, buf). pf_parse_loop (unat nfields) pf_empty buf)"

type_synonym timestamp_tz = u64

record hot_standby_feedback =
  hsf_ts :: timestamp_tz
  hsf_xmin :: u64
  hsf_catalog_xmin :: u64

definition hsf_empty :: hot_standby_feedback where
  "hsf_empty = \<lparr>hsf_ts = 0, hsf_xmin = 0, hsf_catalog_xmin = 0\<rparr>"

subsection \<open>Reading back a feedback message\<close>

text \<open>The times that survive the trip: not before the epoch, whole microseconds, in range.\<close>

definition pf_ok :: "pageserver_feedback \<Rightarrow> bool" where
  "pf_ok f \<longleftrightarrow> 0 \<le> pf_replytime f \<and> pf_replytime f mod 1000 = 0 \<and> pf_replytime f div 1000 < 2 ^ 63"

lemma read_cstr_field:
  "CHR 0x00 \<notin> set key \<Longrightarrow> read_cstr (as_bytes key @ 0 # r) = Inr (as_bytes key, r)"
  by (simp add: read_cstr_def split_nul_append zero_not_in_as_bytes)

lemma sized_put:
  "sized_u64 (put_u32 8 @ put_u64 v @ r) = Inr (v, r)"
  "sized_u32 (put_u32 4 @ put_u32 w @ r) = Inr (w, r)"
  by (simp_all add: sized_u64_def sized_u32_def codec_simps rassert_def)

lemma as_bytes_inject: "as_bytes a = as_bytes b \<longleftrightarrow> a = b"
  by (metis of_bytes_as_bytes)

lemma pf_parse_field_put:
  "pf_parse_field rf (pf_field ''current_timeline_size'' 8 (put_u64 v) @ r)
     = Inr (rf\<lparr>pf_current_timeline_size := v\<rparr>, r)"
  "pf_parse_field rf (pf_field ''ps_writelsn'' 8 (put_u64 v) @ r)
     = Inr (rf\<lparr>pf_last_received_lsn := v\<rparr>, r)"
  "pf_parse_field rf (pf_field ''ps_flushlsn'' 8 (put_u64 v) @ r)
     = Inr (rf\<lparr>pf_disk_consistent_lsn := v\<rparr>, r)"
  "pf_parse_field rf (pf_field ''ps_applylsn'' 8 (put_u64 v) @ r)
     = Inr (rf\<lparr>pf_remote_consistent_lsn := v\<rparr>, r)"
  "pf_parse_field rf (pf_field ''ps_replytime'' 8 (put_u64 v) @ r)
     = Inr (rf\<lparr>pf_replytime := raw_time_to_reply v\<rparr>, r)"
  "pf_parse_field rf (pf_field ''shard_number'' 4 (put_u32 w) @ r)
     = Inr (rf\<lparr>pf_shard_number := w\<rparr>, r)"
  by (simp_all add: pf_parse_field_def pf_field_def read_cstr_field sized_put as_bytes_inject)

lemma raw_time_round_trip:
  assumes "0 \<le> t" "t mod 1000 = 0" "t div 1000 < 2 ^ 63"
  shows "raw_time_to_reply (of_int (t div 1000)) = t"
proof -
  define m where "m = t div 1000"
  have m: "0 \<le> m" "m < 2 ^ 63" "t = m * 1000" using assms by (auto simp: m_def)
  have u: "uint (of_int m :: u64) = m"
    using m by (simp add: uint_word_of_int take_bit_eq_mod)
  have s: "sint (of_int m :: u64) = m"
    using m by (simp add: signed_of_int signed_take_bit_int_eq_self)
  show ?thesis
  proof (cases "m = 0")
    case True
    then show ?thesis using m by (simp add: raw_time_to_reply_def flip: m_def)
  next
    case False
    then show ?thesis using m u s by (simp add: raw_time_to_reply_def flip: m_def)
  qed
qed



end
