(* ===== verification/SafekeeperProto.thy ===== *)
theory SafekeeperProto
  imports Membership TermHistory Feedback
begin

text \<open>
  The messages between walproposer and safekeeper and their wire formats, from
  safekeeper/src/safekeeper.rs: \<open>ProposerAcceptorMessage\<close> with \<open>parse\<close> for the protocol versions 2
  and 3, and \<open>AcceptorProposerMessage\<close> with \<open>serialize\<close>. The fixed-layout structures of version 2 are
  decoded by the third-party crate bincode; those three decoders are the record \<open>v2_codec\<close>, an
  argument of \<open>parse\<close>, as is the hexadecimal decoder of the identifiers.
\<close>

definition SK_PROTO_VERSION_2 :: u32 where "SK_PROTO_VERSION_2 = 2"
definition SK_PROTO_VERSION_3 :: u32 where "SK_PROTO_VERSION_3 = 3"
definition MAX_SEND_SIZE :: nat where "MAX_SEND_SIZE = 131072"

subsection \<open>Messages\<close>

record proposer_greeting =
  pg_tenant_id :: id
  pg_timeline_id :: id
  pg_mconf :: configuration
  pg_pg_version :: u32
  pg_system_id :: u64
  pg_wal_seg_size :: u32

record proposer_greeting_v2 =
  pg2_protocol_version :: u32
  pg2_pg_version :: u32
  pg2_proposer_id :: bytes
  pg2_system_id :: u64
  pg2_timeline_id :: id
  pg2_tenant_id :: id
  pg2_tli :: u32
  pg2_wal_seg_size :: u32

record acceptor_greeting =
  ag_node_id :: node_id
  ag_mconf :: configuration
  ag_term :: term_no

record vote_request =
  vq_generation :: sk_generation
  vq_term :: term_no

record vote_response =
  vs_generation :: sk_generation
  vs_term :: term_no
  vs_vote_given :: bool
  vs_flush_lsn :: lsn
  vs_truncate_lsn :: lsn
  vs_term_history :: term_history

record proposer_elected =
  pe_generation :: sk_generation
  pe_term :: term_no
  pe_start_streaming_at :: lsn
  pe_term_history :: term_history

record append_request_header =
  ah_generation :: sk_generation
  ah_term :: term_no
  ah_begin_lsn :: lsn
  ah_end_lsn :: lsn
  ah_commit_lsn :: lsn
  ah_truncate_lsn :: lsn

record append_request_header_v2 =
  ah2_term :: term_no
  ah2_term_start_lsn :: lsn
  ah2_begin_lsn :: lsn
  ah2_end_lsn :: lsn
  ah2_commit_lsn :: lsn
  ah2_truncate_lsn :: lsn
  ah2_proposer_uuid :: bytes

record append_request =
  ar_h :: append_request_header
  ar_wal_data :: bytes

record append_response =
  ap_generation :: sk_generation
  ap_term :: term_no
  ap_flush_lsn :: lsn
  ap_commit_lsn :: lsn
  ap_hs_feedback :: hot_standby_feedback
  ap_pageserver_feedback :: "pageserver_feedback option"

definition append_response_term_only :: "sk_generation \<Rightarrow> term_no \<Rightarrow> append_response" where
  "append_response_term_only generation t =
     \<lparr>ap_generation = generation, ap_term = t, ap_flush_lsn = 0, ap_commit_lsn = 0,
      ap_hs_feedback = hsf_empty, ap_pageserver_feedback = None\<rparr>"

datatype proposer_acceptor_message =
    PGreeting proposer_greeting
  | PVoteRequest vote_request
  | PElected proposer_elected
  | PAppendRequest append_request
  | PNoFlushAppendRequest append_request
  | PFlushWAL

datatype acceptor_proposer_message =
    AGreeting acceptor_greeting
  | AVoteResponse vote_response
  | AAppendResponse append_response

subsection \<open>Reading a membership configuration\<close>

fun get_members :: "nat \<Rightarrow> member_set \<Rightarrow> bytes \<Rightarrow> (member_set \<times> bytes) res" where
  "get_members 0 members buf = Inr (members, buf)"
| "get_members (Suc n) members buf =
     rbind (ctx ''reading member node_id'' (get_u64_f buf)) (\<lambda>(nid, buf).
     rbind (ctx ''reading member host'' (get_cstr buf)) (\<lambda>(host, buf).
     rbind (ctx ''reading member port'' (get_u16_f buf)) (\<lambda>(pg_port, buf).
     rbind (member_set_add members \<lparr>ski_id = nid, ski_host = host, ski_pg_port = pg_port\<rparr>) (\<lambda>members.
     get_members n members buf))))"

definition get_mconf :: "bytes \<Rightarrow> (configuration \<times> bytes) res" where
  "get_mconf buf =
     rbind (ctx ''reading generation'' (get_u32_f buf)) (\<lambda>(generation, buf).
     rbind (ctx ''reading members_len'' (get_u32_f buf)) (\<lambda>(members_len, buf).
     if generation \<noteq> INVALID_GENERATION \<and> members_len = 0 then Inl (Bail ''empty members_len'')
     else rbind (get_members (unat members_len) member_set_empty buf) (\<lambda>(members, buf).
     rbind (ctx ''reading new_members_len'' (get_u32_f buf)) (\<lambda>(new_members_len, buf).
     if new_members_len = 0
     then Inr (\<lparr>cfg_generation = generation, cfg_members = members, cfg_new_members = None\<rparr>, buf)
     else rbind (get_members (unat new_members_len) member_set_empty buf) (\<lambda>(new_members, buf).
       Inr (\<lparr>cfg_generation = generation, cfg_members = members,
             cfg_new_members = Some new_members\<rparr>, buf))))))"

subsection \<open>Parsing proposer messages\<close>

text \<open>Version 3, one definition per tag.\<close>

definition parse_v3_greeting :: "hex_decode \<Rightarrow> bytes \<Rightarrow> proposer_acceptor_message res" where
  "parse_v3_greeting hx buf =
     rbind (ctx ''reading tenant_id'' (get_cstr buf)) (\<lambda>(tenant_id_str, buf).
     rbind (id_from_hex hx tenant_id_str) (\<lambda>tenant_id.
     rbind (ctx ''reading timeline_id'' (get_cstr buf)) (\<lambda>(timeline_id_str, buf).
     rbind (id_from_hex hx timeline_id_str) (\<lambda>timeline_id.
     rbind (get_mconf buf) (\<lambda>(mconf, buf).
     rbind (ctx ''reading pg_version'' (get_u32_f buf)) (\<lambda>(pg_version, buf).
     rbind (ctx ''reading system_id'' (get_u64_f buf)) (\<lambda>(system_id, buf).
     rbind (ctx ''reading wal_seg_size'' (get_u32_f buf)) (\<lambda>(wal_seg_size, buf).
     Inr (PGreeting \<lparr>pg_tenant_id = tenant_id, pg_timeline_id = timeline_id, pg_mconf = mconf,
       pg_pg_version = pg_version, pg_system_id = system_id, pg_wal_seg_size = wal_seg_size\<rparr>)))))))))"

definition parse_v3_vote :: "bytes \<Rightarrow> proposer_acceptor_message res" where
  "parse_v3_vote buf =
     rbind (ctx ''reading generation'' (get_u32_f buf)) (\<lambda>(generation, buf).
     rbind (ctx ''reading term'' (get_u64_f buf)) (\<lambda>(t, buf).
     Inr (PVoteRequest \<lparr>vq_generation = generation, vq_term = t\<rparr>)))"

definition parse_v3_elected :: "bytes \<Rightarrow> proposer_acceptor_message res" where
  "parse_v3_elected buf =
     rbind (ctx ''reading generation'' (get_u32_f buf)) (\<lambda>(generation, buf).
     rbind (ctx ''reading term'' (get_u64_f buf)) (\<lambda>(t, buf).
     rbind (ctx ''reading start_streaming_at'' (get_u64_f buf)) (\<lambda>(start_streaming_at, buf).
     rbind (th_from_bytes buf) (\<lambda>(th, buf).
     Inr (PElected \<lparr>pe_generation = generation, pe_term = t,
       pe_start_streaming_at = start_streaming_at, pe_term_history = th\<rparr>)))))"

text \<open>The size of the WAL carried by an append request, checked against \<open>MAX_SEND_SIZE\<close>.\<close>

definition append_rec_size :: "append_request_header \<Rightarrow> nat res" where
  "append_rec_size hdr =
     (case lsn_checked_sub (ah_end_lsn hdr) (ah_begin_lsn hdr) of
        None \<Rightarrow> Inl (Bail ''begin_lsn > end_lsn in AppendRequest'')
      | Some n \<Rightarrow>
          if unat n > MAX_SEND_SIZE then Inl (Bail ''AppendRequest is longer than MAX_SEND_SIZE'')
          else Inr (unat n))"

definition parse_v3_append :: "bytes \<Rightarrow> proposer_acceptor_message res" where
  "parse_v3_append buf =
     rbind (ctx ''reading generation'' (get_u32_f buf)) (\<lambda>(generation, buf).
     rbind (ctx ''reading term'' (get_u64_f buf)) (\<lambda>(t, buf).
     rbind (ctx ''reading begin_lsn'' (get_u64_f buf)) (\<lambda>(begin_lsn, buf).
     rbind (ctx ''reading end_lsn'' (get_u64_f buf)) (\<lambda>(end_lsn, buf).
     rbind (ctx ''reading commit_lsn'' (get_u64_f buf)) (\<lambda>(commit_lsn, buf).
     rbind (ctx ''reading truncate_lsn'' (get_u64_f buf)) (\<lambda>(truncate_lsn, buf).
     let hdr = \<lparr>ah_generation = generation, ah_term = t, ah_begin_lsn = begin_lsn,
                ah_end_lsn = end_lsn, ah_commit_lsn = commit_lsn, ah_truncate_lsn = truncate_lsn\<rparr>
     in rbind (append_rec_size hdr) (\<lambda>rec_size.
     if length buf < rec_size then Inl (Bail ''reading WAL: not enough bytes left'')
     else Inr (PAppendRequest \<lparr>ar_h = hdr, ar_wal_data = take rec_size buf\<rparr>))))))))"

definition parse_v3 :: "hex_decode \<Rightarrow> bytes \<Rightarrow> proposer_acceptor_message res" where
  "parse_v3 hx buf =
     (if buf = [] then Inl (Bail ''ProposerAcceptorMessage is not complete: missing tag'')
      else rbind (ctx ''ProposerAcceptorMessage is not complete: missing tag'' (get_u8_f buf)) (\<lambda>(tag, buf).
        let tag = char_of (unat tag)
        in if tag = CHR ''g'' then parse_v3_greeting hx buf
           else if tag = CHR ''v'' then parse_v3_vote buf
           else if tag = CHR ''e'' then parse_v3_elected buf
           else if tag = CHR ''a'' then parse_v3_append buf
           else Inl (Bail ''unknown proposer-acceptor message tag'')))"

text \<open>Version 2: little-endian, no generations, structures decoded by bincode from the front of the
  stream.\<close>

record v2_codec =
  des_greeting_v2 :: "bytes \<Rightarrow> (proposer_greeting_v2 \<times> bytes) option"
  des_vote_v2 :: "bytes \<Rightarrow> (term_no \<times> bytes) option"
  des_append_v2 :: "bytes \<Rightarrow> (append_request_header_v2 \<times> bytes) option"

definition des_from :: "(bytes \<Rightarrow> ('a \<times> bytes) option) \<Rightarrow> bytes \<Rightarrow> ('a \<times> bytes) res" where
  "des_from des buf = (case des buf of None \<Rightarrow> Inl (Bail ''deserialize error'') | Some r \<Rightarrow> Inr r)"

definition parse_v2_greeting :: "v2_codec \<Rightarrow> bytes \<Rightarrow> proposer_acceptor_message res" where
  "parse_v2_greeting bc buf =
     rbind (des_from (des_greeting_v2 bc) buf) (\<lambda>(msgv2, buf).
     Inr (PGreeting \<lparr>pg_tenant_id = pg2_tenant_id msgv2, pg_timeline_id = pg2_timeline_id msgv2,
       pg_mconf = \<lparr>cfg_generation = INVALID_GENERATION, cfg_members = member_set_empty,
                   cfg_new_members = None\<rparr>,
       pg_pg_version = pg2_pg_version msgv2, pg_system_id = pg2_system_id msgv2,
       pg_wal_seg_size = pg2_wal_seg_size msgv2\<rparr>))"

definition parse_v2_vote :: "v2_codec \<Rightarrow> bytes \<Rightarrow> proposer_acceptor_message res" where
  "parse_v2_vote bc buf =
     rbind (des_from (des_vote_v2 bc) buf) (\<lambda>(t, buf).
     Inr (PVoteRequest \<lparr>vq_generation = INVALID_GENERATION, vq_term = t\<rparr>))"

definition parse_v2_elected :: "bytes \<Rightarrow> proposer_acceptor_message res" where
  "parse_v2_elected buf =
     (if length buf < 16 then Inl (Bail ''ProposerElected message is not complete'')
      else
        rbind (get_u64_le buf) (\<lambda>(t, buf).
        rbind (get_u64_le buf) (\<lambda>(start_streaming_at, buf).
        rbind (th_from_bytes_le buf) (\<lambda>(th, buf).
        if length buf < 8 then Inl (Bail ''ProposerElected message is not complete'')
        else rbind (get_u64_le buf) (\<lambda>(timeline_start_lsn, buf).
        Inr (PElected \<lparr>pe_generation = INVALID_GENERATION, pe_term = t,
          pe_start_streaming_at = start_streaming_at, pe_term_history = th\<rparr>))))))"

definition parse_v2_append :: "v2_codec \<Rightarrow> bytes \<Rightarrow> proposer_acceptor_message res" where
  "parse_v2_append bc buf =
     rbind (des_from (des_append_v2 bc) buf) (\<lambda>(hdrv2, buf).
     let hdr = \<lparr>ah_generation = INVALID_GENERATION, ah_term = ah2_term hdrv2,
                ah_begin_lsn = ah2_begin_lsn hdrv2, ah_end_lsn = ah2_end_lsn hdrv2,
                ah_commit_lsn = ah2_commit_lsn hdrv2, ah_truncate_lsn = ah2_truncate_lsn hdrv2\<rparr>
     in rbind (append_rec_size hdr) (\<lambda>rec_size.
     if length buf < rec_size then Inl (Io ''failed to fill whole buffer'')
     else Inr (PAppendRequest \<lparr>ar_h = hdr, ar_wal_data = take rec_size buf\<rparr>)))"

definition parse_v2 :: "v2_codec \<Rightarrow> bytes \<Rightarrow> proposer_acceptor_message res" where
  "parse_v2 bc buf =
     (if length buf < 8 then Inl (Io ''failed to fill whole buffer'')
      else rbind (get_u64_le buf) (\<lambda>(tag, buf).
        let tag = char_of (unat (ucast tag :: u8))
        in if tag = CHR ''g'' then parse_v2_greeting bc buf
           else if tag = CHR ''v'' then parse_v2_vote bc buf
           else if tag = CHR ''e'' then parse_v2_elected buf
           else if tag = CHR ''a'' then parse_v2_append bc buf
           else Inl (Bail ''unknown proposer-acceptor message tag'')))"

definition parse ::
  "hex_decode \<Rightarrow> v2_codec \<Rightarrow> bytes \<Rightarrow> u32 \<Rightarrow> proposer_acceptor_message res" where
  "parse hx bc msg_bytes proto_version =
     (if proto_version = SK_PROTO_VERSION_3 then parse_v3 hx msg_bytes
      else if proto_version = SK_PROTO_VERSION_2 then parse_v2 bc msg_bytes
      else Inl (Bail ''unsupported protocol version''))"

text \<open>\<open>size\<close>: the in-memory size of the enumeration, a constant of the compiler, is the argument
  \<open>base_size\<close>.\<close>

fun message_size :: "nat \<Rightarrow> proposer_acceptor_message \<Rightarrow> nat" where
  "message_size base_size (PAppendRequest m) = base_size + length (ar_wal_data m)"
| "message_size base_size (PNoFlushAppendRequest m) = base_size + length (ar_wal_data m)"
| "message_size base_size _ = base_size"

subsection \<open>Serializing acceptor messages\<close>

definition serialize_member :: "safekeeper_id \<Rightarrow> bytes" where
  "serialize_member sk = put_u64 (ski_id sk) @ put_cstr (ski_host sk) @ put_u16 (ski_pg_port sk)"

definition serialize_mconf :: "configuration \<Rightarrow> bytes" where
  "serialize_mconf mconf =
     put_u32 (cfg_generation mconf)
     @ put_u32 (of_nat (length (ms_m (cfg_members mconf))))
     @ concat (map serialize_member (ms_m (cfg_members mconf)))
     @ (case cfg_new_members mconf of
          Some new_members \<Rightarrow> put_u32 (of_nat (length (ms_m new_members)))
            @ concat (map serialize_member (ms_m new_members))
        | None \<Rightarrow> put_u32 0)"

definition put_tag :: "char \<Rightarrow> bytes" where
  "put_tag c = put_u8 (of_nat (of_char c))"

definition put_tag_le :: "char \<Rightarrow> bytes" where
  "put_tag_le c = put_u64_le (of_nat (of_char c))"

definition serialize_feedback :: "pageserver_feedback option \<Rightarrow> bytes res" where
  "serialize_feedback f = (case f of None \<Rightarrow> Inr [] | Some m \<Rightarrow> pf_serialize m)"

fun serialize_v3 :: "acceptor_proposer_message \<Rightarrow> bytes res" where
  "serialize_v3 (AGreeting msg) =
     Inr (put_tag (CHR ''g'') @ put_u64 (ag_node_id msg) @ serialize_mconf (ag_mconf msg)
       @ put_u64 (ag_term msg))"
| "serialize_v3 (AVoteResponse msg) =
     Inr (put_tag (CHR ''v'') @ put_u32 (vs_generation msg) @ put_u64 (vs_term msg)
       @ put_u8 (if vs_vote_given msg then 1 else 0) @ put_u64 (vs_flush_lsn msg)
       @ put_u64 (vs_truncate_lsn msg) @ put_history (vs_term_history msg))"
| "serialize_v3 (AAppendResponse msg) =
     rbind (serialize_feedback (ap_pageserver_feedback msg)) (\<lambda>fb.
     Inr (put_tag (CHR ''a'') @ put_u32 (ap_generation msg) @ put_u64 (ap_term msg)
       @ put_u64 (ap_flush_lsn msg) @ put_u64 (ap_commit_lsn msg)
       @ put_u64 (hsf_ts (ap_hs_feedback msg)) @ put_u64 (hsf_xmin (ap_hs_feedback msg))
       @ put_u64 (hsf_catalog_xmin (ap_hs_feedback msg)) @ fb))"

fun serialize_v2 :: "acceptor_proposer_message \<Rightarrow> bytes res" where
  "serialize_v2 (AGreeting msg) =
     Inr (put_tag_le (CHR ''g'') @ put_u64_le (ag_term msg) @ put_u64_le (ag_node_id msg))"
| "serialize_v2 (AVoteResponse msg) =
     Inr (put_tag_le (CHR ''v'') @ put_u64_le (vs_term msg)
       @ put_u64_le (if vs_vote_given msg then 1 else 0) @ put_u64_le (vs_flush_lsn msg)
       @ put_u64_le (vs_truncate_lsn msg) @ put_history_le (vs_term_history msg) @ put_u64_le 0)"
| "serialize_v2 (AAppendResponse msg) =
     rbind (serialize_feedback (ap_pageserver_feedback msg)) (\<lambda>fb.
     Inr (put_tag_le (CHR ''a'') @ put_u64_le (ap_term msg)
       @ put_u64_le (ap_flush_lsn msg) @ put_u64_le (ap_commit_lsn msg)
       @ put_u64_le (hsf_ts (ap_hs_feedback msg)) @ put_u64_le (hsf_xmin (ap_hs_feedback msg))
       @ put_u64_le (hsf_catalog_xmin (ap_hs_feedback msg)) @ fb))"

definition serialize :: "acceptor_proposer_message \<Rightarrow> u32 \<Rightarrow> bytes res" where
  "serialize self proto_version =
     (if proto_version = SK_PROTO_VERSION_3 then serialize_v3 self
      else if proto_version = SK_PROTO_VERSION_2 then serialize_v2 self
      else Inl (Bail ''unsupported protocol version''))"

subsection \<open>A configuration survives the wire\<close>

definition member_set_fits :: "member_set \<Rightarrow> bool" where
  "member_set_fits ms \<longleftrightarrow> member_set_ok ms \<and> length (ms_m ms) < 2 ^ 32 \<and>
     list_all (\<lambda>sk. cstr_ok (ski_host sk)) (ms_m ms)"

text \<open>The configurations that can be sent: a valid generation has members, and the second member
  set, when present, is not empty (an empty one is written as if it were absent).\<close>

definition mconf_ok :: "configuration \<Rightarrow> bool" where
  "mconf_ok c \<longleftrightarrow> member_set_fits (cfg_members c) \<and>
     (cfg_generation c = INVALID_GENERATION \<or> ms_m (cfg_members c) \<noteq> []) \<and>
     (case cfg_new_members c of None \<Rightarrow> True | Some m \<Rightarrow> member_set_fits m \<and> ms_m m \<noteq> [])"

lemma get_members_Suc_put:
  assumes "cstr_ok (ski_host x)"
  shows "get_members (Suc n) acc (serialize_member x @ r)
    = rbind (member_set_add acc x) (\<lambda>members. get_members n members r)"
  using assms by (cases x) (simp add: serialize_member_def codec_simps)

lemma get_members_put:
  "member_set_ok \<lparr>ms_m = ms_m acc @ xs\<rparr> \<Longrightarrow> list_all (\<lambda>sk. cstr_ok (ski_host sk)) xs \<Longrightarrow>
   get_members (length xs) acc (concat (map serialize_member xs) @ r)
     = Inr (\<lparr>ms_m = ms_m acc @ xs\<rparr>, r)"
proof (induction xs arbitrary: acc)
  case Nil
  then show ?case by simp
next
  case (Cons x xs)
  have "member_set_add acc x = Inr \<lparr>ms_m = ms_m acc @ [x]\<rparr>"
    using Cons.prems(1) by (auto simp: member_set_add_iff member_set_ok_def)
  then show ?case
    using Cons.prems Cons.IH [of "\<lparr>ms_m = ms_m acc @ [x]\<rparr>"]
    by (simp add: get_members_Suc_put del: get_members.simps(2))
qed

lemma unat_len32: "n < 2 ^ 32 \<Longrightarrow> unat (of_nat n :: u32) = n"
  by (simp add: unat_of_nat take_bit_eq_mod)

lemma len32_eq_0: "n < 2 ^ 32 \<Longrightarrow> (of_nat n :: u32) = 0 \<longleftrightarrow> n = 0"
  using unat_len32 [of n] by (auto simp: word_unat_eq_iff)

lemma get_members_set:
  "member_set_fits ms \<Longrightarrow>
   get_members (length (ms_m ms)) member_set_empty (concat (map serialize_member (ms_m ms)) @ r)
     = Inr (ms, r)"
  using get_members_put [of member_set_empty "ms_m ms" r]
  by (cases ms) (simp add: member_set_fits_def member_set_empty_def)

interpretation mconf: codec serialize_mconf get_mconf mconf_ok
proof
  fix c rest
  assume c: "mconf_ok c"
  then have m: "member_set_fits (cfg_members c)" by (simp add: mconf_ok_def)
  have n: "length (ms_m (cfg_members c)) < 2 ^ 32" using m by (simp add: member_set_fits_def)
  show "get_mconf (serialize_mconf c @ rest) = Inr (c, rest)"
  proof (cases "cfg_new_members c")
    case None
    then show ?thesis
      using c n
      by (auto simp: get_mconf_def serialize_mconf_def codec_simps unat_len32 len32_eq_0 mconf_ok_def
          get_members_set [OF m])
  next
    case (Some nm)
    then have f: "member_set_fits nm" "ms_m nm \<noteq> []" "length (ms_m nm) < 2 ^ 32"
      using c by (auto simp: mconf_ok_def member_set_fits_def)
    then show ?thesis
      using c n Some
      by (auto simp: get_mconf_def serialize_mconf_def codec_simps unat_len32 len32_eq_0 mconf_ok_def
          get_members_set [OF m] get_members_set [OF f(1)])
  qed
qed

subsection \<open>Malformed input is an error, never a panic\<close>

lemma member_set_add_no_panic [no_panic_intros]: "no_panic (member_set_add ms sk)"
  by (simp add: no_panic_def member_set_add_def)

lemma get_members_no_panic [no_panic_intros]: "no_panic (get_members n ms bs)"
  by (induction n arbitrary: ms bs) (auto intro!: no_panic_intros)

lemma get_mconf_no_panic [no_panic_intros]: "no_panic (get_mconf bs)"
  unfolding get_mconf_def by (intro no_panic_intros)

lemma from_bytes_loop_no_panic [no_panic_intros]: "no_panic (from_bytes_loop n bs)"
  by (induction n arbitrary: bs) (auto intro!: no_panic_intros)

lemma th_from_bytes_no_panic [no_panic_intros]: "no_panic (th_from_bytes bs)"
  unfolding th_from_bytes_def by (intro no_panic_intros)

lemma from_bytes_le_loop_no_panic [no_panic_intros]: "no_panic (from_bytes_le_loop n bs)"
  by (induction n arbitrary: bs)
    (auto intro!: no_panic_intros get_le_no_panic dest: get_u64_le_Inr)

lemma th_from_bytes_le_no_panic [no_panic_intros]: "no_panic (th_from_bytes_le bs)"
  unfolding th_from_bytes_le_def by (auto intro!: no_panic_intros get_le_no_panic)

lemma id_from_hex_no_panic [no_panic_intros]: "no_panic (id_from_hex hx s)"
  unfolding id_from_hex_def by (intro no_panic_intros)

lemma des_from_no_panic [no_panic_intros]: "no_panic (des_from d bs)"
  unfolding des_from_def by (intro no_panic_intros)

lemma append_rec_size_no_panic [no_panic_intros]: "no_panic (append_rec_size h)"
  unfolding append_rec_size_def by (intro no_panic_intros)

lemma parse_v3_no_panic: "no_panic (parse_v3 hx bs)"
  unfolding parse_v3_def parse_v3_greeting_def parse_v3_vote_def parse_v3_elected_def
    parse_v3_append_def Let_def
  by (intro no_panic_intros)

lemma parse_v2_no_panic: "no_panic (parse_v2 bc bs)"
  unfolding parse_v2_def parse_v2_greeting_def parse_v2_vote_def parse_v2_elected_def
    parse_v2_append_def Let_def
  by (intro no_panic_intros get_le_no_panic) (auto dest: get_u64_le_Inr)

lemma append_rec_size_Inr:
  "append_rec_size h = Inr n \<Longrightarrow>
     ah_begin_lsn h \<le> ah_end_lsn h \<and> n = unat (ah_end_lsn h) - unat (ah_begin_lsn h) \<and> n \<le> MAX_SEND_SIZE"
  by (auto simp: append_rec_size_def lsn_checked_sub_def checked_sub_Some unat_sub
      split: option.splits if_splits)

text \<open>C31: the parser of proposer messages is total on untrusted input: for every buffer, every
  protocol version and every behaviour of the external decoders it returns a message or an error
  and never panics; and the WAL of a parsed append request is exactly the bytes between its begin
  and end positions, at most \<open>MAX_SEND_SIZE\<close> of them, and it is never a no-flush request.\<close>

theorem parse_total:
  "no_panic (parse hx bc bs v) \<and>
   (case parse hx bc bs v of
      Inr (PAppendRequest m) \<Rightarrow>
        unat (ah_end_lsn (ar_h m)) = unat (ah_begin_lsn (ar_h m)) + length (ar_wal_data m)
        \<and> length (ar_wal_data m) \<le> MAX_SEND_SIZE
    | Inr (PNoFlushAppendRequest m) \<Rightarrow> False
    | Inr PFlushWAL \<Rightarrow> False
    | _ \<Rightarrow> True)"
proof
  show "no_panic (parse hx bc bs v)"
    unfolding parse_def by (intro no_panic_intros parse_v3_no_panic parse_v2_no_panic)
  have le: "append_rec_size h = Inr n \<Longrightarrow>
      unat (ah_end_lsn h) = unat (ah_begin_lsn h) + n \<and> n \<le> MAX_SEND_SIZE" for h n
    by (drule append_rec_size_Inr) (simp add: word_le_nat_alt)
  have "parse hx bc bs v = Inr x \<Longrightarrow> (case x of
      PAppendRequest m \<Rightarrow>
        unat (ah_end_lsn (ar_h m)) = unat (ah_begin_lsn (ar_h m)) + length (ar_wal_data m)
        \<and> length (ar_wal_data m) \<le> MAX_SEND_SIZE
    | PNoFlushAppendRequest m \<Rightarrow> False | PFlushWAL \<Rightarrow> False | _ \<Rightarrow> True)" for x
    by (auto simp: parse_def parse_v3_def parse_v2_def parse_v3_greeting_def parse_v3_vote_def
        parse_v3_elected_def parse_v3_append_def parse_v2_greeting_def parse_v2_vote_def
        parse_v2_elected_def parse_v2_append_def Let_def monad_simps split: if_splits prod.splits
        dest!: le)
  then show "case parse hx bc bs v of
      Inr (PAppendRequest m) \<Rightarrow>
        unat (ah_end_lsn (ar_h m)) = unat (ah_begin_lsn (ar_h m)) + length (ar_wal_data m)
        \<and> length (ar_wal_data m) \<le> MAX_SEND_SIZE
    | Inr (PNoFlushAppendRequest m) \<Rightarrow> False | Inr PFlushWAL \<Rightarrow> False | _ \<Rightarrow> True"
    by (auto split: sum.splits proposer_acceptor_message.splits)
qed

text \<open>C33: a membership configuration with distinct members, hosts without zero bytes and a
  non-empty second set (if it has one) is read back unchanged from its wire form, whatever
  follows it in the buffer.\<close>

theorem mconf_round_trip:
  assumes "mconf_ok c"
  shows "get_mconf (serialize_mconf c @ rest) = Inr (c, rest)"
  using assms by (rule mconf.dec_enc)

theorem mconf_round_trip_witness:
  "get_mconf (serialize_mconf
     \<lparr>cfg_generation = 4, cfg_members = \<lparr>ms_m = [\<lparr>ski_id = 1, ski_host = ''a'', ski_pg_port = 5454\<rparr>,
        \<lparr>ski_id = 2, ski_host = ''b'', ski_pg_port = 5455\<rparr>]\<rparr>,
      cfg_new_members = Some \<lparr>ms_m = [\<lparr>ski_id = 3, ski_host = ''c'', ski_pg_port = 1\<rparr>]\<rparr>\<rparr> @ [7])
   = Inr (\<lparr>cfg_generation = 4, cfg_members = \<lparr>ms_m = [\<lparr>ski_id = 1, ski_host = ''a'', ski_pg_port = 5454\<rparr>,
        \<lparr>ski_id = 2, ski_host = ''b'', ski_pg_port = 5455\<rparr>]\<rparr>,
      cfg_new_members = Some \<lparr>ms_m = [\<lparr>ski_id = 3, ski_host = ''c'', ski_pg_port = 1\<rparr>]\<rparr>\<rparr>, [7])"
  by (rule mconf_round_trip)
    (simp add: mconf_ok_def member_set_fits_def member_set_ok_def cstr_ok_def as_bytes_def)

end
