(* ===== verification/Safekeeper.thy ===== *)
theory Safekeeper
  imports TimelineState SafekeeperProto
begin

text \<open>
  The acceptor of the consensus protocol, \<open>SafeKeeper\<close> of safekeeper/src/safekeeper.rs: the state
  and one action per handler, composed by \<open>process_msg\<close>. The structure is generic over the traits
  \<open>control_file::Storage\<close> and \<open>wal_storage::Storage\<close>; their implementations are the records \<open>C\<close> and
  \<open>W\<close> of operations. What a handler does when a storage operation fails part-way is what the
  source does: it returns the error and keeps the state the storage left.

  The locale \<open>wal_store\<close> is the contract of the WAL storage: \<open>wal_inv\<close> holds between successful
  operations, \<open>wal_dirty\<close> is what remains after a failed one until the next truncation.
\<close>

text \<open>The trait \<open>wal_storage::Storage\<close>.\<close>

record 'w wal_storage =
  wl_write_lsn :: "'w \<Rightarrow> lsn"
  wl_flush_lsn :: "'w \<Rightarrow> lsn"
  wl_initialize_first_segment :: "lsn \<Rightarrow> ('w, unit) act"
  wl_write_wal :: "lsn \<Rightarrow> bytes \<Rightarrow> ('w, unit) act"
  wl_truncate_wal :: "lsn \<Rightarrow> ('w, unit) act"
  wl_flush_wal :: "('w, unit) act"

record ('c, 'w) safekeeper =
  sk_term_start_lsn :: lsn
  sk_state :: "'c timeline_state"
  sk_wal_store :: 'w
  sk_node_id :: node_id

definition on_state :: "('c timeline_state, 'a) act \<Rightarrow> (('c, 'w) safekeeper, 'a) act" where
  "on_state m sk = (case m (sk_state sk) of (r, s) \<Rightarrow> (r, sk\<lparr>sk_state := s\<rparr>))"

definition on_wal :: "('w, 'a) act \<Rightarrow> (('c, 'w) safekeeper, 'a) act" where
  "on_wal m sk = (case m (sk_wal_store sk) of (r, w) \<Rightarrow> (r, sk\<lparr>sk_wal_store := w\<rparr>))"

abbreviation sk_pers :: "'c ctrl_storage \<Rightarrow> ('c, 'w) safekeeper \<Rightarrow> timeline_persistent_state" where
  "sk_pers C sk \<equiv> pers C (sk_state sk)"

abbreviation sk_term :: "'c ctrl_storage \<Rightarrow> ('c, 'w) safekeeper \<Rightarrow> term_no" where
  "sk_term C sk \<equiv> as_term (ps_acceptor_state (sk_pers C sk))"

abbreviation sk_generation_of :: "'c ctrl_storage \<Rightarrow> ('c, 'w) safekeeper \<Rightarrow> sk_generation" where
  "sk_generation_of C sk \<equiv> cfg_generation (ps_mconf (sk_pers C sk))"

abbreviation sk_commit :: "('c, 'w) safekeeper \<Rightarrow> lsn" where
  "sk_commit sk \<equiv> im_commit_lsn (ts_inmem (sk_state sk))"

definition safekeeper_new ::
  "'c ctrl_storage \<Rightarrow> 'c timeline_state \<Rightarrow> 'w \<Rightarrow> node_id \<Rightarrow> ('c, 'w) safekeeper res" where
  "safekeeper_new C state wal_store nid =
     (if ps_tenant_id (pers C state) = id_zero \<or> ps_timeline_id (pers C state) = id_zero
      then Inl (Bail ''Calling SafeKeeper::new with empty tenant_id or timeline_id'')
      else Inr \<lparr>sk_term_start_lsn = 0, sk_state = state, sk_wal_store = wal_store, sk_node_id = nid\<rparr>)"

definition sk_flush_lsn :: "'c ctrl_storage \<Rightarrow> 'w wal_storage \<Rightarrow> ('c, 'w) safekeeper \<Rightarrow> lsn" where
  "sk_flush_lsn C W self =
     max (wl_flush_lsn W (sk_wal_store self)) (ps_timeline_start_lsn (sk_pers C self))"

definition get_term_history ::
  "'c ctrl_storage \<Rightarrow> 'w wal_storage \<Rightarrow> ('c, 'w) safekeeper \<Rightarrow> term_history" where
  "get_term_history C W self =
     up_to (as_term_history (ps_acceptor_state (sk_pers C self))) (sk_flush_lsn C W self)"

definition get_last_log_term ::
  "'c ctrl_storage \<Rightarrow> 'w wal_storage \<Rightarrow> ('c, 'w) safekeeper \<Rightarrow> term_no" where
  "get_last_log_term C W self =
     as_get_last_log_term (ps_acceptor_state (sk_pers C self)) (sk_flush_lsn C W self)"

subsection \<open>Handlers\<close>

type_synonym ('c, 'w) handler = "(('c, 'w) safekeeper, acceptor_proposer_message option) act"

definition greeting_state ::
  "proposer_greeting \<Rightarrow> timeline_persistent_state \<Rightarrow> timeline_persistent_state" where
  "greeting_state msg state =
     (let server = (ps_server state)\<lparr>si_system_id := pg_system_id msg\<rparr>
      in state\<lparr>ps_server := (if pg_pg_version msg \<noteq> UNKNOWN_SERVER_VERSION
                            then server\<lparr>si_pg_version := pg_pg_version msg\<rparr> else server)\<rparr>)"

definition handle_greeting ::
  "'c ctrl_storage \<Rightarrow> proposer_greeting \<Rightarrow> ('c, 'w) handler" where
  "handle_greeting C msg self =
     (let server = ps_server (sk_pers C self)
      in if pg_pg_version msg div 10000 \<noteq> si_pg_version server div 10000
            \<and> si_pg_version server \<noteq> UNKNOWN_SERVER_VERSION
         then (Inl (Bail ''incompatible server version''), self)
         else if pg_tenant_id msg \<noteq> ps_tenant_id (sk_pers C self)
         then (Inl (Bail ''invalid tenant ID''), self)
         else if pg_timeline_id msg \<noteq> ps_timeline_id (sk_pers C self)
         then (Inl (Bail ''invalid timeline ID''), self)
         else if si_wal_seg_size server \<noteq> pg_wal_seg_size msg
         then (Inl (Bail ''invalid wal_seg_size''), self)
         else
           abind
             (\<lambda>self.
                if si_system_id server \<noteq> pg_system_id msg \<and> pg_system_id msg \<noteq> 0
                then on_state (finish_change C (greeting_state msg (start_change C (sk_state self)))) self
                else (Inr (), self))
             (\<lambda>_. abind (on_state (membership_switch C (pg_mconf msg)))
             (\<lambda>_ self. (Inr (Some (AGreeting \<lparr>ag_node_id = sk_node_id self,
                 ag_mconf = ps_mconf (sk_pers C self), ag_term = sk_term C self\<rparr>)), self)))
             self)"

definition handle_vote_request ::
  "'c ctrl_storage \<Rightarrow> 'w wal_storage \<Rightarrow> vote_request \<Rightarrow> ('c, 'w) handler" where
  "handle_vote_request C W msg self =
     (if sk_generation_of C self \<noteq> vq_generation msg
      then (Inl (Bail ''refusing VoteRequest due to generation mismatch''), self)
      else
        abind (on_wal (wl_flush_wal W)) (\<lambda>_ self.
          let resp = \<lparr>vs_generation = sk_generation_of C self, vs_term = sk_term C self,
                vs_vote_given = False, vs_flush_lsn = sk_flush_lsn C W self,
                vs_truncate_lsn = im_peer_horizon_lsn (ts_inmem (sk_state self)),
                vs_term_history = get_term_history C W self\<rparr>
          in if sk_term C self < vq_term msg then
               abind
                 (on_state (finish_change C (set_term (vq_term msg) (start_change C (sk_state self)))))
                 (\<lambda>_ self. (Inr (Some (AVoteResponse
                    (resp\<lparr>vs_term := sk_term C self, vs_vote_given := True\<rparr>))), self))
                 self
             else (Inr (Some (AVoteResponse resp)), self))
        self)"

definition append_response ::
  "'c ctrl_storage \<Rightarrow> 'w wal_storage \<Rightarrow> ('c, 'w) safekeeper \<Rightarrow> append_response" where
  "append_response C W self =
     \<lparr>ap_generation = sk_generation_of C self, ap_term = sk_term C self,
      ap_flush_lsn = sk_flush_lsn C W self, ap_commit_lsn = ps_commit_lsn (sk_pers C self),
      ap_hs_feedback = hsf_empty, ap_pageserver_feedback = None\<rparr>"

text \<open>\<open>handle_elected\<close> in the four parts of its body: adopting the term, the common point with its
  checks, the truncation, and the adoption of the history.\<close>

definition elected_adopt_term :: "'c ctrl_storage \<Rightarrow> proposer_elected \<Rightarrow> (('c, 'w) safekeeper, unit) act" where
  "elected_adopt_term C msg self =
     (if sk_term C self < pe_term msg
      then on_state (finish_change C (set_term (pe_term msg) (start_change C (sk_state self)))) self
      else (Inr (), self))"

definition elected_check ::
  "'c ctrl_storage \<Rightarrow> 'w wal_storage \<Rightarrow> proposer_elected \<Rightarrow> ('c, 'w) safekeeper \<Rightarrow> unit res" where
  "elected_check C W msg self =
     rbind (find_highest_common_point (pe_term_history msg) (get_term_history C W self)
              (sk_flush_lsn C W self)) (\<lambda>lcp.
     rbind (case lcp of
              None \<Rightarrow> (case pe_term_history msg of
                 [] \<Rightarrow> Inl (Bail ''empty walproposer term history'') | e # _ \<Rightarrow> Inr e)
            | Some lcp \<Rightarrow> Inr lcp) (\<lambda>last_common_point.
     if tl_lsn last_common_point \<noteq> pe_start_streaming_at msg
     then Inl (Bail ''refusing ProposerElected with unexpected truncation point'')
     else rassert (pe_start_streaming_at msg \<ge> sk_commit self)
            ''attempt to truncate committed data''))"

definition elected_truncate :: "'w wal_storage \<Rightarrow> proposer_elected \<Rightarrow> (('c, 'w) safekeeper, unit) act" where
  "elected_truncate W msg =
     abind (\<lambda>self. if wl_flush_lsn W (sk_wal_store self) = lsn_INVALID
              then on_wal (wl_initialize_first_segment W (pe_start_streaming_at msg)) self
              else (Inr (), self))
       (\<lambda>_. on_wal (wl_truncate_wal W (pe_start_streaming_at msg)))"

definition elected_state :: "proposer_elected \<Rightarrow> timeline_persistent_state \<Rightarrow> timeline_persistent_state" where
  "elected_state msg state =
     (let state = (case pe_term_history msg of
            [] \<Rightarrow> state
          | start_lsn # _ \<Rightarrow> if ps_timeline_start_lsn state = 0
                             then state\<lparr>ps_timeline_start_lsn := tl_lsn start_lsn\<rparr> else state);
          state = (if ps_peer_horizon_lsn state = 0
                   then state\<lparr>ps_peer_horizon_lsn := ps_timeline_start_lsn state\<rparr> else state);
          state = (if ps_local_start_lsn state = 0
                   then state\<lparr>ps_local_start_lsn := pe_start_streaming_at msg\<rparr> else state)
      in state\<lparr>ps_commit_lsn := max (ps_commit_lsn state) (ps_timeline_start_lsn state),
           ps_backup_lsn := max (ps_backup_lsn state) (ps_timeline_start_lsn state),
           ps_remote_consistent_lsn := max (ps_remote_consistent_lsn state) (ps_timeline_start_lsn state),
           ps_acceptor_state := (ps_acceptor_state state)\<lparr>as_term_history := pe_term_history msg\<rparr>\<rparr>)"

definition handle_elected ::
  "'c ctrl_storage \<Rightarrow> 'w wal_storage \<Rightarrow> proposer_elected \<Rightarrow> ('c, 'w) handler" where
  "handle_elected C W msg self =
     (if sk_generation_of C self \<noteq> pe_generation msg
      then (Inl (Bail ''refusing ProposerElected due to generation mismatch''), self)
      else
        abind (elected_adopt_term C msg) (\<lambda>_ self.
        if sk_term C self > pe_term msg then (Inr None, self)
        else
          abind (\<lambda>self. (elected_check C W msg self, self)) (\<lambda>_.
          abind (elected_truncate W msg) (\<lambda>_.
          abind (\<lambda>self. on_state (finish_change C (elected_state msg (start_change C (sk_state self)))) self)
            (\<lambda>_ self. case pe_term_history msg of
               [] \<Rightarrow> (Inl (Bail ''proposer elected with empty term history''), self)
             | e # es \<Rightarrow> (Inr None, self\<lparr>sk_term_start_lsn := tl_lsn (last (e # es))\<rparr>))))
          self)
        self)"

definition update_commit_lsn ::
  "'c ctrl_storage \<Rightarrow> 'w wal_storage \<Rightarrow> lsn \<Rightarrow> (('c, 'w) safekeeper, unit) act" where
  "update_commit_lsn C W candidate self =
     (let candidate = max candidate (sk_commit self);
          commit_lsn = min candidate (sk_flush_lsn C W self)
      in if \<not> commit_lsn \<ge> sk_commit self
         then (Inl (Panic ''commit_lsn monotonicity violated''), self)
         else
           let self = self\<lparr>sk_state := (sk_state self)\<lparr>ts_inmem :=
                 (ts_inmem (sk_state self))\<lparr>im_commit_lsn := commit_lsn\<rparr>\<rparr>\<rparr>
           in if commit_lsn \<ge> sk_term_start_lsn self
                 \<and> ps_commit_lsn (sk_pers C self) < sk_term_start_lsn self
              then on_state (ts_flush C) self
              else (Inr (), self))"

definition set_peer_horizon :: "lsn \<Rightarrow> ('c, 'w) safekeeper \<Rightarrow> ('c, 'w) safekeeper" where
  "set_peer_horizon l self =
     self\<lparr>sk_state := (sk_state self)\<lparr>ts_inmem := (ts_inmem (sk_state self))\<lparr>im_peer_horizon_lsn :=
       max (im_peer_horizon_lsn (ts_inmem (sk_state self))) l\<rparr>\<rparr>\<rparr>"

definition handle_append_request ::
  "'c ctrl_storage \<Rightarrow> 'w wal_storage \<Rightarrow> append_request \<Rightarrow> bool \<Rightarrow> ('c, 'w) handler" where
  "handle_append_request C W msg require_flush self =
     (let h = ar_h msg
      in if sk_generation_of C self \<noteq> ah_generation h
         then (Inl (Bail ''refusing append request due to generation mismatch''), self)
         else if sk_term C self < ah_term h
         then (Inl (Bail ''got AppendRequest before ProposerElected''), self)
         else if sk_term C self > ah_term h
         then (Inr (Some (AAppendResponse
                 (append_response_term_only (sk_generation_of C self) (sk_term C self)))), self)
         else
           let write_lsn = wl_write_lsn W (sk_wal_store self);
               flush_lsn = wl_flush_lsn W (sk_wal_store self)
           in if write_lsn > ah_begin_lsn h
              then (Inl (Bail ''append request rewrites WAL written before''), self)
              else if write_lsn < ah_begin_lsn h \<and> write_lsn \<noteq> 0
              then (Inl (Bail ''append request creates gap in written WAL''), self)
              else
                abind (\<lambda>self. if ar_wal_data msg \<noteq> []
                         then on_wal (wl_write_wal W (ah_begin_lsn h) (ar_wal_data msg)) self
                         else (Inr (), self)) (\<lambda>_.
                abind (\<lambda>self. if require_flush then on_wal (wl_flush_wal W) self
                         else (Inr (), self)) (\<lambda>_.
                abind (\<lambda>self. if ah_commit_lsn h \<noteq> 0 then update_commit_lsn C W (ah_commit_lsn h) self
                         else (Inr (), self)) (\<lambda>_ self.
                let self = set_peer_horizon (ah_truncate_lsn h) self
                in if \<not> require_flush \<and> flush_lsn = sk_flush_lsn C W self then (Inr None, self)
                   else (Inr (Some (AAppendResponse (append_response C W self))), self))))
                self)"

definition handle_flush :: "'c ctrl_storage \<Rightarrow> 'w wal_storage \<Rightarrow> ('c, 'w) handler" where
  "handle_flush C W =
     abind (on_wal (wl_flush_wal W)) (\<lambda>_ self.
       (Inr (Some (AAppendResponse (append_response C W self))), self))"

fun process_msg ::
  "'c ctrl_storage \<Rightarrow> 'w wal_storage \<Rightarrow> proposer_acceptor_message \<Rightarrow> ('c, 'w) handler" where
  "process_msg C W (PGreeting msg) = handle_greeting C msg"
| "process_msg C W (PVoteRequest msg) = handle_vote_request C W msg"
| "process_msg C W (PElected msg) = handle_elected C W msg"
| "process_msg C W (PAppendRequest msg) = handle_append_request C W msg True"
| "process_msg C W (PNoFlushAppendRequest msg) = handle_append_request C W msg False"
| "process_msg C W PFlushWAL = handle_flush C W"

text \<open>Peer information from the broker; the fields of \<open>SafekeeperTimelineInfo\<close> it reads.\<close>

definition record_safekeeper_info ::
  "'c ctrl_storage \<Rightarrow> 'w wal_storage \<Rightarrow> lsn \<Rightarrow> term_no \<Rightarrow> (('c, 'w) safekeeper, unit) act" where
  "record_safekeeper_info C W info_commit_lsn info_last_log_term self =
     (if info_commit_lsn \<noteq> lsn_INVALID \<and> info_last_log_term = get_last_log_term C W self
      then update_commit_lsn C W info_commit_lsn self
      else (Inr (), self))"

subsection \<open>Frames: what the lifted operations leave alone\<close>

lemma on_state_eq:
  "on_state m sk = (r, sk') \<longleftrightarrow> (\<exists>s. m (sk_state sk) = (r, s) \<and> sk' = sk\<lparr>sk_state := s\<rparr>)"
  by (auto simp: on_state_def split: prod.splits)

lemma on_wal_eq:
  "on_wal m sk = (r, sk') \<longleftrightarrow> (\<exists>w. m (sk_wal_store sk) = (r, w) \<and> sk' = sk\<lparr>sk_wal_store := w\<rparr>)"
  by (auto simp: on_wal_def split: prod.splits)

subsection \<open>Progress: what never goes back\<close>

text \<open>The effective state: the persistent one with the in-memory values applied.\<close>

abbreviation eff :: "'c ctrl_storage \<Rightarrow> ('c, 'w) safekeeper \<Rightarrow> timeline_persistent_state" where
  "eff C sk \<equiv> start_change C (sk_state sk)"

definition ps_le :: "timeline_persistent_state \<Rightarrow> timeline_persistent_state \<Rightarrow> bool" where
  "ps_le s t \<longleftrightarrow>
     as_term (ps_acceptor_state s) \<le> as_term (ps_acceptor_state t) \<and>
     cfg_generation (ps_mconf s) \<le> cfg_generation (ps_mconf t) \<and>
     ps_commit_lsn s \<le> ps_commit_lsn t \<and> ps_backup_lsn s \<le> ps_backup_lsn t \<and>
     ps_peer_horizon_lsn s \<le> ps_peer_horizon_lsn t \<and>
     ps_remote_consistent_lsn s \<le> ps_remote_consistent_lsn t \<and>
     ps_timeline_start_lsn s \<le> ps_timeline_start_lsn t \<and>
     ps_tenant_id s = ps_tenant_id t \<and> ps_timeline_id s = ps_timeline_id t \<and>
     ps_eviction_state s = ps_eviction_state t"

definition sk_le :: "'c ctrl_storage \<Rightarrow> ('c, 'w) safekeeper \<Rightarrow> ('c, 'w) safekeeper \<Rightarrow> bool" where
  "sk_le C sk sk' \<longleftrightarrow> ps_le (eff C sk) (eff C sk') \<and> sk_node_id sk = sk_node_id sk'"

lemma ps_le_refl [simp]: "ps_le s s"
  by (simp add: ps_le_def)

lemma ps_le_trans: "ps_le s t \<Longrightarrow> ps_le t u \<Longrightarrow> ps_le s u"
  unfolding ps_le_def by (elim conjE, intro conjI) (erule (1) order.trans | simp)+

lemma sk_le_refl: "reflp (sk_le C)"
  by (simp add: reflp_def sk_le_def)

lemma sk_le_trans: "transp (sk_le C)"
  by (auto simp: transp_def sk_le_def intro: ps_le_trans)

lemma sk_le_term: "sk_le C sk sk' \<Longrightarrow> sk_term C sk \<le> sk_term C sk'"
  by (simp add: sk_le_def ps_le_def)

lemma sk_le_commit: "sk_le C sk sk' \<Longrightarrow> sk_commit sk \<le> sk_commit sk'"
  by (simp add: sk_le_def ps_le_def)

lemma ps_le_set_term: "as_term (ps_acceptor_state s) \<le> t \<Longrightarrow> ps_le s (set_term t s)"
  by (simp add: ps_le_def)

lemma elected_state_simps [simp]:
  "ps_tenant_id (elected_state msg s) = ps_tenant_id s"
  "ps_timeline_id (elected_state msg s) = ps_timeline_id s"
  "ps_mconf (elected_state msg s) = ps_mconf s"
  "ps_eviction_state (elected_state msg s) = ps_eviction_state s"
  "ps_server (elected_state msg s) = ps_server s"
  "as_term (ps_acceptor_state (elected_state msg s)) = as_term (ps_acceptor_state s)"
  "as_term_history (ps_acceptor_state (elected_state msg s)) = pe_term_history msg"
  "ps_commit_lsn (elected_state msg s)
     = max (ps_commit_lsn s) (ps_timeline_start_lsn (elected_state msg s))"
  by (simp_all add: elected_state_def Let_def split: list.splits)

lemma ps_le_greeting: "ps_le s (greeting_state msg s)"
  by (simp add: ps_le_def greeting_state_def Let_def)

lemma ps_le_elected: "ps_le s (elected_state msg s)"
  by (auto simp: ps_le_def elected_state_def Let_def split: list.splits)

lemma set_peer_horizon_le: "sk_le C sk (set_peer_horizon l sk)"
  by (simp add: sk_le_def ps_le_def set_peer_horizon_def)

lemma sk_le_same [simp]: "sk_le C sk sk"
  by (simp add: sk_le_def)

text \<open>Progress together with a relation \<open>G\<close> between the control files before and after.\<close>

definition sk_rel ::
  "'c ctrl_storage \<Rightarrow> ('c \<Rightarrow> 'c \<Rightarrow> bool) \<Rightarrow> ('c, 'w) safekeeper \<Rightarrow> ('c, 'w) safekeeper \<Rightarrow> bool" where
  "sk_rel C G sk sk' \<longleftrightarrow> sk_le C sk sk' \<and> G (ts_pers (sk_state sk)) (ts_pers (sk_state sk'))"

context control_file
begin

lemma start_change_finish:
  assumes "finish_change C s ts = (r, ts')"
  shows "start_change C ts' = (if isl r then start_change C ts else s)"
proof -
  have A: "start_change C t = s" if "pers C t = s" "ts_inmem t = mem_of s" for t
    using that by (simp add: start_change_def mem_of_def)
  have B: "start_change C t = start_change C ts"
    if "pers C t = pers C ts" "ts_inmem t = ts_inmem ts" for t
    using that by (simp add: start_change_def)
  show ?thesis
  proof (cases rule: finish_change_cases [of s ts])
    case (applied t)
    then have "ts' = t" "\<not> isl r" using assms by auto
    with A [OF applied(2,3)] show ?thesis by simp
  next
    case (failed e t)
    then have "ts' = t" "isl r" using assms by auto
    with B [OF failed(2,3)] show ?thesis by simp
  qed
qed

end

text \<open>What every attempt to persist a state with the same or a higher term does to the control
  file, successful or not, all messages do.\<close>

locale control_steps = control_file C ctrl_inv
  for C :: "'c ctrl_storage" and ctrl_inv +
  fixes G :: "'c \<Rightarrow> 'c \<Rightarrow> bool"
  assumes G_refl: "G c c" and G_trans: "G c c' \<Longrightarrow> G c' c'' \<Longrightarrow> G c c''"
    and G_persist: "cs_persist C s c = (r, c') \<Longrightarrow>
      as_term (ps_acceptor_state (cs_deref C c)) \<le> as_term (ps_acceptor_state s) \<Longrightarrow> G c c'"
begin

lemma sk_rel_refl: "reflp (sk_rel C G)"
  by (simp add: reflp_def sk_rel_def G_refl)

lemma sk_rel_trans: "transp (sk_rel C G)"
  using transpD [OF sk_le_trans] G_trans unfolding transp_def sk_rel_def by blast

lemma sk_rel_same [simp]: "sk_rel C G sk sk"
  by (simp add: sk_rel_def G_refl)

lemma keeps_on_wal: "keeps (sk_rel C G) (on_wal m)"
  by (rule keepsI) (auto simp: on_wal_eq sk_rel_def sk_le_def G_refl)

lemma finish_change_G:
  assumes "finish_change C s ts = (r, ts')" "cur_term C ts \<le> as_term (ps_acceptor_state s)"
  shows "G (ts_pers ts) (ts_pers ts')"
  using assms by (auto simp: finish_change_def G_refl split: if_splits prod.splits sum.splits dest: G_persist)

lemma finish_change_rel:
  assumes "finish_change C s (sk_state sk) = (r, ts')" "ps_le (eff C sk) s"
  shows "sk_rel C G sk (sk\<lparr>sk_state := ts'\<rparr>)"
proof -
  have "cur_term C (sk_state sk) \<le> as_term (ps_acceptor_state s)"
    using assms(2) by (simp add: ps_le_def start_change_def)
  with finish_change_G [OF assms(1)] start_change_finish [OF assms(1)] assms(2)
  show ?thesis by (simp add: sk_rel_def sk_le_def)
qed

lemma finish_change_on_state:
  "on_state (finish_change C s) sk = (r, sk') \<Longrightarrow> ps_le (eff C sk) s \<Longrightarrow> sk_rel C G sk sk'"
  by (auto simp: on_state_eq dest: finish_change_rel)

lemma keeps_finish_change:
  assumes "\<And>s. ps_le s (f s)"
  shows "keeps (sk_rel C G) (\<lambda>sk. on_state (finish_change C (f (eff C sk))) sk)"
  by (rule keepsI) (use assms in \<open>auto dest: finish_change_on_state\<close>)

lemma keeps_finish_change_if:
  assumes "\<And>s. P s \<Longrightarrow> ps_le s (f s)"
  shows "keeps (sk_rel C G)
    (\<lambda>sk. if P (eff C sk) then on_state (finish_change C (f (eff C sk))) sk else (Inr u, sk))"
  by (rule keepsI) (use assms in \<open>auto dest: finish_change_on_state split: if_splits\<close>)

lemma keeps_membership_switch: "keeps (sk_rel C G) (on_state (membership_switch C to))"
proof (rule keepsI)
  fix sk r sk'
  assume "on_state (membership_switch C to) sk = (r, sk')"
  then obtain ts' where m: "membership_switch C to (sk_state sk) = (r, ts')"
    and sk': "sk' = sk\<lparr>sk_state := ts'\<rparr>" by (auto simp: on_state_eq)
  show "sk_rel C G sk sk'"
  proof (cases "cfg_generation to \<le> sk_generation_of C sk")
    case True
    then have "sk' = sk" using m sk' by (simp add: membership_switch_def Let_def)
    then show ?thesis by simp
  next
    case False
    then have "ps_le (eff C sk) ((eff C sk)\<lparr>ps_mconf := to\<rparr>)" by (simp add: ps_le_def start_change_def)
    moreover obtain q where "finish_change C ((eff C sk)\<lparr>ps_mconf := to\<rparr>) (sk_state sk) = (q, ts')"
      using m False by (auto simp: membership_switch_def Let_def split: prod.splits sum.splits)
    ultimately show ?thesis unfolding sk' by (intro finish_change_rel)
  qed
qed

lemma keeps_handle_greeting: "keeps (sk_rel C G) (handle_greeting C msg :: ('c, 'w) handler)"
proof -
  have upd: "keeps (sk_rel C G) (\<lambda>sk :: ('c, 'w) safekeeper.
      if b then on_state (finish_change C (greeting_state msg (eff C sk))) sk else (Inr (), sk))" for b
    by (cases b) (auto intro!: keeps_finish_change keeps_pure sk_rel_refl ps_le_greeting)
  have k: "keeps (sk_rel C G) (abind
      (\<lambda>sk. if b then on_state (finish_change C (greeting_state msg (eff C sk))) sk else (Inr (), sk))
      (\<lambda>_. abind (on_state (membership_switch C (pg_mconf msg)))
        (\<lambda>_ self :: ('c, 'w) safekeeper. (f self, self))))"
    for b and f :: "_ \<Rightarrow> acceptor_proposer_message option res"
    by (intro keeps_abind sk_rel_trans upd keeps_membership_switch keeps_pure sk_rel_refl)
  show ?thesis
    by (rule keepsI) (auto simp: handle_greeting_def Let_def split: if_splits dest!: keepsD [OF k])
qed

lemma keeps_vote:
  "keeps (sk_rel C G) (\<lambda>sk :: ('c, 'w) safekeeper. if sk_term C sk < t
     then abind (on_state (finish_change C (set_term t (eff C sk)))) (\<lambda>_ self. (f sk self, self)) sk
     else (g sk, sk))"
proof (rule keepsI)
  fix sk r and sk' :: "('c, 'w) safekeeper"
  assume a: "(if sk_term C sk < t
     then abind (on_state (finish_change C (set_term t (eff C sk)))) (\<lambda>_ self. (f sk self, self)) sk
     else (g sk, sk)) = (r, sk')"
  show "sk_rel C G sk sk'"
  proof (cases "sk_term C sk < t")
    case False
    with a show ?thesis by simp
  next
    case True
    obtain q sk1 where q: "on_state (finish_change C (set_term t (eff C sk))) sk = (q, sk1)"
      by fastforce
    then have "sk_rel C G sk sk1"
      using True ps_le_set_term [of "eff C sk" t] finish_change_on_state [OF q]
      by (simp add: start_change_def)
    moreover have "sk' = sk1" using a True q by (cases q) (auto simp: abind_def)
    ultimately show ?thesis by simp
  qed
qed

lemma keeps_handle_vote_request:
  "keeps (sk_rel C G) (handle_vote_request C W msg :: ('c, 'w) handler)"
proof (rule keepsI)
  fix sk r and sk' :: "('c, 'w) safekeeper"
  assume a: "handle_vote_request C W msg sk = (r, sk')"
  note k = keeps_abind [OF sk_rel_trans keeps_on_wal keeps_vote, THEN keepsD]
  show "sk_rel C G sk sk'"
    using a by (auto simp: handle_vote_request_def Let_def split: if_splits dest!: k)
qed

lemma keeps_elected_adopt_term: "keeps (sk_rel C G) (elected_adopt_term C msg :: (('c, 'w) safekeeper, unit) act)"
proof (rule keepsI)
  fix sk r and sk' :: "('c, 'w) safekeeper"
  assume "elected_adopt_term C msg sk = (r, sk')"
  then show "sk_rel C G sk sk'"
    using ps_le_set_term [of "eff C sk" "pe_term msg"] finish_change_on_state [of _ sk r sk']
    by (auto simp: elected_adopt_term_def start_change_def split: if_splits)
qed

lemma keeps_elected_truncate: "keeps (sk_rel C G) (elected_truncate W msg)"
  unfolding elected_truncate_def
  by (intro keeps_abind sk_rel_trans keeps_on_wal keeps_cond keeps_pure sk_rel_refl)

lemma keeps_elected_last:
  "keeps (sk_rel C G) (\<lambda>self :: ('c, 'w) safekeeper. case pe_term_history msg of
     [] \<Rightarrow> (Inl e, self) | x # xs \<Rightarrow> (Inr None, self\<lparr>sk_term_start_lsn := tl_lsn (last (x # xs))\<rparr>))"
  by (simp add: keeps_def sk_rel_def sk_le_def G_refl split: list.splits)

lemma keeps_elected_rest:
  "keeps (sk_rel C G) (abind (\<lambda>self :: ('c, 'w) safekeeper. (elected_check C W msg self, self)) (\<lambda>_.
     abind (elected_truncate W msg) (\<lambda>_.
     abind (\<lambda>self. on_state (finish_change C (elected_state msg (eff C self))) self)
       (\<lambda>_ self. case pe_term_history msg of
          [] \<Rightarrow> (Inl e, self) | x # xs \<Rightarrow> (Inr None, self\<lparr>sk_term_start_lsn := tl_lsn (last (x # xs))\<rparr>)))))"
  by (intro keeps_abind sk_rel_trans keeps_pure sk_rel_refl keeps_elected_truncate
      keeps_finish_change ps_le_elected keeps_elected_last)

lemma keeps_handle_elected: "keeps (sk_rel C G) (handle_elected C W msg :: ('c, 'w) handler)"
  unfolding handle_elected_def
  by (intro keeps_cond keeps_pure sk_rel_refl keeps_abind sk_rel_trans keeps_elected_adopt_term
      keeps_elected_rest)

lemma keeps_update_commit_lsn: "keeps (sk_rel C G) (update_commit_lsn C W l :: (('c, 'w) safekeeper, unit) act)"
proof (rule keepsI)
  fix sk r and sk' :: "('c, 'w) safekeeper"
  assume a: "update_commit_lsn C W l sk = (r, sk')"
  define c where "c = min (max l (sk_commit sk)) (sk_flush_lsn C W sk)"
  define sk1 where "sk1 = sk\<lparr>sk_state := (sk_state sk)\<lparr>ts_inmem :=
      (ts_inmem (sk_state sk))\<lparr>im_commit_lsn := c\<rparr>\<rparr>\<rparr>"
  show "sk_rel C G sk sk'"
  proof (cases "sk_commit sk \<le> c")
    case False
    with a show ?thesis by (simp add: update_commit_lsn_def Let_def c_def)
  next
    case True
    then have 1: "sk_rel C G sk sk1" by (simp add: sk1_def sk_rel_def sk_le_def ps_le_def G_refl)
    have "keeps (sk_rel C G) (\<lambda>sk :: ('c, 'w) safekeeper. on_state (finish_change C (id (eff C sk))) sk)"
      by (rule keeps_finish_change) simp
    then have "keeps (sk_rel C G) (on_state (ts_flush C) :: (('c, 'w) safekeeper, unit) act)"
      by (simp add: keeps_def on_state_def ts_flush_def)
    moreover have "sk_commit sk \<le> sk_flush_lsn C W sk" using True by (simp add: c_def)
    ultimately have "sk_rel C G sk1 sk'"
      using a True
      by (auto simp: update_commit_lsn_def Let_def sk1_def simp flip: c_def split: if_splits dest: keepsD)
    with 1 show ?thesis by (metis sk_rel_trans transpD)
  qed
qed

lemma keeps_handle_append_request:
  "keeps (sk_rel C G) (handle_append_request C W msg fl :: ('c, 'w) handler)"
proof (rule keepsI)
  fix sk r and sk' :: "('c, 'w) safekeeper"
  assume a: "handle_append_request C W msg fl sk = (r, sk')"
  have end_: "keeps (sk_rel C G) (\<lambda>self :: ('c, 'w) safekeeper.
      let self = set_peer_horizon l self in if P self then (f self, self) else (g self, self))" for P f l g
    by (simp add: keeps_def Let_def sk_rel_def set_peer_horizon_le) (simp add: set_peer_horizon_def G_refl)
  have k: "keeps (sk_rel C G) (abind (\<lambda>self :: ('c, 'w) safekeeper. if b then on_wal m self else (Inr (), self)) (\<lambda>_.
      abind (\<lambda>self. if b' then on_wal m' self else (Inr (), self)) (\<lambda>_.
      abind (\<lambda>self. if b'' then update_commit_lsn C W c self else (Inr (), self)) (\<lambda>_ self.
      let self = set_peer_horizon l self in if P self then (f self, self) else (g self, self)))))"
    for b m b' m' b'' c l P f g
    by (intro keeps_abind sk_rel_trans keeps_cond keeps_on_wal keeps_pure sk_rel_refl
        keeps_update_commit_lsn end_)
  show "sk_rel C G sk sk'"
    using a by (auto simp: handle_append_request_def split: if_splits dest!: keepsD [OF k] simp: Let_def [of "ar_h msg"] Let_def [of "wl_write_lsn W _"] Let_def [of "wl_flush_lsn W _"])
qed

lemma keeps_handle_flush: "keeps (sk_rel C G) (handle_flush C W)"
  unfolding handle_flush_def
  by (intro keeps_abind sk_rel_trans keeps_on_wal keeps_pure sk_rel_refl)

lemma process_msg_rel: "keeps (sk_rel C G) (process_msg C W msg)"
  by (cases msg) (simp_all add: keeps_handle_greeting keeps_handle_vote_request keeps_handle_elected
      keeps_handle_append_request keeps_handle_flush)

lemma record_safekeeper_info_rel: "keeps (sk_rel C G) (record_safekeeper_info C W l t)"
  unfolding record_safekeeper_info_def
  by (intro keeps_cond keeps_update_commit_lsn keeps_pure sk_rel_refl)

lemma term_bump_rel: "keeps (sk_rel C G) (on_state (term_bump C to))"
proof (rule keepsI)
  fix sk r sk'
  assume "on_state (term_bump C to) sk = (r, sk')"
  then obtain ts' where m: "term_bump C to (sk_state sk) = (r, ts')"
    and sk': "sk' = sk\<lparr>sk_state := ts'\<rparr>" by (auto simp: on_state_eq)
  let ?new = "bump_target (sk_term C sk) to"
  show "sk_rel C G sk sk'"
  proof (cases "?new > sk_term C sk")
    case False
    then have "sk' = sk" using m sk' by (simp add: term_bump_def Let_def start_change_def)
    then show ?thesis by simp
  next
    case True
    then have "ps_le (eff C sk) (set_term ?new (eff C sk))"
      by (intro ps_le_set_term) (simp add: start_change_def)
    moreover obtain q where "finish_change C (set_term ?new (eff C sk)) (sk_state sk) = (q, ts')"
      using m True by (auto simp: term_bump_def Let_def start_change_def split: prod.splits sum.splits)
    ultimately show ?thesis unfolding sk' by (intro finish_change_rel)
  qed
qed

end

end
