(* ===== verification/SafekeeperInv.thy ===== *)
theory SafekeeperInv
  imports Safekeeper
begin

text \<open>
  The invariant of a safekeeper that the source asserts: the position it reports as committed is
  never beyond the WAL it has flushed. The WAL storage is used through the contract \<open>wal_store\<close>,
  the control file through \<open>control_file\<close>; the handlers are verified once, against the two
  contracts.
\<close>

text \<open>A write that stays clear of the end of the position space; the record decoder of the storage
  rounds positions up to a multiple of eight without an overflow check.\<close>

definition write_ok :: "lsn \<Rightarrow> bytes \<Rightarrow> bool" where
  "write_ok l b \<longleftrightarrow> unat l + length b + 8 \<le> 2 ^ 64"

locale wal_store =
  fixes W :: "'w wal_storage" and wal_inv wal_dirty :: "'w \<Rightarrow> bool"
  assumes inv_dirty: "wal_inv w \<Longrightarrow> wal_dirty w"
    and init_segment: "wl_initialize_first_segment W l w = (r, w') \<Longrightarrow>
      wl_flush_lsn W w' = wl_flush_lsn W w \<and> (wal_dirty w \<longrightarrow> wal_dirty w')"
    and write_wal: "wl_write_wal W l b w = (r, w') \<Longrightarrow> wal_inv w \<Longrightarrow> write_ok l b \<Longrightarrow>
      wl_flush_lsn W w \<le> wl_flush_lsn W w' \<and> wal_dirty w' \<and> (isl r \<or> wal_inv w')"
    and flush_wal: "wl_flush_wal W w = (r, w') \<Longrightarrow> wal_dirty w \<Longrightarrow>
      wl_flush_lsn W w \<le> wl_flush_lsn W w' \<and> wal_dirty w' \<and> (wal_inv w \<longrightarrow> wal_inv w')"
    and truncate_wal: "wl_truncate_wal W l w = (r, w') \<Longrightarrow> wal_dirty w \<Longrightarrow> l \<noteq> 0 \<Longrightarrow>
      (wl_flush_lsn W w' = l \<or> isl r \<and> wl_flush_lsn W w' = wl_flush_lsn W w) \<and> wal_dirty w' \<and>
      (isl r \<or> wal_inv w')"

text \<open>Messages within the position space: the leader streams from a valid position.\<close>

fun msg_ok :: "proposer_acceptor_message \<Rightarrow> bool" where
  "msg_ok (PElected m) \<longleftrightarrow> pe_start_streaming_at m \<noteq> 0"
| "msg_ok (PAppendRequest m) \<longleftrightarrow> write_ok (ah_begin_lsn (ar_h m)) (ar_wal_data m)"
| "msg_ok (PNoFlushAppendRequest m) \<longleftrightarrow> write_ok (ah_begin_lsn (ar_h m)) (ar_wal_data m)"
| "msg_ok _ \<longleftrightarrow> True"

definition commit_ok :: "'c ctrl_storage \<Rightarrow> 'w wal_storage \<Rightarrow> ('c, 'w) safekeeper \<Rightarrow> bool" where
  "commit_ok C W sk \<longleftrightarrow> sk_commit sk \<le> sk_flush_lsn C W sk"

text \<open>The invariant as a predicate of the effective state and of the storage.\<close>

definition cok :: "'w wal_storage \<Rightarrow> ('w \<Rightarrow> bool) \<Rightarrow> timeline_persistent_state \<Rightarrow> 'w \<Rightarrow> bool" where
  "cok W P s w \<longleftrightarrow> ps_commit_lsn s \<le> max (wl_flush_lsn W w) (ps_timeline_start_lsn s) \<and> P w"

abbreviation inv_of ::
  "'c ctrl_storage \<Rightarrow> 'w wal_storage \<Rightarrow> ('w \<Rightarrow> bool) \<Rightarrow> ('c, 'w) safekeeper \<Rightarrow> bool" where
  "inv_of C W P sk \<equiv> cok W P (eff C sk) (sk_wal_store sk)"

lemma inv_of_iff: "inv_of C W P sk \<longleftrightarrow> commit_ok C W sk \<and> P (sk_wal_store sk)"
  by (simp add: cok_def commit_ok_def sk_flush_lsn_def)

lemma cok_set_term: "cok W P s w \<Longrightarrow> cok W P (set_term t s) w"
  by (simp add: cok_def)

lemma cok_greeting: "cok W P s w \<Longrightarrow> cok W P (greeting_state m s) w"
  by (simp add: cok_def greeting_state_def Let_def)

lemma cok_mconf: "cok W P s w \<Longrightarrow> cok W P (s\<lparr>ps_mconf := c\<rparr>) w"
  by (simp add: cok_def)

lemma hoare_on_wal:
  assumes "\<And>w r w' s. m w = (r, w') \<Longrightarrow> K s w \<Longrightarrow> (if isl r then E s w' else Q s w')"
  shows "hoare (\<lambda>sk. K (eff C sk) (sk_wal_store sk)) (on_wal m)
    (\<lambda>_ sk. Q (eff C sk) (sk_wal_store sk)) (\<lambda>sk. E (eff C sk) (sk_wal_store sk))"
  by (rule hoareI) (auto simp: on_wal_eq dest: assms)

context control_file
begin

lemma hoare_finish_change:
  assumes "\<And>s w. K s w \<Longrightarrow> Q (f s) w" "\<And>s w. K s w \<Longrightarrow> E s w"
  shows "hoare (\<lambda>sk :: ('c, 'w) safekeeper. K (eff C sk) (sk_wal_store sk))
    (\<lambda>sk. on_state (finish_change C (f (eff C sk))) sk)
    (\<lambda>_ sk. Q (eff C sk) (sk_wal_store sk)) (\<lambda>sk. E (eff C sk) (sk_wal_store sk))"
  by (rule hoareI) (use assms in \<open>auto simp: on_state_eq dest!: start_change_finish\<close>)

lemma start_change_membership_switch:
  assumes "membership_switch C to ts = (r, ts')"
  shows "start_change C ts' = start_change C ts \<or> start_change C ts' = (start_change C ts)\<lparr>ps_mconf := to\<rparr>"
  using assms by (cases rule: membership_switch_cases) (auto simp: start_change_def)

lemma hoare_membership_switch:
  assumes "\<And>s w. K s w \<Longrightarrow> K (s\<lparr>ps_mconf := to\<rparr>) w"
  shows "hoare (\<lambda>sk :: ('c, 'w) safekeeper. K (eff C sk) (sk_wal_store sk))
    (on_state (membership_switch C to))
    (\<lambda>_ sk. K (eff C sk) (sk_wal_store sk)) (\<lambda>sk. K (eff C sk) (sk_wal_store sk))"
  by (rule hoareI) (use assms in \<open>auto simp: on_state_eq dest!: start_change_membership_switch\<close>)

lemma hoare_greeting:
  "hoare (inv_of C W P) (handle_greeting C msg :: ('c, 'w) handler) (\<lambda>_. inv_of C W P) (inv_of C W P)"
proof -
  have upd: "hoare (inv_of C W P) (\<lambda>sk :: ('c, 'w) safekeeper.
      if b then on_state (finish_change C (greeting_state msg (eff C sk))) sk else (Inr (), sk))
      (\<lambda>_. inv_of C W P) (inv_of C W P)" for b
    by (cases b) (auto intro!: hoare_finish_change hoare_return cok_greeting)
  have k: "hoare (inv_of C W P) (abind
      (\<lambda>sk. if b then on_state (finish_change C (greeting_state msg (eff C sk))) sk else (Inr (), sk))
      (\<lambda>_. abind (on_state (membership_switch C (pg_mconf msg)))
        (\<lambda>_ self :: ('c, 'w) safekeeper. (Inr (f self), self)))) (\<lambda>_. inv_of C W P) (inv_of C W P)"
    for b and f :: "_ \<Rightarrow> acceptor_proposer_message option"
    by (rule hoare_abind [OF upd hoare_abind [OF hoare_membership_switch [where K = "cok W P"]]])
      (auto intro: hoare_return cok_mconf)
  show ?thesis
  proof (rule hoareI)
    fix s e and s' :: "('c, 'w) safekeeper"
    assume "inv_of C W P s" "handle_greeting C msg s = (Inl e, s')"
    then show "inv_of C W P s'"
      by (auto simp: handle_greeting_def Let_def split: if_splits dest: hoareD [OF k])
  next
    fix s x and s' :: "('c, 'w) safekeeper"
    assume "inv_of C W P s" "handle_greeting C msg s = (Inr x, s')"
    then show "inv_of C W P s'"
      by (auto simp: handle_greeting_def Let_def split: if_splits dest: hoareD [OF k])
  qed
qed

end

locale sk_parts = control_file C ctrl_inv + wal_store W wal_inv wal_dirty
  for C :: "'c ctrl_storage" and ctrl_inv and W :: "'w wal_storage" and wal_inv wal_dirty
begin

abbreviation safe :: "('c, 'w) safekeeper \<Rightarrow> bool" where
  "safe \<equiv> inv_of C W wal_dirty"

abbreviation clean :: "('c, 'w) safekeeper \<Rightarrow> bool" where
  "clean \<equiv> inv_of C W wal_inv"

lemma clean_safe: "clean sk \<Longrightarrow> safe sk"
  by (simp add: cok_def inv_dirty)

lemma hoare_flush_clean: "hoare clean (on_wal (wl_flush_wal W)) (\<lambda>_. clean) safe"
  by (rule hoare_on_wal)
    (auto simp: cok_def le_max_iff_disj dest: inv_dirty intro: order.trans dest!: flush_wal)

lemma hoare_flush_safe: "hoare safe (on_wal (wl_flush_wal W)) (\<lambda>_. safe) safe"
  by (rule hoare_on_wal) (auto simp: cok_def le_max_iff_disj intro: order.trans dest!: flush_wal)

lemma hoare_write: "write_ok l b \<Longrightarrow> hoare clean (on_wal (wl_write_wal W l b)) (\<lambda>_. clean) safe"
  by (rule hoare_on_wal) (auto simp: cok_def le_max_iff_disj intro: order.trans dest!: write_wal)

lemma hoare_vote_request:
  assumes "P = wal_inv \<or> P = wal_dirty"
  shows "hoare (inv_of C W P) (handle_vote_request C W msg :: ('c, 'w) handler) (\<lambda>_. inv_of C W P) safe"
proof -
  have weak: "cok W P st w \<Longrightarrow> cok W wal_dirty st w" for st w
    using assms inv_dirty by (auto simp: cok_def)
  have fl: "hoare (inv_of C W P) (on_wal (wl_flush_wal W)) (\<lambda>_. inv_of C W P) safe"
    using assms hoare_flush_clean hoare_flush_safe by blast
  have vote: "hoare (inv_of C W P) (\<lambda>sk :: ('c, 'w) safekeeper. if sk_term C sk < t
     then abind (on_state (finish_change C (set_term t (eff C sk)))) (\<lambda>_ self. (Inr (f sk self), self)) sk
     else (Inr (g sk), sk)) (\<lambda>_. inv_of C W P) safe"
    for t and f :: "_ \<Rightarrow> _ \<Rightarrow> acceptor_proposer_message option" and g
  proof -
    have h: "hoare (inv_of C W P) (\<lambda>sk :: ('c, 'w) safekeeper. on_state (finish_change C (set_term t (eff C sk))) sk)
        (\<lambda>_. inv_of C W P) safe"
      by (rule hoare_finish_change) (auto intro: cok_set_term weak)
    show ?thesis
      by (rule hoareI)
        (auto simp: abind_def split: if_splits prod.splits sum.splits dest: hoareD [OF h] weak)
  qed
  note k = hoareD [OF hoare_abind [OF fl vote]]
  show ?thesis
  proof (rule hoareI)
    fix s e and s' :: "('c, 'w) safekeeper"
    assume "inv_of C W P s" "handle_vote_request C W msg s = (Inl e, s')"
    then show "safe s'"
      by (auto simp: handle_vote_request_def Let_def split: if_splits dest: k weak)
  next
    fix s x and s' :: "('c, 'w) safekeeper"
    assume "inv_of C W P s" "handle_vote_request C W msg s = (Inr x, s')"
    then show "inv_of C W P s'"
      by (auto simp: handle_vote_request_def Let_def split: if_splits dest: k)
  qed
qed

lemma elected_check_Inr:
  "elected_check C W msg sk = Inr u \<Longrightarrow> sk_commit sk \<le> pe_start_streaming_at msg"
  by (auto simp: elected_check_def monad_simps split: if_splits)

lemma hoare_adopt_term:
  assumes "P = wal_inv \<or> P = wal_dirty"
  shows "hoare (inv_of C W P) (elected_adopt_term C msg :: (('c, 'w) safekeeper, unit) act)
    (\<lambda>_. inv_of C W P) safe"
proof -
  have weak: "cok W P st w \<Longrightarrow> cok W wal_dirty st w" for st w
    using assms inv_dirty by (auto simp: cok_def)
  have "hoare (inv_of C W P)
      (\<lambda>sk :: ('c, 'w) safekeeper. on_state (finish_change C (set_term (pe_term msg) (eff C sk))) sk)
      (\<lambda>_. inv_of C W P) safe"
    by (rule hoare_finish_change) (auto intro: cok_set_term weak)
  then show ?thesis
    unfolding elected_adopt_term_def by (auto simp: hoare_def)
qed

text \<open>Truncation: the committed part is below the streaming point, and everything is flushed up to
  it afterwards.\<close>

definition pre_trunc :: "lsn \<Rightarrow> timeline_persistent_state \<Rightarrow> 'w \<Rightarrow> bool" where
  "pre_trunc l s w \<longleftrightarrow> cok W wal_dirty s w \<and> ps_commit_lsn s \<le> l"

definition post_trunc :: "lsn \<Rightarrow> timeline_persistent_state \<Rightarrow> 'w \<Rightarrow> bool" where
  "post_trunc l s w \<longleftrightarrow> ps_commit_lsn s \<le> l \<and> wl_flush_lsn W w = l \<and> wal_inv w"

lemma post_trunc_safe: "post_trunc l s w \<Longrightarrow> cok W wal_dirty s w"
  by (auto simp: post_trunc_def cok_def inv_dirty le_max_iff_disj)

lemma post_trunc_elected: "post_trunc l s w \<Longrightarrow> cok W wal_inv (elected_state msg s) w"
  by (auto simp: post_trunc_def cok_def le_max_iff_disj)

lemma hoare_elected_truncate:
  assumes "pe_start_streaming_at msg = l" "l \<noteq> 0"
  shows "hoare (\<lambda>sk :: ('c, 'w) safekeeper. pre_trunc l (eff C sk) (sk_wal_store sk)) (elected_truncate W msg)
    (\<lambda>_ sk. post_trunc l (eff C sk) (sk_wal_store sk)) safe"
proof -
  have init: "hoare (\<lambda>sk :: ('c, 'w) safekeeper. pre_trunc l (eff C sk) (sk_wal_store sk))
      (on_wal (wl_initialize_first_segment W l))
      (\<lambda>_ sk. pre_trunc l (eff C sk) (sk_wal_store sk)) safe"
    by (rule hoare_on_wal) (auto simp: pre_trunc_def cok_def dest!: init_segment)
  have tr: "hoare (\<lambda>sk :: ('c, 'w) safekeeper. pre_trunc l (eff C sk) (sk_wal_store sk))
      (on_wal (wl_truncate_wal W l)) (\<lambda>_ sk. post_trunc l (eff C sk) (sk_wal_store sk)) safe"
    by (rule hoare_on_wal)
      (use assms(2) in \<open>auto simp: pre_trunc_def post_trunc_def cok_def le_max_iff_disj dest!: truncate_wal\<close>)
  show ?thesis
    unfolding elected_truncate_def assms(1)
  proof (rule hoare_abind [OF hoare_cond tr])
    show "hoare (\<lambda>s :: ('c, 'w) safekeeper. pre_trunc l (eff C s) (sk_wal_store s) \<and>
        wl_flush_lsn W (sk_wal_store s) = lsn_INVALID) (on_wal (wl_initialize_first_segment W l))
        (\<lambda>_ sk. pre_trunc l (eff C sk) (sk_wal_store sk)) safe"
      by (rule hoare_weaken [OF init]) auto
  qed (auto intro: hoare_return)
qed

lemma hoare_elected_rest:
  assumes "pe_start_streaming_at msg \<noteq> 0"
  shows "hoare safe (abind (\<lambda>self :: ('c, 'w) safekeeper. (elected_check C W msg self, self)) (\<lambda>_.
     abind (elected_truncate W msg) (\<lambda>_.
     abind (\<lambda>self. on_state (finish_change C (elected_state msg (eff C self))) self)
       (\<lambda>_ self. case pe_term_history msg of
          [] \<Rightarrow> (Inl e, self)
        | x # xs \<Rightarrow> (Inr None, self\<lparr>sk_term_start_lsn := tl_lsn (last (x # xs))\<rparr>))))) (\<lambda>_. clean) safe"
    (is "hoare _ (abind ?chk _) _ _")
proof -
  let ?l = "pe_start_streaming_at msg"
  have chk: "hoare safe ?chk (\<lambda>_ sk. pre_trunc ?l (eff C sk) (sk_wal_store sk)) safe"
    by (auto simp: hoare_def pre_trunc_def split: sum.splits dest: elected_check_Inr)
  have fin: "hoare (\<lambda>sk :: ('c, 'w) safekeeper. post_trunc ?l (eff C sk) (sk_wal_store sk))
      (\<lambda>self. on_state (finish_change C (elected_state msg (eff C self))) self) (\<lambda>_. clean) safe"
    by (rule hoare_finish_change) (auto intro: post_trunc_elected post_trunc_safe)
  have lst: "hoare clean (\<lambda>self :: ('c, 'w) safekeeper. case pe_term_history msg of
      [] \<Rightarrow> (Inl e, self)
    | x # xs \<Rightarrow> (Inr None, self\<lparr>sk_term_start_lsn := tl_lsn (last (x # xs))\<rparr>)) (\<lambda>_. clean) safe"
    using clean_safe by (auto simp: hoare_def split: list.splits)
  show ?thesis
    by (rule hoare_abind [OF chk hoare_abind [OF hoare_elected_truncate [OF refl assms]
          hoare_abind [OF fin lst]]])
qed

lemma hoare_handle_elected:
  assumes "P = wal_inv \<or> P = wal_dirty" "pe_start_streaming_at msg \<noteq> 0"
  shows "hoare (inv_of C W P) (handle_elected C W msg :: ('c, 'w) handler) (\<lambda>_. inv_of C W P) safe"
proof -
  have weak: "cok W P st w \<Longrightarrow> cok W wal_dirty st w" "cok W wal_inv st w \<Longrightarrow> cok W P st w" for st w
    using assms(1) inv_dirty by (auto simp: cok_def)
  show ?thesis
    unfolding handle_elected_def
  proof (rule hoare_cond [OF hoare_fail hoare_abind])
    show "hoare (\<lambda>sk :: ('c, 'w) safekeeper. inv_of C W P sk \<and> \<not> sk_generation_of C sk \<noteq> pe_generation msg)
        (elected_adopt_term C msg) (\<lambda>_. inv_of C W P) safe"
      by (rule hoare_weaken [OF hoare_adopt_term [OF assms(1)]]) auto
    show "hoare (inv_of C W P) (\<lambda>self. if sk_term C self > pe_term msg then (Inr None, self)
        else abind (\<lambda>self :: ('c, 'w) safekeeper. (elected_check C W msg self, self)) (\<lambda>_.
          abind (elected_truncate W msg) (\<lambda>_.
          abind (\<lambda>self. on_state (finish_change C (elected_state msg (eff C self))) self)
            (\<lambda>_ self. case pe_term_history msg of
               [] \<Rightarrow> (Inl (Bail ''proposer elected with empty term history''), self)
             | e # es \<Rightarrow> (Inr None, self\<lparr>sk_term_start_lsn := tl_lsn (last (e # es))\<rparr>)))) self)
        (\<lambda>_. inv_of C W P) safe"
      by (rule hoare_cond [OF hoare_return hoare_weaken [OF hoare_elected_rest [OF assms(2)]]])
        (auto intro: weak)
  qed (auto intro: weak)
qed

lemma hoare_update_commit_lsn:
  assumes "P = wal_inv \<or> P = wal_dirty"
  shows "hoare (inv_of C W P) (update_commit_lsn C W l :: (('c, 'w) safekeeper, unit) act)
    (\<lambda>_. inv_of C W P) safe"
proof -
  have weak: "cok W P st w \<Longrightarrow> cok W wal_dirty st w" for st w
    using assms inv_dirty by (auto simp: cok_def)
  have "hoare (inv_of C W P) (\<lambda>sk :: ('c, 'w) safekeeper. on_state (finish_change C (id (eff C sk))) sk)
      (\<lambda>_. inv_of C W P) safe"
    by (rule hoare_finish_change) (auto intro: weak)
  then have fl: "hoare (inv_of C W P) (on_state (ts_flush C) :: (('c, 'w) safekeeper, unit) act)
      (\<lambda>_. inv_of C W P) safe"
    by (simp add: hoare_def on_state_def ts_flush_def)
  have set: "inv_of C W P (sk\<lparr>sk_state := (sk_state sk)\<lparr>ts_inmem := (ts_inmem (sk_state sk))
      \<lparr>im_commit_lsn := min c (sk_flush_lsn C W sk)\<rparr>\<rparr>\<rparr>)"
    if "inv_of C W P sk" for sk :: "('c, 'w) safekeeper" and c
    using that by (simp add: cok_def sk_flush_lsn_def)
  show ?thesis
    unfolding update_commit_lsn_def Let_def
    by (rule hoareI) (auto split: if_splits intro: weak set dest: hoareD [OF fl set])
qed

lemma hoare_append_rest:
  assumes "write_ok l b"
  shows "hoare clean (abind (\<lambda>self :: ('c, 'w) safekeeper. if b \<noteq> [] then on_wal (wl_write_wal W l b) self else (Inr (), self)) (\<lambda>_.
      abind (\<lambda>self. if fl then on_wal (wl_flush_wal W) self else (Inr (), self)) (\<lambda>_.
      abind (\<lambda>self. if c \<noteq> 0 then update_commit_lsn C W c self else (Inr (), self)) (\<lambda>_ self.
      let self = set_peer_horizon p self
      in if B self then (Inr (f self), self) else (Inr (g self), self))))) (\<lambda>_. clean) safe"
proof -
  have 1: "hoare clean (\<lambda>self :: ('c, 'w) safekeeper. if b \<noteq> [] then on_wal (wl_write_wal W l b) self
      else (Inr (), self)) (\<lambda>_. clean) safe"
    using hoare_write [OF assms] by (auto simp: hoare_def)
  have 2: "hoare clean (\<lambda>self :: ('c, 'w) safekeeper. if fl then on_wal (wl_flush_wal W) self
      else (Inr (), self)) (\<lambda>_. clean) safe"
    using hoare_flush_clean by (auto simp: hoare_def)
  have 3: "hoare clean (\<lambda>self :: ('c, 'w) safekeeper. if c \<noteq> 0 then update_commit_lsn C W c self
      else (Inr (), self)) (\<lambda>_. clean) safe"
    using hoare_update_commit_lsn [of wal_inv] by (auto simp: hoare_def)
  have "clean sk \<Longrightarrow> clean (set_peer_horizon p sk)" for sk
    by (simp add: set_peer_horizon_def cok_def)
  then have 4: "hoare clean (\<lambda>self :: ('c, 'w) safekeeper. let self = set_peer_horizon p self
      in if B self then (Inr (f self), self) else (Inr (g self), self)) (\<lambda>_. clean) safe"
    by (auto simp: hoare_def Let_def)
  show ?thesis by (rule hoare_abind [OF 1 hoare_abind [OF 2 hoare_abind [OF 3 4]]])
qed

lemma hoare_append_request:
  assumes "write_ok (ah_begin_lsn (ar_h msg)) (ar_wal_data msg)"
  shows "hoare clean (handle_append_request C W msg fl :: ('c, 'w) handler) (\<lambda>_. clean) safe"
proof (rule hoareI)
  fix s e and s' :: "('c, 'w) safekeeper"
  assume "clean s" "handle_append_request C W msg fl s = (Inl e, s')"
  then show "safe s'"
    by (auto simp: handle_append_request_def Let_def [of "ar_h msg"] Let_def [of "wl_write_lsn W _"]
        Let_def [of "wl_flush_lsn W _"] split: if_splits intro: clean_safe
        dest: hoareD [OF hoare_append_rest [OF assms]])
next
  fix s x and s' :: "('c, 'w) safekeeper"
  assume "clean s" "handle_append_request C W msg fl s = (Inr x, s')"
  then show "clean s'"
    by (auto simp: handle_append_request_def Let_def [of "ar_h msg"] Let_def [of "wl_write_lsn W _"]
        Let_def [of "wl_flush_lsn W _"] split: if_splits
        dest: hoareD [OF hoare_append_rest [OF assms]])
qed

lemma hoare_handle_flush: "hoare clean (handle_flush C W :: ('c, 'w) handler) (\<lambda>_. clean) safe"
  unfolding handle_flush_def by (rule hoare_abind [OF hoare_flush_clean hoare_return])

lemma hoare_process_msg:
  assumes "msg_ok msg"
  shows "hoare clean (process_msg C W msg) (\<lambda>_. clean) safe"
proof (cases msg)
  case (PGreeting m)
  then show ?thesis by (auto intro: hoare_weaken [OF hoare_greeting] clean_safe)
qed (use assms in \<open>simp_all add: hoare_vote_request hoare_handle_elected hoare_append_request hoare_handle_flush\<close>)

lemma process_msg_commit_ok:
  assumes "process_msg C W msg sk = (r, sk')" "commit_ok C W sk" "wal_inv (sk_wal_store sk)" "msg_ok msg"
  shows "commit_ok C W sk'" "\<not> isl r \<Longrightarrow> wal_inv (sk_wal_store sk')"
proof -
  have "clean sk" using assms by (simp add: inv_of_iff)
  from hoareD [OF hoare_process_msg [OF assms(4)] this assms(1)]
  show "commit_ok C W sk'" "\<not> isl r \<Longrightarrow> wal_inv (sk_wal_store sk')"
    by (auto simp: inv_of_iff split: sum.splits)
qed

text \<open>After a failure the next accepted election cleans up.\<close>

lemma elected_recovers:
  assumes "handle_elected C W msg sk = (Inr x, sk')" "commit_ok C W sk" "wal_dirty (sk_wal_store sk)"
    "pe_start_streaming_at msg \<noteq> 0" "sk_term C sk \<le> pe_term msg"
  shows "commit_ok C W sk' \<and> wal_inv (sk_wal_store sk')"
proof -
  have s: "safe sk" using assms by (simp add: inv_of_iff)
  obtain u sk1 where 1: "elected_adopt_term C msg sk = (Inr u, sk1)"
    using assms(1) by (auto simp: handle_elected_def monad_simps split: if_splits)
  have "safe sk1" using hoareD [OF hoare_adopt_term [of wal_dirty] s 1] by simp
  moreover have "\<not> pe_term msg < sk_term C sk1"
    using 1 assms(5) by (auto simp: elected_adopt_term_def on_state_eq split: if_splits
        dest!: finish_change_Inr)
  moreover have "abind (elected_adopt_term C msg) f sk = f u sk1"
    for f :: "unit \<Rightarrow> (('c, 'w) safekeeper, acceptor_proposer_message option) act"
    by (simp add: abind_def 1)
  ultimately have "clean sk'"
    using assms(1) by (auto simp: handle_elected_def split: if_splits
        dest!: hoareD [OF hoare_elected_rest [OF assms(4)]])
  then show ?thesis by (simp add: inv_of_iff)
qed

end

end
