(* ===== verification/WalStorage.thy ===== *)
theory WalStorage
  imports XlogFile SafekeeperInv
begin

text \<open>
  The WAL storage of a timeline, safekeeper/src/wal_storage.rs: \<open>PhysicalStorage\<close> and its
  implementation of the trait \<open>Storage\<close>, over the file operations of \<open>Fs\<close>. The parameters are
  the Postgres bindings \<open>B\<close> and page header encoders \<open>E\<close>, per version. An open file is its inode
  and the position of its cursor. Metrics and log lines are left out. The theory ends with the
  interpretation of the contract \<open>wal_store\<close> that the safekeeper relies on.
\<close>

record phys_storage =
  ph_fs :: fs
  ph_no_sync :: bool
  ph_wal_seg_size :: u64
  ph_pg_version :: u32
  ph_system_id :: u64
  ph_write_lsn :: lsn
  ph_write_record_lsn :: lsn
  ph_flush_lsn :: lsn
  ph_flush_record_lsn :: lsn
  ph_decoder :: decoder
  ph_file :: "(nat \<times> nat) option"
  ph_pending_wal_truncation :: bool

definition on_fs :: "(fs, 'a) act \<Rightarrow> (phys_storage, 'a) act" where
  "on_fs m self = (case m (ph_fs self) of (r, fs') \<Rightarrow> (r, self\<lparr>ph_fs := fs'\<rparr>))"

definition lift_res :: "'a res \<Rightarrow> ('s, 'a) act" where
  "lift_res r s = (r, s)"

definition MAJOR :: "u32 \<Rightarrow> u32" where
  "MAJOR pg_version = pg_version div 10000"

definition phys_storage_new ::
  "(u32 \<Rightarrow> pg_bindings) \<Rightarrow> timeline_persistent_state \<Rightarrow> bool \<Rightarrow> (fs, phys_storage) act" where
  "phys_storage_new B state no_sync =
     (let wal_seg_size = ucast (si_wal_seg_size (ps_server state)) :: u64;
          version = MAJOR (si_pg_version (ps_server state))
      in abind (if ps_commit_lsn state = 0 then areturn 0 else
                  (case dispatch_pgversion B version of
                     None \<Rightarrow> afail (Bail ''unsupported postgres version'')
                   | Some _ \<Rightarrow> find_end_of_wal B version wal_seg_size (ps_commit_lsn state)))
           (\<lambda>write_lsn fs.
         if write_lsn < ps_commit_lsn state
         then (Inl (Bail ''potential data loss: flush_lsn is less than commit_lsn''), fs)
         else (Inr \<lparr>ph_fs = fs, ph_no_sync = no_sync, ph_wal_seg_size = wal_seg_size,
             ph_pg_version = si_pg_version (ps_server state), ph_system_id = si_system_id (ps_server state),
             ph_write_lsn = write_lsn, ph_write_record_lsn = write_lsn, ph_flush_lsn = write_lsn,
             ph_flush_record_lsn = write_lsn, ph_decoder = decoder_new write_lsn version,
             ph_file = None, ph_pending_wal_truncation = True\<rparr>, fs)))"

text \<open>\<open>fsync_file\<close> and \<open>fdatasync_file\<close>.\<close>

definition fsync_file :: "bool \<Rightarrow> nat \<Rightarrow> (fs, unit) act" where
  "fsync_file no_sync i = (if no_sync then areturn () else fs_sync i)"

text \<open>A new segment is prepared under the name \<open>waltmp\<close> and renamed; a failed rename is followed by
  the removal of the target, ignoring that it may not exist.\<close>

definition create_segment :: "bool \<Rightarrow> u64 \<Rightarrow> string \<Rightarrow> (fs, nat \<times> bool) act" where
  "create_segment no_sync wal_seg_size partial_path =
     abind (fs_create ''waltmp'') (\<lambda>file.
     abind (fs_set_len file (unat wal_seg_size)) (\<lambda>_ fs.
     case durable_rename ''waltmp'' partial_path (\<not> no_sync) fs of
       (Inr _, fs) \<Rightarrow> (Inr (file, True), fs)
     | (Inl e, fs) \<Rightarrow>
         (case fs_remove partial_path fs of
            (Inr _, fs) \<Rightarrow> (Inl e, fs)
          | (Inl e', fs) \<Rightarrow> (Inl (if e' = Io ''NotFound'' then e else e'), fs))))"

definition open_or_create :: "bool \<Rightarrow> u64 \<Rightarrow> seg_no \<Rightarrow> (fs, nat \<times> bool) act" where
  "open_or_create no_sync wal_seg_size segno =
     abind (lift_res (wal_file_paths segno wal_seg_size)) (\<lambda>(path, partial_path) fs.
     case fs_open path fs of
       (Inr file, fs) \<Rightarrow> (Inr (file, False), fs)
     | (Inl _, fs) \<Rightarrow>
         (case fs_open partial_path fs of
            (Inr file, fs) \<Rightarrow> (Inr (file, True), fs)
          | (Inl _, fs) \<Rightarrow> create_segment no_sync wal_seg_size partial_path fs))"

definition open_for_write :: "bool \<Rightarrow> u64 \<Rightarrow> seg_no \<Rightarrow> nat \<Rightarrow> (fs, nat \<times> nat) act" where
  "open_for_write no_sync wal_seg_size segno xlogoff =
     abind (open_or_create no_sync wal_seg_size segno) (\<lambda>(file, is_partial).
     if is_partial then fs_seek file xlogoff
     else afail (Panic ''unexpected write into non-partial segment file''))"

text \<open>What happens to the file in \<open>write_in_segment\<close> once it is open; \<open>True\<close> when the segment was
  completed.\<close>

definition write_to_file ::
  "bool \<Rightarrow> u64 \<Rightarrow> seg_no \<Rightarrow> nat \<Rightarrow> bytes \<Rightarrow> nat \<times> nat \<Rightarrow> (fs, bool) act" where
  "write_to_file no_sync wal_seg_size segno xlogoff buf = (\<lambda>(file, pos).
     abind (fs_write_all file pos buf) (\<lambda>_.
     abind (fs_flush file) (\<lambda>_.
     if xlogoff + length buf = unat wal_seg_size then
       abind (fsync_file no_sync file) (\<lambda>_.
       abind (lift_res (wal_file_paths segno wal_seg_size)) (\<lambda>(path, partial_path).
       abind (fs_rename partial_path path) (\<lambda>_. areturn True)))
     else areturn False)))"

definition write_in_segment :: "seg_no \<Rightarrow> nat \<Rightarrow> bytes \<Rightarrow> (phys_storage, bool) act" where
  "write_in_segment segno xlogoff buf self =
     (let no_sync = ph_no_sync self; sz = ph_wal_seg_size self
      in abind (\<lambda>self. case ph_file self of
            Some f \<Rightarrow> (Inr f, self\<lparr>ph_file := None\<rparr>)
          | None \<Rightarrow> on_fs (open_for_write no_sync sz segno xlogoff) self)
        (\<lambda>(file, pos).
          abind (on_fs (write_to_file no_sync sz segno xlogoff buf (file, pos))) (\<lambda>completed self.
          (Inr completed,
           if completed then self else self\<lparr>ph_file := Some (file, pos + length buf)\<rparr>))) self)"

definition bytes_to_write :: "nat \<Rightarrow> nat \<Rightarrow> nat \<Rightarrow> nat" where
  "bytes_to_write wal_seg_size xlogoff len =
     (if xlogoff + len > wal_seg_size then wal_seg_size - xlogoff else len)"

function write_loop :: "bytes \<Rightarrow> (phys_storage, unit) act" where
  "write_loop buf self =
     (if buf = [] then (Inr (), self)
      else if ph_wal_seg_size self = 0
      then (Inl (Panic ''attempt to calculate the remainder with a divisor of zero''), self)
      else
        let xlogoff = unat (segment_offset (ph_write_lsn self) (ph_wal_seg_size self));
            segno = segment_number (ph_write_lsn self) (ph_wal_seg_size self);
            n = bytes_to_write (unat (ph_wal_seg_size self)) xlogoff (length buf)
        in case write_in_segment segno xlogoff (take n buf) self of
             (Inl e, self) \<Rightarrow> (Inl e, self)
           | (Inr flushed, self) \<Rightarrow>
               (case lsn_add (ph_write_lsn self) (of_nat n) of
                  Inl e \<Rightarrow> (Inl e, self)
                | Inr l \<Rightarrow>
                    write_loop (drop n buf)
                      (self\<lparr>ph_write_lsn := l, ph_flush_lsn := (if flushed then l else ph_flush_lsn self)\<rparr>)))"
  by pat_completeness auto

lemma bytes_to_write_pos: "off < sz \<Longrightarrow> 0 < len \<Longrightarrow> 0 < bytes_to_write sz off len"
  by (simp add: bytes_to_write_def)

lemma segment_offset_less: "s \<noteq> 0 \<Longrightarrow> unat (segment_offset l s) < unat s"
  by (simp add: lsn_simps unat_gt_0)

termination write_loop
  by (relation "measure (\<lambda>(buf, self). length buf)")
    (auto simp: bytes_to_write_pos segment_offset_less)

declare write_loop.simps [simp del]

definition write_exact :: "lsn \<Rightarrow> bytes \<Rightarrow> (phys_storage, unit) act" where
  "write_exact pos buf =
     abind (\<lambda>self.
       if ph_write_lsn self \<noteq> pos then
         abind (\<lambda>self. case ph_file self of
             None \<Rightarrow> (Inr (), self)
           | Some (file, _) \<Rightarrow> on_fs (fsync_file (ph_no_sync self) file) (self\<lparr>ph_file := None\<rparr>))
           (\<lambda>_ self. (Inr (), self\<lparr>ph_write_lsn := pos\<rparr>)) self
       else (Inr (), self))
     (\<lambda>_. write_loop buf)"

text \<open>The loop over the decoded records in \<open>write_wal\<close>.\<close>

function record_loop :: "(u32 \<Rightarrow> pg_bindings) \<Rightarrow> (phys_storage, unit) act" where
  "record_loop B self =
     (case poll_decode B (ph_decoder self) of
        (Inl e, d) \<Rightarrow> (Inl e, self\<lparr>ph_decoder := d\<rparr>)
      | (Inr None, d) \<Rightarrow> (Inr (), self\<lparr>ph_decoder := d\<rparr>)
      | (Inr (Some (l, _)), d) \<Rightarrow>
          record_loop B (self\<lparr>ph_decoder := d, ph_write_record_lsn := l,
            ph_flush_record_lsn := (if l \<le> ph_flush_lsn self then l else ph_flush_record_lsn self)\<rparr>))"
  by auto
termination
  by (relation "measure (\<lambda>(B, self). dec_measure (ph_decoder self))")
    (auto intro: poll_decode_measure [OF sym])

declare record_loop.simps [simp del]

definition restart_decoder :: "lsn \<Rightarrow> (phys_storage, unit) act" where
  "restart_decoder startpos self =
     (case decoder_available (ph_decoder self) of
        Inl e \<Rightarrow> (Inl e, self)
      | Inr available \<Rightarrow>
          (Inr (), if available \<noteq> startpos
                   then self\<lparr>ph_decoder := decoder_new startpos (d_pg_version (ph_decoder self))\<rparr>
                   else self))"

text \<open>The decoder gets the bytes, and a record written earlier may turn out to be flushed.\<close>

definition feed_decoder :: "bytes \<Rightarrow> phys_storage \<Rightarrow> phys_storage" where
  "feed_decoder buf self =
     (if ph_write_record_lsn self \<le> ph_flush_lsn self
      then self\<lparr>ph_decoder := feed_bytes buf (ph_decoder self), ph_flush_record_lsn := ph_write_record_lsn self\<rparr>
      else self\<lparr>ph_decoder := feed_bytes buf (ph_decoder self)\<rparr>)"

definition write_wal :: "(u32 \<Rightarrow> pg_bindings) \<Rightarrow> lsn \<Rightarrow> bytes \<Rightarrow> (phys_storage, unit) act" where
  "write_wal B startpos buf self =
     (if ph_write_lsn self > startpos
      then (Inl (Bail ''write_wal rewrites WAL written before''), self)
      else if ph_write_lsn self < startpos \<and> ph_write_lsn self \<noteq> 0
      then (Inl (Bail ''write_wal creates gap in written WAL''), self)
      else if ph_pending_wal_truncation self
      then (Inl (Bail ''write_wal called with pending WAL truncation''), self)
      else
        abind (write_exact startpos buf) (\<lambda>_.
        abind (restart_decoder startpos) (\<lambda>_ self. record_loop B (feed_decoder buf self))) self)"

definition flush_wal :: "(phys_storage, unit) act" where
  "flush_wal self =
     (if ph_flush_record_lsn self = ph_write_record_lsn self then (Inr (), self)
      else case ph_file self of
        None \<Rightarrow> (Inl (Bail ''unexpected unflushed data with no open file''), self)
      | Some (file, pos) \<Rightarrow>
          abind (on_fs (fsync_file (ph_no_sync self) file)) (\<lambda>_ self.
            (Inr (), self\<lparr>ph_file := Some (file, pos), ph_flush_lsn := ph_write_lsn self,
                          ph_flush_record_lsn := ph_write_record_lsn self\<rparr>))
          (self\<lparr>ph_file := None\<rparr>))"

fun remove_loop :: "u64 \<Rightarrow> (seg_no \<Rightarrow> bool) \<Rightarrow> string list \<Rightarrow> (fs, unit) act" where
  "remove_loop wal_seg_size remove_predicate [] fs = fs_next_entry fs"
| "remove_loop wal_seg_size remove_predicate (fname # names) fs =
     abind fs_next_entry (\<lambda>_.
     abind (if \<not> IsXLogFileName fname \<and> \<not> IsPartialXLogFileName fname then areturn ()
            else abind (lift_res (XLogFromFileName fname wal_seg_size)) (\<lambda>(segno, _).
                 if remove_predicate segno then fs_remove fname else areturn ()))
     (\<lambda>_. remove_loop wal_seg_size remove_predicate names)) fs"

definition remove_segments_from_disk :: "u64 \<Rightarrow> (seg_no \<Rightarrow> bool) \<Rightarrow> (fs, unit) act" where
  "remove_segments_from_disk wal_seg_size remove_predicate =
     abind fs_read_dir (remove_loop wal_seg_size remove_predicate)"

text \<open>The part of \<open>truncate_wal\<close> that works on the disk.\<close>

definition truncate_on_disk :: "bool \<Rightarrow> u64 \<Rightarrow> lsn \<Rightarrow> (fs, unit) act" where
  "truncate_on_disk no_sync wal_seg_size end_pos =
     (if wal_seg_size = 0 then afail (Panic ''attempt to calculate the remainder with a divisor of zero'')
      else
        let xlogoff = unat (segment_offset end_pos wal_seg_size);
            segno = segment_number end_pos wal_seg_size
        in abind (remove_segments_from_disk wal_seg_size (\<lambda>x. x > segno)) (\<lambda>_.
           abind (open_or_create no_sync wal_seg_size segno) (\<lambda>(file, is_partial).
           abind (fs_set_len file xlogoff) (\<lambda>_.
           abind (fs_set_len file (unat wal_seg_size)) (\<lambda>_.
           abind (fsync_file no_sync file) (\<lambda>_.
           if is_partial then areturn () else
             abind (lift_res (wal_file_paths segno wal_seg_size)) (\<lambda>(path, partial_path).
             fs_rename path partial_path)))))))"

definition truncate_wal :: "lsn \<Rightarrow> (phys_storage, unit) act" where
  "truncate_wal end_pos self =
     (if ph_write_record_lsn self \<noteq> 0 \<and> end_pos > ph_write_record_lsn self
      then (Inl (Bail ''truncate_wal called on non-written WAL''), self)
      else if \<not> ph_pending_wal_truncation self \<and> end_pos = ph_write_lsn self \<and> end_pos = ph_flush_record_lsn self
      then (Inr (), self)
      else
        let self = self\<lparr>ph_pending_wal_truncation := True, ph_write_lsn := end_pos, ph_flush_lsn := end_pos,
                        ph_write_record_lsn := end_pos, ph_flush_record_lsn := end_pos\<rparr>
        in abind (\<lambda>self. case ph_file self of
              None \<Rightarrow> (Inr (), self)
            | Some (file, _) \<Rightarrow> on_fs (fsync_file (ph_no_sync self) file) (self\<lparr>ph_file := None\<rparr>))
          (\<lambda>_. abind (on_fs (truncate_on_disk (ph_no_sync self) (ph_wal_seg_size self) end_pos)) (\<lambda>_ self.
            (Inr (), self\<lparr>ph_pending_wal_truncation := False\<rparr>))) self)"

definition initialize_first_segment ::
  "(u32 \<Rightarrow> pg_bindings) \<Rightarrow> (u32 \<Rightarrow> phd_encoders) \<Rightarrow> lsn \<Rightarrow> (phys_storage, unit) act" where
  "initialize_first_segment B E init_lsn self =
     (if ph_wal_seg_size self = 0 then (Inl (Panic ''attempt to divide by zero''), self)
      else
        let segno = segment_number init_lsn (ph_wal_seg_size self)
        in on_fs (abind (open_or_create (ph_no_sync self) (ph_wal_seg_size self) segno) (\<lambda>(file, _).
             abind (lift_res (generate_wal_segment B E segno (ph_system_id self) (MAJOR (ph_pg_version self)) init_lsn))
               (\<lambda>wal_seg.
             abind (fs_seek file 0) (\<lambda>(file, pos).
             abind (fs_write_all file pos wal_seg) (\<lambda>_. fs_flush file))))) self)"

definition remove_up_to :: "seg_no \<Rightarrow> phys_storage \<Rightarrow> (fs, unit) act" where
  "remove_up_to segno_up_to self = remove_segments_from_disk (ph_wal_seg_size self) (\<lambda>x. x \<le> segno_up_to)"

definition close_storage :: "phys_storage \<Rightarrow> phys_storage" where
  "close_storage self = self\<lparr>ph_file := None\<rparr>"

definition internal_state :: "phys_storage \<Rightarrow> lsn \<times> lsn \<times> lsn \<times> bool" where
  "internal_state self = (ph_write_lsn self, ph_write_record_lsn self, ph_flush_record_lsn self, ph_file self \<noteq> None)"

text \<open>The trait implementation. The flush position that is reported is that of the last flushed
  record.\<close>

definition phys_wal :: "(u32 \<Rightarrow> pg_bindings) \<Rightarrow> (u32 \<Rightarrow> phd_encoders) \<Rightarrow> phys_storage wal_storage" where
  "phys_wal B E = \<lparr>wl_write_lsn = ph_write_lsn, wl_flush_lsn = ph_flush_record_lsn,
     wl_initialize_first_segment = initialize_first_segment B E, wl_write_wal = write_wal B,
     wl_truncate_wal = truncate_wal, wl_flush_wal = flush_wal\<rparr>"

subsection \<open>What the operations leave alone\<close>

definition rest_of :: "phys_storage \<Rightarrow> phys_storage" where
  "rest_of st = st\<lparr>ph_fs := \<lparr>fs_dir = [], fs_dir_synced = [], fs_inodes = [], fs_faults = []\<rparr>, ph_file := None\<rparr>"

lemma on_fs_rest: "on_fs m st = (r, st') \<Longrightarrow> st' = st\<lparr>ph_fs := ph_fs st'\<rparr>"
  by (auto simp: on_fs_def split: prod.splits)

lemma rest_of_simps [simp]:
  "rest_of (st\<lparr>ph_fs := x\<rparr>) = rest_of st" "rest_of (st\<lparr>ph_file := f\<rparr>) = rest_of st"
  by (simp_all add: rest_of_def)

lemma on_fs_rest_of: "on_fs m st = (r, st') \<Longrightarrow> rest_of st' = rest_of st"
  by (metis on_fs_rest rest_of_simps(1))

lemma rest_ofD:
  assumes "rest_of st' = rest_of st"
  shows "ph_write_lsn st' = ph_write_lsn st" "ph_write_record_lsn st' = ph_write_record_lsn st"
    "ph_flush_lsn st' = ph_flush_lsn st" "ph_flush_record_lsn st' = ph_flush_record_lsn st"
    "ph_decoder st' = ph_decoder st" "ph_pending_wal_truncation st' = ph_pending_wal_truncation st"
    "ph_wal_seg_size st' = ph_wal_seg_size st" "ph_no_sync st' = ph_no_sync st"
  using assms by (auto simp: rest_of_def dest: arg_cong [of _ _ ph_write_lsn] arg_cong [of _ _ ph_write_record_lsn]
      arg_cong [of _ _ ph_flush_lsn] arg_cong [of _ _ ph_flush_record_lsn] arg_cong [of _ _ ph_decoder]
      arg_cong [of _ _ ph_pending_wal_truncation] arg_cong [of _ _ ph_wal_seg_size] arg_cong [of _ _ ph_no_sync])

lemma write_in_segment_rest:
  "write_in_segment segno off buf st = (r, st') \<Longrightarrow> rest_of st' = rest_of st"
  by (auto simp: write_in_segment_def abind_def Let_def split: prod.splits sum.splits option.splits if_splits
      dest!: on_fs_rest_of)

text \<open>Writing moves the two write positions only, and forward.\<close>

definition recs_of :: "phys_storage \<Rightarrow> phys_storage" where
  "recs_of st = (rest_of st)\<lparr>ph_write_lsn := 0, ph_flush_lsn := 0\<rparr>"

lemma recs_of_simps [simp]:
  "recs_of (st\<lparr>ph_write_lsn := a\<rparr>) = recs_of st" "recs_of (st\<lparr>ph_flush_lsn := b\<rparr>) = recs_of st"
  by (simp_all add: recs_of_def rest_of_def)

lemma recs_ofI: "rest_of st' = rest_of st \<Longrightarrow> recs_of st' = recs_of st"
  by (simp add: recs_of_def)

lemma recs_ofD:
  assumes "recs_of st' = recs_of st"
  shows "ph_write_record_lsn st' = ph_write_record_lsn st" "ph_flush_record_lsn st' = ph_flush_record_lsn st"
    "ph_decoder st' = ph_decoder st" "ph_pending_wal_truncation st' = ph_pending_wal_truncation st"
  using assms by (auto simp: recs_of_def rest_of_def dest: arg_cong [of _ _ ph_write_record_lsn]
      arg_cong [of _ _ ph_flush_record_lsn] arg_cong [of _ _ ph_decoder] arg_cong [of _ _ ph_pending_wal_truncation])

text \<open>The cases of one turn of the write loop, and its induction.\<close>

abbreviation chunk :: "bytes \<Rightarrow> phys_storage \<Rightarrow> nat" where
  "chunk buf st \<equiv> bytes_to_write (unat (ph_wal_seg_size st))
     (unat (segment_offset (ph_write_lsn st) (ph_wal_seg_size st))) (length buf)"

abbreviation write_chunk :: "bytes \<Rightarrow> (phys_storage, bool) act" where
  "write_chunk buf st \<equiv> write_in_segment (segment_number (ph_write_lsn st) (ph_wal_seg_size st))
     (unat (segment_offset (ph_write_lsn st) (ph_wal_seg_size st))) (take (chunk buf st) buf) st"

definition advance :: "bool \<Rightarrow> lsn \<Rightarrow> phys_storage \<Rightarrow> phys_storage" where
  "advance flushed l st = st\<lparr>ph_write_lsn := l, ph_flush_lsn := (if flushed then l else ph_flush_lsn st)\<rparr>"

lemma chunk_bounds:
  assumes "ph_wal_seg_size st \<noteq> 0" "buf \<noteq> []"
  shows "0 < chunk buf st" "chunk buf st \<le> length buf" "length (drop (chunk buf st) buf) < length buf"
  using assms bytes_to_write_pos [OF segment_offset_less [OF assms(1)], of "length buf" "ph_write_lsn st"]
  by (auto simp: bytes_to_write_def)

lemma write_loop_cases:
  assumes "write_loop buf st = (r, st')"
  obtains (finished) "buf = []" "r = Inr ()" "st' = st"
  | (zero) e where "buf \<noteq> []" "ph_wal_seg_size st = 0" "r = Inl e" "st' = st"
  | (failed) e q where "buf \<noteq> []" "ph_wal_seg_size st \<noteq> 0" "write_chunk buf st = (q, st')" "r = Inl e"
      "isl q \<or> isl (lsn_add (ph_write_lsn st') (of_nat (chunk buf st)))"
  | (turn) flushed st1 l where "buf \<noteq> []" "ph_wal_seg_size st \<noteq> 0" "write_chunk buf st = (Inr flushed, st1)"
      "lsn_add (ph_write_lsn st1) (of_nat (chunk buf st)) = Inr l"
      "write_loop (drop (chunk buf st) buf) (advance flushed l st1) = (r, st')"
proof (cases "buf = []")
  case True
  with assms have "r = Inr ()" "st' = st" by (subst (asm) write_loop.simps, simp)+
  with True show thesis by (rule finished)
next
  case ne: False
  show thesis
  proof (cases "ph_wal_seg_size st = 0")
    case True
    with assms ne have "isl r" "st' = st" by (subst (asm) write_loop.simps, auto)+
    with ne True show thesis using zero by (cases r) auto
  next
    case False
    obtain q st1 where q: "write_chunk buf st = (q, st1)" by fastforce
    let ?add = "lsn_add (ph_write_lsn st1) (of_nat (chunk buf st))"
    show thesis
    proof (cases "isl q \<or> isl ?add")
      case True
      with assms ne False q have r: "isl r" "st' = st1"
        by (subst (asm) write_loop.simps, auto simp: Let_def split: sum.splits)+
      then obtain e where "r = Inl e" by (cases r) auto
      with r(2) show thesis using failed [OF ne False] q True by blast
    next
      case F: False
      then obtain flushed l where fl: "q = Inr flushed" "?add = Inr l" by (cases q; cases ?add) auto
      with assms ne False q have "write_loop (drop (chunk buf st) buf) (advance flushed l st1) = (r, st')"
        by (subst (asm) write_loop.simps, simp add: Let_def advance_def)
      with fl show thesis using turn [OF ne False] q by blast
    qed
  qed
qed

lemma advance_simps [simp]:
  "recs_of (advance f l st) = recs_of st" "ph_write_lsn (advance f l st) = l" "ph_file (advance f l st) = ph_file st"
  "ph_fs (advance f l st) = ph_fs st" "ph_wal_seg_size (advance f l st) = ph_wal_seg_size st"
  "ph_no_sync (advance f l st) = ph_no_sync st"
  by (simp_all add: advance_def)

lemma write_loop_frame:
  "write_loop buf st = (r, st') \<Longrightarrow> recs_of st' = recs_of st \<and> ph_write_lsn st \<le> ph_write_lsn st'"
proof (induction "length buf" arbitrary: buf st rule: less_induct)
  case less
  from less.prems show ?case
  proof (cases rule: write_loop_cases)
    case (failed e q)
    note w = write_in_segment_rest [OF failed(3)]
    show ?thesis using recs_ofI [OF w] rest_ofD(1) [OF w] by simp
  next
    case (turn flushed st1 l)
    have "recs_of st' = recs_of (advance flushed l st1) \<and> l \<le> ph_write_lsn st'"
      using less.hyps [OF chunk_bounds(3) [OF turn(2,1)] turn(5)] by simp
    moreover have "recs_of st1 = recs_of st" "ph_write_lsn st \<le> l"
      using recs_ofI [OF write_in_segment_rest [OF turn(3)]] lsn_add_mono [OF turn(4)]
        rest_ofD(1) [OF write_in_segment_rest [OF turn(3)]] by simp_all
    ultimately show ?thesis by auto
  qed auto
qed

lemma write_loop_end:
  "write_loop buf st = (Inr (), st') \<Longrightarrow> unat (ph_write_lsn st) + length buf < 2 ^ 64 \<Longrightarrow>
     unat (ph_write_lsn st') = unat (ph_write_lsn st) + length buf"
proof (induction "length buf" arbitrary: buf st rule: less_induct)
  case less
  from less.prems(1) show ?case
  proof (cases rule: write_loop_cases)
    case (turn flushed st1 l)
    let ?n = "chunk buf st"
    have n: "?n \<le> length buf" by (rule chunk_bounds(2) [OF turn(2,1)])
    then have "unat (of_nat ?n :: u64) = ?n" using less.prems(2) by (simp add: unat_of_nat take_bit_eq_mod)
    then have l: "unat l = unat (ph_write_lsn st) + ?n"
      using lsn_add_unat [OF turn(4)] rest_ofD(1) [OF write_in_segment_rest [OF turn(3)]] by simp
    have "unat (ph_write_lsn st') = unat l + length (drop ?n buf)"
      using less.hyps [OF chunk_bounds(3) [OF turn(2,1)] turn(5)] l n less.prems(2) by simp
    then show ?thesis using l n by simp
  qed auto
qed

lemma write_exact_frame:
  assumes "write_exact pos buf st = (r, st')" "ph_write_lsn st = pos"
  shows "recs_of st' = recs_of st" "pos \<le> ph_write_lsn st'"
    "r = Inr () \<Longrightarrow> unat pos + length buf < 2 ^ 64 \<Longrightarrow> unat (ph_write_lsn st') = unat pos + length buf"
  using assms write_loop_frame [of buf st r st'] write_loop_end [of buf st st']
  by (auto simp: write_exact_def abind_def)

subsection \<open>The positions of a storage\<close>

text \<open>The record positions are ordered; before the first truncation nothing was decoded; a decoder
  that will be used again is at or beyond the last record; a record that is not flushed begins
  before the end of the written WAL. After a successful operation, moreover,
  the decoder is at the end of the written WAL or will be restarted at a position that is not
  before the last record.\<close>

definition ph_dirty :: "phys_storage \<Rightarrow> bool" where
  "ph_dirty st \<longleftrightarrow> ph_flush_record_lsn st \<le> ph_write_record_lsn st \<and>
     (ph_write_record_lsn st = 0 \<longrightarrow> ph_pending_wal_truncation st \<and> d_end (ph_decoder st) = 0) \<and>
     (\<not> ph_pending_wal_truncation st \<longrightarrow> ph_write_lsn st \<noteq> 0) \<and>
     (ph_write_record_lsn st \<le> d_floor (ph_decoder st) \<or> d_end (ph_decoder st) = 0 \<and> ph_write_lsn st \<noteq> 0) \<and>
     d_fits (ph_decoder st) \<and> d_wf (ph_decoder st) \<and>
     (ph_flush_record_lsn st = ph_write_record_lsn st \<or> ph_flush_record_lsn st < ph_write_lsn st)"

definition ph_inv :: "phys_storage \<Rightarrow> bool" where
  "ph_inv st \<longleftrightarrow> ph_dirty st \<and>
     (d_end (ph_decoder st) = unat (ph_write_lsn st) \<or> ph_write_record_lsn st \<le> ph_write_lsn st)"

lemma ph_dirty_rest: "rest_of st' = rest_of st \<Longrightarrow> ph_dirty st' = ph_dirty st"
  using rest_ofD [of st' st] by (simp add: ph_dirty_def)

lemma ph_inv_rest: "rest_of st' = rest_of st \<Longrightarrow> ph_inv st' = ph_inv st"
  using rest_ofD [of st' st] ph_dirty_rest [of st' st] by (simp add: ph_inv_def)

lemma d_fits_new: "unat l + 8 \<le> 2 ^ 64 \<Longrightarrow> d_fits (decoder_new l v)"
  by (simp add: d_fits_def d_end_def decoder_new_def)

lemma available_end:
  assumes "decoder_available d = Inr a" "d_fits d"
  shows "unat a = d_end d"
proof -
  have "unat (of_nat (length (d_inputbuf d)) :: u64) = length (d_inputbuf d)"
    using assms(2) by (simp add: d_fits_def d_end_def unat_of_nat take_bit_eq_mod)
  then show ?thesis using lsn_add_unat assms(1) by (simp add: decoder_available_def d_end_def)
qed

text \<open>The record loop.\<close>

definition loop_inv :: "phys_storage \<Rightarrow> bool" where
  "loop_inv st \<longleftrightarrow> ph_flush_record_lsn st \<le> ph_write_record_lsn st \<and>
     ph_write_record_lsn st \<le> d_floor (ph_decoder st) \<and> d_fits (ph_decoder st) \<and> d_wf (ph_decoder st) \<and>
     (ph_flush_record_lsn st = ph_write_record_lsn st \<or> ph_flush_record_lsn st < ph_write_lsn st)"

lemma record_loop_ok:
  assumes "\<forall>v. pb_ok (B v)"
  shows "record_loop B st = (r, st') \<Longrightarrow> loop_inv st \<Longrightarrow>
    d_end (ph_decoder st) = unat (ph_write_lsn st) \<Longrightarrow> loop_inv st' \<and>
    ph_flush_record_lsn st \<le> ph_flush_record_lsn st' \<and> ph_write_record_lsn st \<le> ph_write_record_lsn st' \<and>
    ph_write_lsn st' = ph_write_lsn st \<and> ph_pending_wal_truncation st' = ph_pending_wal_truncation st \<and>
    ph_flush_lsn st' = ph_flush_lsn st \<and> (r = Inr () \<longrightarrow> d_end (ph_decoder st') = d_end (ph_decoder st))"
proof (induction "dec_measure (ph_decoder st)" arbitrary: st rule: less_induct)
  case less
  obtain q d where q: "poll_decode B (ph_decoder st) = (q, d)" by fastforce
  have p: "poll_ok (ph_decoder st) q d" by (rule poll_decode_ok [OF assms q])
  then have d: "d_fits d" "d_floor (ph_decoder st) \<le> d_floor d"
    using less.prems(2) by (auto simp: poll_ok_def dec_le_def loop_inv_def d_fits_def)
  have wf: "d_wf d" using poll_decode_wf(1) [OF assms q] less.prems(2) by (simp add: loop_inv_def)
  show ?case
  proof (cases "\<exists>l rec. q = Inr (Some (l, rec))")
    case False
    then have "st' = st\<lparr>ph_decoder := d\<rparr>" "r = Inr () \<Longrightarrow> q = Inr None"
      using less.prems(1) q by (subst (asm) record_loop.simps, auto split: sum.splits option.splits)+
    then show ?thesis
      using less.prems(2) d p wf by (auto simp: loop_inv_def poll_ok_def intro: order.trans)
  next
    case True
    then obtain l rec where l: "q = Inr (Some (l, rec))" by blast
    let ?st = "st\<lparr>ph_decoder := d, ph_write_record_lsn := l,
      ph_flush_record_lsn := (if l \<le> ph_flush_lsn st then l else ph_flush_record_lsn st)\<rparr>"
    have r: "record_loop B ?st = (r, st')" using less.prems(1) q l by (subst (asm) record_loop.simps) simp
    have lf: "l = d_floor d" "d_end d = d_end (ph_decoder st)"
      using p l less.prems(2) by (auto simp: poll_ok_def loop_inv_def)
    then have wl: "ph_write_record_lsn st \<le> l" using d less.prems(2) by (auto simp: loop_inv_def)
    have "unat (d_floor (ph_decoder st)) < unat (ph_write_lsn st)"
      using poll_decode_wf(2) [OF assms q, of "(l, rec)"] l less.prems(2,3) by (simp add: loop_inv_def)
    then have "ph_flush_record_lsn st < ph_write_lsn st"
      using less.prems(2) by (simp add: loop_inv_def word_less_nat_alt word_le_nat_alt)
    with wl have i: "loop_inv ?st" using less.prems(2) d lf wf by (auto simp: loop_inv_def)
    have m: "dec_measure d < dec_measure (ph_decoder st)" using poll_decode_measure q l by blast
    have "loop_inv st' \<and> ph_flush_record_lsn ?st \<le> ph_flush_record_lsn st' \<and>
      ph_write_record_lsn ?st \<le> ph_write_record_lsn st' \<and> ph_write_lsn st' = ph_write_lsn st \<and>
      ph_pending_wal_truncation st' = ph_pending_wal_truncation st \<and> ph_flush_lsn st' = ph_flush_lsn st \<and>
      (r = Inr () \<longrightarrow> d_end (ph_decoder st') = d_end d)"
      using less.hyps [OF _ r i] m lf(2) less.prems(3) by simp
    moreover have "ph_flush_record_lsn st \<le> ph_flush_record_lsn ?st"
      using wl less.prems(2) by (auto simp: loop_inv_def)
    ultimately show ?thesis using wl lf by (auto intro: order.trans)
  qed
qed

lemma d_feed [simp]:
  "d_end (feed_bytes buf d) = d_end d + length buf" "d_floor (feed_bytes buf d) = d_floor d"
  "d_wf (feed_bytes buf d) = d_wf d"
  by (simp_all add: d_end_def d_floor_def d_wf_def feed_bytes_def split: dec_state.splits)

lemma d_new [simp]: "d_end (decoder_new l v) = unat l" "d_floor (decoder_new l v) = l" "d_wf (decoder_new l v)"
  by (simp_all add: d_end_def d_floor_def d_wf_def decoder_new_def)

text \<open>After the restart the decoder stands at the start of the write, not before the last record.\<close>

lemma restart_decoder_ok:
  assumes "restart_decoder l st = (r, st')" "ph_inv st0" "recs_of st = recs_of st0"
    and "ph_write_lsn st0 = l" "l \<noteq> 0"
  shows "st' = st\<lparr>ph_decoder := ph_decoder st'\<rparr>" "isl r \<Longrightarrow> st' = st"
    "r = Inr u \<Longrightarrow> d_end (ph_decoder st') = unat l \<and> ph_write_record_lsn st \<le> d_floor (ph_decoder st') \<and>
       d_wf (ph_decoder st')"
proof -
  note R = recs_ofD [OF assms(3)]
  show "st' = st\<lparr>ph_decoder := ph_decoder st'\<rparr>" "isl r \<Longrightarrow> st' = st"
    using assms(1) by (auto simp: restart_decoder_def split: sum.splits)
  assume "r = Inr u"
  then obtain a where a: "decoder_available (ph_decoder st) = Inr a"
    and st': "st' = (if a \<noteq> l then st\<lparr>ph_decoder := decoder_new l (d_pg_version (ph_decoder st))\<rparr> else st)"
    using assms(1) by (auto simp: restart_decoder_def split: sum.splits)
  have e: "unat a = d_end (ph_decoder st0)"
    using available_end [OF a] assms(2) R by (simp add: ph_inv_def ph_dirty_def)
  have "a = l \<longleftrightarrow> d_end (ph_decoder st0) = unat l" using e by (metis word_unat_eq_iff)
  then show "d_end (ph_decoder st') = unat l \<and> ph_write_record_lsn st \<le> d_floor (ph_decoder st') \<and>
      d_wf (ph_decoder st')"
    using assms(2,4,5) R st' by (auto simp: ph_inv_def ph_dirty_def unat_eq_zero split: if_splits)
qed

lemma ph_dirty_recs:
  assumes "recs_of st' = recs_of st" "ph_dirty st" "ph_write_lsn st' \<noteq> 0" "ph_write_lsn st \<le> ph_write_lsn st'"
  shows "ph_dirty st'"
  using assms recs_ofD [OF assms(1)] by (auto simp: ph_dirty_def)

lemma loop_inv_dirty:
  "loop_inv st \<Longrightarrow> ph_write_record_lsn st \<noteq> 0 \<Longrightarrow> ph_write_lsn st \<noteq> 0 \<Longrightarrow> ph_dirty st"
  by (simp add: loop_inv_def ph_dirty_def)

lemma write_wal_guards:
  assumes "write_wal B l b st = (r, st')" "ph_inv st"
  obtains (refused) "isl r" "st' = st"
  | (go) "ph_write_lsn st = l" "l \<noteq> 0" "ph_write_record_lsn st \<noteq> 0"
      "abind (write_exact l b) (\<lambda>_. abind (restart_decoder l) (\<lambda>_ self. record_loop B (feed_decoder b self))) st = (r, st')"
proof (cases "ph_write_lsn st > l \<or> ph_write_lsn st < l \<and> ph_write_lsn st \<noteq> 0 \<or> ph_pending_wal_truncation st")
  case True
  with assms(1) have "isl r" "st' = st" by (auto simp: write_wal_def split: if_splits)
  then show thesis by (rule refused)
next
  case False
  with assms(2) have "ph_write_lsn st = l" "l \<noteq> 0" "ph_write_record_lsn st \<noteq> 0"
    by (auto simp: ph_inv_def ph_dirty_def)
  moreover have "abind (write_exact l b) (\<lambda>_. abind (restart_decoder l) (\<lambda>_ self. record_loop B (feed_decoder b self))) st = (r, st')"
    using assms(1) False unfolding write_wal_def by (simp split: if_splits)
  ultimately show thesis by (rule go)
qed

lemma write_wal_ok:
  assumes B: "\<forall>v. pb_ok (B v)" and w: "write_wal B l b st = (r, st')" and inv: "ph_inv st" "write_ok l b"
  shows "ph_flush_record_lsn st \<le> ph_flush_record_lsn st' \<and> ph_dirty st' \<and> (isl r \<or> ph_inv st')"
  using w inv(1)
proof (cases rule: write_wal_guards)
  case refused
  with inv(1) show ?thesis by (simp add: ph_inv_def)
next
  case go
  have dirty: "ph_dirty st" using inv(1) by (simp add: ph_inv_def)
  obtain r1 st1 where w1: "write_exact l b st = (r1, st1)" by fastforce
  note f1 = write_exact_frame [OF w1 go(1)]
  have nz: "ph_write_lsn st1 \<noteq> 0" using f1(2) go(2) by auto
  have d1: "ph_dirty st1" by (rule ph_dirty_recs [OF f1(1) dirty nz]) (simp add: f1(2) go(1))
  have e1: "ph_flush_record_lsn st1 = ph_flush_record_lsn st" by (rule recs_ofD(2) [OF f1(1)])
  show ?thesis
  proof (cases r1)
    case (Inl e)
    then have "st' = st1" "isl r" using go(4) w1 by (auto simp: abind_Inl)
    with d1 e1 show ?thesis by simp
  next
    case (Inr u)
    obtain r2 st2 where w2: "restart_decoder l st1 = (r2, st2)" by fastforce
    note f2 = restart_decoder_ok [OF w2 inv(1) f1(1) go(1,2)]
    show ?thesis
    proof (cases r2)
      case (Inl e)
      then have "st' = st1" "isl r" using go(4) w1 w2 Inr f2(2) by (auto simp: abind_def)
      with d1 e1 show ?thesis by simp
    next
      case (Inr v)
      define st4 where "st4 = feed_decoder b st2"
      have w4: "record_loop B st4 = (r, st')"
        using go(4) w1 w2 Inr \<open>r1 = Inr u\<close> by (simp add: abind_def st4_def)
      have st2: "ph_write_record_lsn st2 = ph_write_record_lsn st" "ph_flush_record_lsn st2 = ph_flush_record_lsn st"
        "ph_write_lsn st2 = ph_write_lsn st1"
        using arg_cong [OF f2(1), of ph_write_record_lsn] arg_cong [OF f2(1), of ph_flush_record_lsn]
          arg_cong [OF f2(1), of ph_write_lsn] recs_ofD [OF f1(1)] by simp_all
      have a: "ph_flush_record_lsn st \<le> ph_write_record_lsn st" using dirty by (simp add: ph_dirty_def)
      have d4: "d_end (ph_decoder st4) = unat l + length b" "ph_write_record_lsn st \<le> d_floor (ph_decoder st4)"
        using f2(3) [OF Inr] recs_ofD(1) [OF f1(1)] by (simp_all add: feed_decoder_def st4_def)
      have r4: "ph_write_record_lsn st4 = ph_write_record_lsn st" "ph_write_lsn st4 = ph_write_lsn st1"
        "ph_flush_record_lsn st \<le> ph_flush_record_lsn st4" "ph_flush_record_lsn st4 \<le> ph_write_record_lsn st4"
        using st2 a by (simp_all add: feed_decoder_def st4_def)
      have wf4: "d_wf (ph_decoder st4)" using f2(3) [OF Inr] by (simp add: feed_decoder_def st4_def)
      have "ph_flush_record_lsn st = ph_write_record_lsn st \<or> ph_flush_record_lsn st < ph_write_lsn st1"
        using dirty f1(2) go(1) by (auto simp: ph_dirty_def)
      then have h4: "ph_flush_record_lsn st4 = ph_write_record_lsn st4 \<or> ph_flush_record_lsn st4 < ph_write_lsn st4"
        using st2 by (simp add: feed_decoder_def st4_def)
      have e4: "d_end (ph_decoder st4) = unat (ph_write_lsn st4)"
        using d4(1) r4(2) f1(3) inv(2) \<open>r1 = Inr u\<close> by (simp add: write_ok_def)
      have "loop_inv st4" using d4 r4 inv(2) wf4 h4 by (simp add: loop_inv_def d_fits_def write_ok_def)
      note L = record_loop_ok [OF B w4 this e4]
      have "ph_write_record_lsn st' \<noteq> 0" using L r4(1) go(3) by auto
      then have d': "ph_dirty st'" using L r4(2) nz by (intro loop_inv_dirty) auto
      have "ph_inv st'" if "r = Inr ()"
        using d' L that e4 by (simp add: ph_inv_def)
      then show ?thesis using d' L r4(3) by (cases r) (auto intro: order.trans)
    qed
  qed
qed

lemma flush_wal_ok:
  assumes "flush_wal st = (r, st')" "ph_dirty st"
  shows "ph_flush_record_lsn st \<le> ph_flush_record_lsn st' \<and> ph_dirty st' \<and> (ph_inv st \<longrightarrow> ph_inv st')"
proof (cases "ph_flush_record_lsn st = ph_write_record_lsn st \<or> ph_file st = None")
  case True
  with assms show ?thesis by (auto simp: flush_wal_def split: if_splits)
next
  case False
  then obtain i pos where f: "ph_file st = Some (i, pos)" by auto
  obtain q st1 where q: "on_fs (fsync_file (ph_no_sync st) i) (st\<lparr>ph_file := None\<rparr>) = (q, st1)" by fastforce
  have rest: "rest_of st1 = rest_of st" using on_fs_rest_of [OF q] by simp
  have "st' = st1 \<or> st' = st1\<lparr>ph_file := Some (i, pos), ph_flush_lsn := ph_write_lsn st1,
      ph_flush_record_lsn := ph_write_record_lsn st1\<rparr>"
    using assms(1) False f q by (cases q) (auto simp: flush_wal_def abind_def)
  then show ?thesis
  proof
    assume "st' = st1"
    then show ?thesis
      using assms(2) ph_dirty_rest [OF rest] ph_inv_rest [OF rest] rest_ofD(4) [OF rest] by simp
  next
    assume st': "st' = st1\<lparr>ph_file := Some (i, pos), ph_flush_lsn := ph_write_lsn st1,
      ph_flush_record_lsn := ph_write_record_lsn st1\<rparr>"
    note R = rest_ofD [OF rest]
    have "ph_flush_record_lsn st \<le> ph_flush_record_lsn st'" using assms(2) R st' by (simp add: ph_dirty_def)
    moreover have d: "ph_dirty st'" using assms(2) R st' by (simp add: ph_dirty_def)
    moreover have "ph_inv st \<longrightarrow> ph_inv st'" using d R st' by (simp add: ph_inv_def)
    ultimately show ?thesis by blast
  qed
qed

definition truncated :: "lsn \<Rightarrow> bool \<Rightarrow> phys_storage \<Rightarrow> phys_storage" where
  "truncated l p st = st\<lparr>ph_pending_wal_truncation := p, ph_write_lsn := l, ph_flush_lsn := l,
     ph_write_record_lsn := l, ph_flush_record_lsn := l\<rparr>"

lemma truncate_wal_cases:
  assumes "truncate_wal l st = (r, st')"
  obtains (beyond) "isl r" "st' = st" "ph_write_record_lsn st \<noteq> 0" "l > ph_write_record_lsn st"
  | (already) "r = Inr ()" "st' = st" "\<not> ph_pending_wal_truncation st" "l = ph_write_lsn st" "l = ph_flush_record_lsn st"
  | (cut) "ph_write_record_lsn st = 0 \<or> l \<le> ph_write_record_lsn st" "rest_of st' = rest_of (truncated l (isl r) st)"
proof (cases "ph_write_record_lsn st \<noteq> 0 \<and> l > ph_write_record_lsn st")
  case True
  with assms beyond show thesis by (auto simp: truncate_wal_def)
next
  case F: False
  show thesis
  proof (cases "\<not> ph_pending_wal_truncation st \<and> l = ph_write_lsn st \<and> l = ph_flush_record_lsn st")
    case True
    then have "truncate_wal l st = (Inr (), st)" using F by (auto simp: truncate_wal_def)
    then have "r = Inr ()" "st' = st" using assms by simp_all
    then show thesis using True already by blast
  next
    case False
    define t where "t = truncated l True st"
    define sync where "sync = (\<lambda>self. case ph_file self of None \<Rightarrow> (Inr (), self)
      | Some (file, _) \<Rightarrow> on_fs (fsync_file (ph_no_sync self) file) (self\<lparr>ph_file := None\<rparr>))"
    obtain r1 st1 where s1: "sync t = (r1, st1)" by fastforce
    have k1: "rest_of st1 = rest_of t"
      using s1 by (auto simp: sync_def split: option.splits dest!: on_fs_rest_of)
    obtain r2 st2 where s2: "on_fs (truncate_on_disk (ph_no_sync t) (ph_wal_seg_size t) l) st1 = (r2, st2)" by fastforce
    have k2: "rest_of st2 = rest_of t" using on_fs_rest_of [OF s2] k1 by simp
    have w: "abind sync (\<lambda>_. abind (on_fs (truncate_on_disk (ph_no_sync t) (ph_wal_seg_size t) l))
        (\<lambda>_ self. (Inr (), self\<lparr>ph_pending_wal_truncation := False\<rparr>))) t = (r, st')"
      using assms F False unfolding truncate_wal_def t_def sync_def truncated_def Let_def by auto
    have "rest_of st' = rest_of (truncated l (isl r) st)"
    proof (cases "isl r1 \<or> isl r2")
      case True
      with w s1 s2 have "isl r" "st' = st1 \<or> st' = st2"
        by (cases r1; cases r2; simp add: abind_def; fail | auto simp: abind_def split: sum.splits)+
      then show ?thesis using k1 k2 by (auto simp: t_def)
    next
      case F: False
      then obtain u v where "r1 = Inr u" "r2 = Inr v" by (cases r1; cases r2) auto
      with w s1 s2 have "r = Inr ()" "st' = st2\<lparr>ph_pending_wal_truncation := False\<rparr>" by (auto simp: abind_def)
      then show ?thesis
        using k2 by (cases st2; cases st) (simp add: t_def truncated_def rest_of_def)
    qed
    moreover have "ph_write_record_lsn st = 0 \<or> l \<le> ph_write_record_lsn st" using F by auto
    ultimately show thesis using cut by blast
  qed
qed

lemma truncate_wal_ok:
  assumes "truncate_wal l st = (r, st')" "ph_dirty st" "l \<noteq> 0"
  shows "(ph_flush_record_lsn st' = l \<or> isl r \<and> ph_flush_record_lsn st' = ph_flush_record_lsn st) \<and>
    ph_dirty st' \<and> (isl r \<or> ph_inv st')"
  using assms(1)
proof (cases rule: truncate_wal_cases)
  case already
  with assms(2) show ?thesis by (auto simp: ph_inv_def ph_dirty_def)
next
  case cut
  have "ph_dirty (truncated l b st)" "ph_inv (truncated l b st)" for b
    using assms(2,3) cut(1) by (auto simp: ph_dirty_def ph_inv_def truncated_def)
  then show ?thesis
    using ph_dirty_rest [OF cut(2)] ph_inv_rest [OF cut(2)] rest_ofD(4) [OF cut(2)] by (simp add: truncated_def)
qed (use assms(2) in auto)

lemma initialize_first_segment_rest:
  "initialize_first_segment B E l st = (r, st') \<Longrightarrow> rest_of st' = rest_of st"
  by (auto simp: initialize_first_segment_def Let_def split: if_splits dest: on_fs_rest_of)

text \<open>The storage keeps the contract the safekeeper relies on, when the bindings decode headers from
  exactly their bytes.\<close>

interpretation pwal: wal_store "phys_wal B E" "\<lambda>st. (\<forall>v. pb_ok (B v)) \<and> ph_inv st"
  "\<lambda>st. (\<forall>v. pb_ok (B v)) \<and> ph_dirty st" for B E
proof
  fix l b w r w'
  show "wl_initialize_first_segment (phys_wal B E) l w = (r, w') \<Longrightarrow>
      wl_flush_lsn (phys_wal B E) w' = wl_flush_lsn (phys_wal B E) w \<and>
      ((\<forall>v. pb_ok (B v)) \<and> ph_dirty w \<longrightarrow> (\<forall>v. pb_ok (B v)) \<and> ph_dirty w')"
    using ph_dirty_rest [of w' w] rest_ofD(4) [of w' w] initialize_first_segment_rest [of B E l w r w']
    by (simp add: phys_wal_def)
qed (auto simp: phys_wal_def ph_inv_def dest!: flush_wal_ok truncate_wal_ok dest: write_wal_ok)

end
