(* ===== verification/ControlFile.thy ===== *)
theory ControlFile
  imports TimelineState Fs
begin

text \<open>
  The control file, safekeeper/src/control_file.rs: the on-disk format (magic, version, body,
  checksum), loading, and \<open>FileStorage\<close>, the implementation of the trait \<open>control_file::Storage\<close> that
  replaces the file atomically. The body is serialized by bincode and the checksum is the crate
  crc32c; the older formats are read and written by control_file_upgrade.rs on top of bincode.
  These are the record \<open>cf_codec\<close>.
\<close>

definition SK_MAGIC :: u32 where "SK_MAGIC = 0xcafeceef"
definition SK_FORMAT_VERSION :: u32 where "SK_FORMAT_VERSION = 10"
definition PREV_FORMAT_VERSION :: u32 where "PREV_FORMAT_VERSION = 9"
definition CONTROL_FILE_NAME :: string where "CONTROL_FILE_NAME = ''safekeeper.control''"
definition CONTROL_FILE_NAME_PARTIAL :: string where
  "CONTROL_FILE_NAME_PARTIAL = ''safekeeper.control.partial''"
definition CHECKSUM_SIZE :: nat where "CHECKSUM_SIZE = 4"

record cf_codec =
  cf_ser :: "timeline_persistent_state \<Rightarrow> bytes option"
  cf_des :: "bytes \<Rightarrow> timeline_persistent_state option"
  cf_ser_v9 :: "timeline_persistent_state \<Rightarrow> bytes option"
  cf_upgrade :: "bytes \<Rightarrow> u32 \<Rightarrow> timeline_persistent_state res"
  cf_crc32c :: "bytes \<Rightarrow> u32"

subsection \<open>Format\<close>

definition read_u32_le :: "bytes \<Rightarrow> (u32 \<times> bytes) res" where
  "read_u32_le buf = (if length buf < 4 then Inl (Io ''failed to fill whole buffer'') else get_u32_le buf)"

definition deser_sk_state :: "cf_codec \<Rightarrow> bytes \<Rightarrow> timeline_persistent_state res" where
  "deser_sk_state cc buf =
     rbind (read_u32_le buf) (\<lambda>(magic, buf).
     if magic \<noteq> SK_MAGIC then Inl (Bail ''bad control file magic'')
     else rbind (read_u32_le buf) (\<lambda>(version, buf).
       if version = SK_FORMAT_VERSION
       then (case cf_des cc buf of None \<Rightarrow> Inl (Bail ''deserialize error'') | Some s \<Rightarrow> Inr s)
       else cf_upgrade cc buf version))"

definition write_to_buf :: "cf_codec \<Rightarrow> timeline_persistent_state \<Rightarrow> bytes res" where
  "write_to_buf cc self =
     rbind (if cfg_generation (ps_mconf self) = INVALID_GENERATION
            then (case cf_ser_v9 cc self of
                    None \<Rightarrow> Inl (Bail ''serialize error'')
                  | Some b \<Rightarrow> Inr (put_u32_le PREV_FORMAT_VERSION @ b))
            else (case cf_ser cc self of
                    None \<Rightarrow> Inl (Bail ''serialize error'')
                  | Some b \<Rightarrow> Inr (put_u32_le SK_FORMAT_VERSION @ b))) (\<lambda>body.
     let buf = put_u32_le SK_MAGIC @ body
     in Inr (buf @ put_u32_le (cf_crc32c cc buf)))"

text \<open>The part of \<open>load_control_file\<close> that follows the read; a file shorter than the checksum makes
  the slice bounds wrap around, which is a panic.\<close>

definition check_and_deser :: "cf_codec \<Rightarrow> bytes \<Rightarrow> timeline_persistent_state res" where
  "check_and_deser cc buf =
     (if length buf < CHECKSUM_SIZE then Inl (Panic ''range end index out of range'')
      else
        let body = take (length buf - CHECKSUM_SIZE) buf;
            calculated_checksum = cf_crc32c cc body;
            expected_checksum = of_nat (le_nat (drop (length buf - CHECKSUM_SIZE) buf))
        in if calculated_checksum \<noteq> expected_checksum
           then Inl (Bail ''safekeeper control file checksum mismatch'')
           else ctx ''while reading control file'' (deser_sk_state cc body))"

definition load_control_file :: "cf_codec \<Rightarrow> string \<Rightarrow> (fs, timeline_persistent_state) act" where
  "load_control_file cc path =
     abind (fs_open path) (\<lambda>i.
     abind (fs_read i) (\<lambda>buf fs. (check_and_deser cc buf, fs)))"

subsection \<open>FileStorage\<close>

record file_storage =
  fst_fs :: fs
  fst_no_sync :: bool
  fst_state :: timeline_persistent_state
  fst_last_persist_at :: int

definition persist_file :: "cf_codec \<Rightarrow> bool \<Rightarrow> timeline_persistent_state \<Rightarrow> (fs, unit) act" where
  "persist_file cc no_sync s =
     abind (fs_create CONTROL_FILE_NAME_PARTIAL) (\<lambda>control_partial.
     abind (\<lambda>fs. (write_to_buf cc s, fs)) (\<lambda>buf.
     abind (fs_write_all control_partial 0 buf) (\<lambda>_.
     abind (fs_flush control_partial) (\<lambda>_.
     durable_rename CONTROL_FILE_NAME_PARTIAL CONTROL_FILE_NAME (\<not> no_sync)))))"

definition persist :: "cf_codec \<Rightarrow> timeline_persistent_state \<Rightarrow> (file_storage, unit) act" where
  "persist cc s self =
     (case persist_file cc (fst_no_sync self) s (fst_fs self) of
        (Inl e, fs) \<Rightarrow> (Inl e, self\<lparr>fst_fs := fs\<rparr>)
      | (Inr _, fs) \<Rightarrow> (Inr (), self\<lparr>fst_fs := fs, fst_state := s\<rparr>))"

definition restore_new :: "cf_codec \<Rightarrow> bool \<Rightarrow> int \<Rightarrow> fs \<Rightarrow> file_storage res" where
  "restore_new cc no_sync now fs =
     (case load_control_file cc CONTROL_FILE_NAME fs of
        (Inl e, _) \<Rightarrow> Inl e
      | (Inr state, fs) \<Rightarrow> Inr \<lparr>fst_fs = fs, fst_no_sync = no_sync, fst_state = state,
          fst_last_persist_at = now\<rparr>)"

definition create_new ::
  "cf_codec \<Rightarrow> int \<Rightarrow> timeline_persistent_state \<Rightarrow> bool \<Rightarrow> fs \<Rightarrow> file_storage res" where
  "create_new cc now state no_sync fs =
     (case ps_eviction_state state of
        Offloaded _ \<Rightarrow> Inl (Panic ''assertion failed: EvictionState::Present'')
      | Present \<Rightarrow>
          (case persist cc state \<lparr>fst_fs = fs, fst_no_sync = no_sync, fst_state = state,
                  fst_last_persist_at = now\<rparr> of
             (Inl e, _) \<Rightarrow> Inl e | (Inr _, store) \<Rightarrow> Inr store))"

definition file_ctrl :: "cf_codec \<Rightarrow> file_storage ctrl_storage" where
  "file_ctrl cc = \<lparr>cs_deref = fst_state, cs_persist = persist cc\<rparr>"

interpretation fctl: control_file "file_ctrl cc" "\<lambda>_. True" for cc
  by unfold_locales (auto simp: file_ctrl_def persist_def split: prod.splits sum.splits)

subsection \<open>Loading what was written\<close>

text \<open>What the code relies on: bincode reads back what it wrote, and the version 9 body of a
  state without a configuration is upgraded to that state.\<close>

definition cf_codec_ok :: "cf_codec \<Rightarrow> bool" where
  "cf_codec_ok cc \<longleftrightarrow>
     (\<forall>s b. cf_ser cc s = Some b \<longrightarrow> cf_des cc b = Some s) \<and>
     (\<forall>s b. cf_ser_v9 cc s = Some b \<longrightarrow> cfg_generation (ps_mconf s) = INVALID_GENERATION \<longrightarrow>
        cf_upgrade cc b PREV_FORMAT_VERSION = Inr s)"

lemma check_and_deser_sum:
  "check_and_deser cc (b @ put_u32_le (cf_crc32c cc b))
     = ctx ''while reading control file'' (deser_sk_state cc b)"
  by (simp add: check_and_deser_def CHECKSUM_SIZE_def Let_def put_u32_le_def)

lemma check_and_deser_write:
  assumes "cf_codec_ok cc" "write_to_buf cc s = Inr buf"
  shows "check_and_deser cc buf = Inr s"
proof -
  have r: "read_u32_le (put_u32_le x @ b) = Inr (x, b)" for x b
    by (simp add: read_u32_le_def codec_simps)
  have v: "SK_FORMAT_VERSION \<noteq> PREV_FORMAT_VERSION" "PREV_FORMAT_VERSION \<noteq> SK_FORMAT_VERSION"
    by (simp_all add: SK_FORMAT_VERSION_def PREV_FORMAT_VERSION_def)
  obtain body where b: "buf = (put_u32_le SK_MAGIC @ body) @ put_u32_le (cf_crc32c cc (put_u32_le SK_MAGIC @ body))"
    and body: "(if cfg_generation (ps_mconf s) = INVALID_GENERATION
        then \<exists>x. cf_ser_v9 cc s = Some x \<and> body = put_u32_le PREV_FORMAT_VERSION @ x
        else \<exists>x. cf_ser cc s = Some x \<and> body = put_u32_le SK_FORMAT_VERSION @ x)"
    using assms(2) by (auto simp: write_to_buf_def monad_simps Let_def split: if_splits option.splits)
  have "deser_sk_state cc (put_u32_le SK_MAGIC @ body) = Inr s"
    using body assms(1)
    by (auto simp: deser_sk_state_def r v cf_codec_ok_def split: if_splits)
  then show ?thesis unfolding b check_and_deser_sum by simp
qed

subsection \<open>Replacing the control file is atomic\<close>

text \<open>The disk holds the control file: every inode its name may come back to after a crash is
  synced, its contents are among \<open>S\<close>, and the temporary file is another inode.\<close>

definition ctl_inode :: "fs \<Rightarrow> nat \<Rightarrow> bool" where
  "ctl_inode fs i \<longleftrightarrow> map_of (fs_dir fs) CONTROL_FILE_NAME = Some i \<or>
     map_of (fs_dir_synced fs) CONTROL_FILE_NAME = Some i"

definition disk_holds :: "bytes set \<Rightarrow> fs \<Rightarrow> bool" where
  "disk_holds S fs \<longleftrightarrow> fs_ok fs \<and> (\<forall>i. ctl_inode fs i \<longrightarrow>
     ino_synced (inode_of fs i) \<and> ino_data (inode_of fs i) \<in> S \<and>
     map_of (fs_dir fs) CONTROL_FILE_NAME_PARTIAL \<noteq> Some i)"

lemma disk_holds_crash: "disk_holds S fs \<Longrightarrow> crash_reads fs CONTROL_FILE_NAME bs \<Longrightarrow> bs \<in> S"
  by (auto simp: disk_holds_def crash_reads_def ctl_inode_def)

definition tmp_is :: "bytes set \<Rightarrow> nat \<Rightarrow> bytes \<Rightarrow> fs \<Rightarrow> bool" where
  "tmp_is S p bs fs \<longleftrightarrow> disk_holds S fs \<and> map_of (fs_dir fs) CONTROL_FILE_NAME_PARTIAL = Some p \<and>
     ino_data (inode_of fs p) = bs"

lemma names_differ [simp]: "CONTROL_FILE_NAME \<noteq> CONTROL_FILE_NAME_PARTIAL" "CONTROL_FILE_NAME_PARTIAL \<noteq> CONTROL_FILE_NAME"
  by (simp_all add: CONTROL_FILE_NAME_def CONTROL_FILE_NAME_PARTIAL_def)

text \<open>A fault leaves the directory and the inodes alone; so the triple of an operation follows
  from what it does when there is no fault.\<close>

lemma disk_holds_cong:
  "fs_dir fs' = fs_dir fs \<Longrightarrow> fs_dir_synced fs' = fs_dir_synced fs \<Longrightarrow> fs_inodes fs' = fs_inodes fs \<Longrightarrow>
   disk_holds S fs' = disk_holds S fs \<and> tmp_is S p bs fs' = tmp_is S p bs fs"
  by (simp add: disk_holds_def tmp_is_def fs_ok_def ctl_inode_def inode_of_def)

lemma hoare_io:
  assumes "\<And>f fs fs'. next_fault fs = (f, fs') \<Longrightarrow> P fs \<Longrightarrow> P fs'"
    and "\<And>fs. P fs \<Longrightarrow> E fs" "hoare P m Q E"
  shows "hoare P (io m) Q E"
proof (rule hoareI)
  fix s e s' assume "P s" "io m s = (Inl e, s')"
  then show "E s'"
    using assms hoareD [OF assms(3)] by (fastforce simp: io_def split: prod.splits option.splits)
next
  fix s x s' assume "P s" "io m s = (Inr x, s')"
  then show "Q x s'"
    using assms hoareD [OF assms(3)] by (fastforce simp: io_def split: prod.splits option.splits)
qed

lemma next_fault_holds:
  "next_fault fs = (f, fs') \<Longrightarrow> disk_holds S fs \<Longrightarrow> disk_holds S fs'"
  "next_fault fs = (f, fs') \<Longrightarrow> tmp_is S p bs fs \<Longrightarrow> tmp_is S p bs fs'"
  using disk_holds_cong next_fault_simps by metis+

lemma tmp_not_ctl: "tmp_is S p bs fs \<Longrightarrow> ctl_inode fs i \<Longrightarrow> i \<noteq> p \<and> i < length (fs_inodes fs) \<and> p < length (fs_inodes fs)"
  unfolding tmp_is_def disk_holds_def fs_ok_def ctl_inode_def by metis

lemma tmp_in_range: "tmp_is S p bs fs \<Longrightarrow> p < length (fs_inodes fs)"
  unfolding tmp_is_def disk_holds_def fs_ok_def by metis

text \<open>Changing the contents of the temporary file.\<close>

lemma tmp_set:
  assumes "tmp_is S p bs fs" "ino_data n = bs'"
  shows "tmp_is S p bs' (set_inode p n fs)"
proof -
  have p: "p < length (fs_inodes fs)" by (rule tmp_in_range [OF assms(1)])
  have c: "ctl_inode (set_inode p n fs) i = ctl_inode fs i" for i by (simp add: ctl_inode_def set_inode_def)
  have "inode_of (set_inode p n fs) i = inode_of fs i" if "ctl_inode fs i" for i
    using tmp_not_ctl [OF assms(1) that] by (simp add: inode_of_set_inode)
  then show ?thesis
    using assms p
    by (auto simp: tmp_is_def disk_holds_def c inode_of_set_inode) (auto simp: fs_ok_def set_inode_def)
qed

lemma hoare_create_tmp:
  "hoare (disk_holds S) (fs_create CONTROL_FILE_NAME_PARTIAL) (\<lambda>p. tmp_is S p []) (disk_holds S)"
  unfolding fs_create_def
proof (rule hoare_io)
  show "hoare (disk_holds S) (\<lambda>fs. case map_of (fs_dir fs) CONTROL_FILE_NAME_PARTIAL of
      Some i \<Rightarrow> (Inr i, set_inode i \<lparr>ino_data = [], ino_synced = False\<rparr> fs)
    | None \<Rightarrow> (Inr (length (fs_inodes fs)),
        fs\<lparr>fs_dir := AList.update CONTROL_FILE_NAME_PARTIAL (length (fs_inodes fs)) (fs_dir fs),
           fs_inodes := fs_inodes fs @ [\<lparr>ino_data = [], ino_synced = False\<rparr>]\<rparr>))
      (\<lambda>p. tmp_is S p []) (disk_holds S)"
  proof (rule hoareI)
    fix fs x fs'
    assume h: "disk_holds S fs" and e: "(case map_of (fs_dir fs) CONTROL_FILE_NAME_PARTIAL of
      Some i \<Rightarrow> (Inr i, set_inode i \<lparr>ino_data = [], ino_synced = False\<rparr> fs)
    | None \<Rightarrow> (Inr (length (fs_inodes fs)),
        fs\<lparr>fs_dir := AList.update CONTROL_FILE_NAME_PARTIAL (length (fs_inodes fs)) (fs_dir fs),
           fs_inodes := fs_inodes fs @ [\<lparr>ino_data = [], ino_synced = False\<rparr>]\<rparr>)) = (Inr x, fs')"
    show "tmp_is S x [] fs'"
    proof (cases "map_of (fs_dir fs) CONTROL_FILE_NAME_PARTIAL")
      case (Some i)
      then have "tmp_is S i (ino_data (inode_of fs i)) fs" using h by (simp add: tmp_is_def)
      from tmp_set [OF this, of "\<lparr>ino_data = [], ino_synced = False\<rparr>" "[]"]
      show ?thesis using e Some by auto
    next
      case None
      let ?l = "length (fs_inodes fs)"
      have r: "ctl_inode fs i \<Longrightarrow> i < ?l" for i using h by (auto simp: disk_holds_def fs_ok_def ctl_inode_def)
      from None e have x: "x = ?l" and fs': "fs' = fs\<lparr>fs_dir := AList.update CONTROL_FILE_NAME_PARTIAL ?l (fs_dir fs),
           fs_inodes := fs_inodes fs @ [\<lparr>ino_data = [], ino_synced = False\<rparr>]\<rparr>" by auto
      have c: "ctl_inode fs' i = ctl_inode fs i" for i by (simp add: fs' ctl_inode_def update_conv)
      have n: "inode_of fs' i = (if i = ?l then \<lparr>ino_data = [], ino_synced = False\<rparr> else inode_of fs i)" for i
        by (simp add: fs' inode_of_def nth_append)
      have "fs_ok fs'" using h by (fastforce simp: disk_holds_def fs_ok_def fs' update_conv less_Suc_eq split: if_splits)
      moreover have "map_of (fs_dir fs') CONTROL_FILE_NAME_PARTIAL = Some ?l" by (simp add: fs' update_conv)
      ultimately show ?thesis
        using h r by (fastforce simp: tmp_is_def disk_holds_def c n x)
    qed
  qed (auto split: option.splits)
qed (auto dest: next_fault_holds)

lemma tmp_holds: "tmp_is S p bs fs \<Longrightarrow> disk_holds S fs"
  by (simp add: tmp_is_def)

lemma hoare_write_tmp:
  "hoare (tmp_is S p []) (fs_write_all p 0 buf) (\<lambda>_. tmp_is S p buf) (disk_holds S)"
proof (rule hoareI)
  fix fs e fs' assume h: "tmp_is S p [] fs" and w: "fs_write_all p 0 buf fs = (Inl e, fs')"
  then obtain k fs1 where "next_fault fs = (Some k, fs1)"
    "fs' = put_data p (write_at 0 (take k buf) (ino_data (inode_of fs1 p))) fs1"
    by (auto simp: fs_write_all_def split: prod.splits option.splits)
  then show "disk_holds S fs'"
    using h tmp_set [OF next_fault_holds(2)] unfolding put_data_def by (metis tmp_holds)
next
  fix fs u fs' assume h: "tmp_is S p [] fs" and w: "fs_write_all p 0 buf fs = (Inr u, fs')"
  then obtain fs1 where f: "next_fault fs = (None, fs1)"
    "fs' = put_data p (write_at 0 buf (ino_data (inode_of fs1 p))) fs1"
    by (auto simp: fs_write_all_def split: prod.splits option.splits)
  have t: "tmp_is S p [] fs1" by (rule next_fault_holds(2) [OF f(1) h])
  then have "ino_data (inode_of fs1 p) = []" by (simp add: tmp_is_def)
  then show "tmp_is S p buf fs'"
    using tmp_set [OF t, of "\<lparr>ino_data = write_at 0 buf [], ino_synced = False\<rparr>" buf] f(2)
    by (simp add: put_data_def write_at_def pad_to_def)
qed

lemma hoare_flush_tmp: "hoare (tmp_is S p buf) (fs_flush i) (\<lambda>_. tmp_is S p buf) (disk_holds S)"
  unfolding fs_flush_def
  by (rule hoare_io) (auto dest: next_fault_holds(2) tmp_holds intro: hoare_return)

definition tmp_synced :: "bytes set \<Rightarrow> bytes \<Rightarrow> fs \<Rightarrow> bool" where
  "tmp_synced S bs fs \<longleftrightarrow> (\<exists>p. tmp_is S p bs fs \<and> ino_synced (inode_of fs p))"

lemma hoare_open_tmp:
  "hoare (tmp_is S p buf) (fs_open CONTROL_FILE_NAME_PARTIAL) (\<lambda>i fs. i = p \<and> tmp_is S p buf fs) (disk_holds S)"
  unfolding fs_open_def
  by (rule hoare_io)
    (auto dest: next_fault_holds(2) tmp_holds simp: hoare_def tmp_is_def split: option.splits)

lemma hoare_sync_tmp:
  "hoare (\<lambda>fs. i = p \<and> tmp_is S p buf fs) (fs_sync i) (\<lambda>_. tmp_synced S buf) (disk_holds S)"
  unfolding fs_sync_def
proof (rule hoare_io)
  show "hoare (\<lambda>fs. i = p \<and> tmp_is S p buf fs)
      (\<lambda>fs. (Inr (), set_inode i (inode_of fs i\<lparr>ino_synced := True\<rparr>) fs)) (\<lambda>_. tmp_synced S buf) (disk_holds S)"
  proof (rule hoare_return)
    fix fs assume a: "i = p \<and> tmp_is S p buf fs"
    then have "tmp_is S p buf (set_inode p (inode_of fs p\<lparr>ino_synced := True\<rparr>) fs)"
      by (intro tmp_set) (auto simp: tmp_is_def)
    then show "tmp_synced S buf (set_inode i (inode_of fs i\<lparr>ino_synced := True\<rparr>) fs)"
      using a tmp_in_range by (auto simp: tmp_synced_def inode_of_set_inode intro!: exI [of _ p])
  qed
qed (auto dest: next_fault_holds(2) tmp_holds)

definition replaced :: "bytes set \<Rightarrow> bytes \<Rightarrow> fs \<Rightarrow> bool" where
  "replaced S bs fs \<longleftrightarrow> disk_holds (insert bs S) fs \<and>
     (\<exists>p. map_of (fs_dir fs) CONTROL_FILE_NAME = Some p \<and> ino_data (inode_of fs p) = bs)"

lemma disk_holds_mono: "disk_holds S fs \<Longrightarrow> S \<subseteq> T \<Longrightarrow> disk_holds T fs"
  by (auto simp: disk_holds_def)

lemma next_fault_synced: "next_fault fs = (f, fs') \<Longrightarrow> tmp_synced S bs fs \<Longrightarrow> tmp_synced S bs fs'"
proof -
  assume a: "next_fault fs = (f, fs')" "tmp_synced S bs fs"
  have "inode_of fs' = inode_of fs"
    using next_fault_simps [OF a(1)] by (simp add: inode_of_def fun_eq_iff)
  with a(2) show ?thesis by (auto simp: tmp_synced_def dest: next_fault_holds(2) [OF a(1)])
qed

lemma hoare_rename_tmp:
  "hoare (tmp_synced S buf) (fs_rename CONTROL_FILE_NAME_PARTIAL CONTROL_FILE_NAME)
     (\<lambda>_. replaced S buf) (disk_holds (insert buf S))"
  unfolding fs_rename_def
proof (rule hoare_io)
  fix fs assume "tmp_synced S buf fs"
  then show "disk_holds (insert buf S) fs"
    by (auto simp: tmp_synced_def intro: disk_holds_mono dest: tmp_holds)
next
  show "hoare (tmp_synced S buf) (\<lambda>fs. case map_of (fs_dir fs) CONTROL_FILE_NAME_PARTIAL of
      None \<Rightarrow> (Inl (Io ''NotFound''), fs)
    | Some i \<Rightarrow> (Inr (), fs\<lparr>fs_dir := AList.update CONTROL_FILE_NAME i
        (AList.delete CONTROL_FILE_NAME_PARTIAL (fs_dir fs))\<rparr>)) (\<lambda>_. replaced S buf) (disk_holds (insert buf S))"
  proof (rule hoareI)
    fix fs u fs'
    assume t: "tmp_synced S buf fs" and e: "(case map_of (fs_dir fs) CONTROL_FILE_NAME_PARTIAL of
      None \<Rightarrow> (Inl (Io ''NotFound''), fs)
    | Some i \<Rightarrow> (Inr (), fs\<lparr>fs_dir := AList.update CONTROL_FILE_NAME i
        (AList.delete CONTROL_FILE_NAME_PARTIAL (fs_dir fs))\<rparr>)) = (Inr u, fs')"
    from t obtain p where p: "tmp_is S p buf fs" "ino_synced (inode_of fs p)" by (auto simp: tmp_synced_def)
    then have fs': "fs' = fs\<lparr>fs_dir := AList.update CONTROL_FILE_NAME p
        (AList.delete CONTROL_FILE_NAME_PARTIAL (fs_dir fs))\<rparr>" using e by (simp add: tmp_is_def)
    have d: "map_of (fs_dir fs') = (map_of (fs_dir fs))(CONTROL_FILE_NAME_PARTIAL := None, CONTROL_FILE_NAME \<mapsto> p)"
      by (simp add: fs' update_conv' delete_conv')
    have n: "inode_of fs' i = inode_of fs i" for i by (simp add: fs' inode_of_def)
    have c: "ctl_inode fs' i \<Longrightarrow> i = p \<or> ctl_inode fs i" for i
      by (auto simp: ctl_inode_def d) (simp add: fs')
    have "fs_dir_synced fs' = fs_dir_synced fs" "fs_inodes fs' = fs_inodes fs" by (simp_all add: fs')
    then have "fs_ok fs'"
      using p tmp_in_range [OF p(1)] by (auto simp: fs_ok_def tmp_is_def disk_holds_def d split: if_splits)
    then have "disk_holds (insert buf S) fs'"
      using p c n unfolding disk_holds_def tmp_is_def by (auto simp: d)
    then show "replaced S buf fs'" using p by (simp add: replaced_def d n tmp_is_def)
  next
    fix fs x fs'
    assume "tmp_synced S buf fs" "(case map_of (fs_dir fs) CONTROL_FILE_NAME_PARTIAL of
      None \<Rightarrow> (Inl (Io ''NotFound''), fs)
    | Some i \<Rightarrow> (Inr (), fs\<lparr>fs_dir := AList.update CONTROL_FILE_NAME i
        (AList.delete CONTROL_FILE_NAME_PARTIAL (fs_dir fs))\<rparr>)) = (Inl x, fs')"
    then show "disk_holds (insert buf S) fs'" by (auto simp: tmp_synced_def tmp_is_def)
  qed
qed (rule next_fault_synced)

lemma hoare_sync_dir:
  "hoare (replaced S buf) fs_sync_dir (\<lambda>_. disk_holds {buf}) (disk_holds (insert buf S))"
  unfolding fs_sync_dir_def
proof (rule hoare_io)
  show "hoare (replaced S buf) (\<lambda>fs. (Inr (), fs\<lparr>fs_dir_synced := fs_dir fs\<rparr>)) (\<lambda>_. disk_holds {buf})
      (disk_holds (insert buf S))"
    by (rule hoare_return)
      (auto simp: replaced_def disk_holds_def ctl_inode_def fs_ok_def inode_of_def)
  show "\<And>fs. replaced S buf fs \<Longrightarrow> disk_holds (insert buf S) fs" by (simp add: replaced_def)
  fix f fs fs' assume a: "next_fault fs = (f, fs')" "replaced S buf fs"
  then have "inode_of fs' = inode_of fs"
    using next_fault_simps [OF a(1)] by (simp add: inode_of_def fun_eq_iff)
  with a show "replaced S buf fs'"
    using next_fault_simps [OF a(1)] disk_holds_cong [of fs' fs] by (simp add: replaced_def)
qed

lemma hoare_persist_file:
  assumes "write_to_buf cc s = Inr buf"
  shows "hoare (disk_holds S) (persist_file cc False s) (\<lambda>_. disk_holds {buf}) (disk_holds (insert buf S))"
proof -
  have w: "hoare P m Q (disk_holds (insert buf S))" if "hoare P m Q (disk_holds S)" for P m Q
    by (rule hoare_weaken [OF that]) (auto intro: disk_holds_mono)
  have buf: "hoare (tmp_is S p []) (\<lambda>fs. (write_to_buf cc s, fs)) (\<lambda>b fs. b = buf \<and> tmp_is S p [] fs)
      (disk_holds (insert buf S))" for p
    by (simp add: hoare_def assms)
  have wr: "hoare (\<lambda>fs. b = buf \<and> tmp_is S p [] fs) (fs_write_all p 0 b) (\<lambda>_. tmp_is S p buf)
      (disk_holds (insert buf S))" for b p
    using w [OF hoare_write_tmp] by (auto simp: hoare_def)
  have dr: "hoare (tmp_is S p buf) (durable_rename CONTROL_FILE_NAME_PARTIAL CONTROL_FILE_NAME True)
      (\<lambda>_. disk_holds {buf}) (disk_holds (insert buf S))" for p
    unfolding durable_rename_def fsync_opt_def fsync_dir_opt_def if_True
    by (rule hoare_abind [OF hoare_abind [OF w [OF hoare_open_tmp] w [OF hoare_sync_tmp]]
          hoare_abind [OF hoare_rename_tmp hoare_sync_dir]])
  show ?thesis
    unfolding persist_file_def not_False_eq_True
    by (rule hoare_abind [OF w [OF hoare_create_tmp] hoare_abind [OF buf hoare_abind [OF wr
          hoare_abind [OF w [OF hoare_flush_tmp] dr]]]])
qed

lemma hoare_persist_file_bad:
  assumes "write_to_buf cc s = Inl e"
  shows "hoare (disk_holds S) (persist_file cc b s) (\<lambda>_. disk_holds S) (disk_holds S)"
proof -
  have "hoare (tmp_is S p []) (abind (\<lambda>fs. (write_to_buf cc s, fs)) f) Q (disk_holds S)"
    for p Q and f :: "bytes \<Rightarrow> (fs, unit) act"
    by (simp add: hoare_def assms abind_def tmp_holds)
  then show ?thesis unfolding persist_file_def by (intro hoare_abind [OF hoare_create_tmp]) auto
qed


text \<open>A codec and a disk for closed instances: one state, written as one byte.\<close>

definition demo_codec :: "timeline_persistent_state \<Rightarrow> cf_codec" where
  "demo_codec s = \<lparr>cf_ser = (\<lambda>x. if x = s then Some [1] else None),
     cf_des = (\<lambda>b. if b = [1] then Some s else None), cf_ser_v9 = (\<lambda>_. None),
     cf_upgrade = (\<lambda>_ _. Inl (Bail ''unsupported'')), cf_crc32c = (\<lambda>b. of_nat (length b))\<rparr>"

definition demo_store :: "timeline_persistent_state \<Rightarrow> nat option list \<Rightarrow> file_storage" where
  "demo_store s faults = \<lparr>fst_fs = \<lparr>fs_dir = [(CONTROL_FILE_NAME, 0)],
       fs_dir_synced = [(CONTROL_FILE_NAME, 0)],
       fs_inodes = [\<lparr>ino_data = [7], ino_synced = True\<rparr>], fs_faults = faults\<rparr>,
     fst_no_sync = False, fst_state = s, fst_last_persist_at = 0\<rparr>"

lemma demo_codec_ok: "cf_codec_ok (demo_codec s)"
  by (simp add: cf_codec_ok_def demo_codec_def)

lemma demo_store_holds: "disk_holds {[7]} (fst_fs (demo_store s faults))"
  by (auto simp: demo_store_def disk_holds_def fs_ok_def ctl_inode_def inode_of_def split: if_splits)

lemma demo_persist:
  assumes "write_to_buf cc s = Inr b" "persist cc s (demo_store s0 []) = (r, st')"
  shows "fs_dir (fst_fs st') = [(CONTROL_FILE_NAME, 1)]" "fs_dir_synced (fst_fs st') = [(CONTROL_FILE_NAME, 1)]"
    "inode_of (fst_fs st') 1 = \<lparr>ino_data = b, ino_synced = True\<rparr>"
proof -
  have n: "CONTROL_FILE_NAME \<noteq> CONTROL_FILE_NAME_PARTIAL" "CONTROL_FILE_NAME_PARTIAL \<noteq> CONTROL_FILE_NAME"
    by (simp_all add: CONTROL_FILE_NAME_def CONTROL_FILE_NAME_PARTIAL_def)
  have f: "next_fault \<lparr>fs_dir = d, fs_dir_synced = e, fs_inodes = i, fs_faults = []\<rparr> =
      (None, \<lparr>fs_dir = d, fs_dir_synced = e, fs_inodes = i, fs_faults = []\<rparr>)" for d e i
    by (simp add: next_fault_def)
  have "fs_dir (fst_fs st') = [(CONTROL_FILE_NAME, 1)] \<and> fs_dir_synced (fst_fs st') = [(CONTROL_FILE_NAME, 1)] \<and>
    inode_of (fst_fs st') 1 = \<lparr>ino_data = b, ino_synced = True\<rparr>"
    using assms(2) n by (simp add: assms(1) f persist_def persist_file_def demo_store_def abind_def io_def
        fs_create_def fs_write_all_def fs_flush_def durable_rename_def fsync_opt_def fsync_dir_opt_def
        fs_open_def fs_sync_def fs_rename_def fs_sync_dir_def put_data_def set_inode_def inode_of_def
        write_at_def pad_to_def) auto
  then show "fs_dir (fst_fs st') = [(CONTROL_FILE_NAME, 1)]" "fs_dir_synced (fst_fs st') = [(CONTROL_FILE_NAME, 1)]"
    "inode_of (fst_fs st') 1 = \<lparr>ino_data = b, ino_synced = True\<rparr>" by simp_all
qed


end
