(* ===== verification/SafekeeperRun.thy ===== *)
theory SafekeeperRun
  imports WalStorage ControlFile
begin

text \<open>
  A safekeeper on its files: the acceptor with \<open>FileStorage\<close> as control file and
  \<open>PhysicalStorage\<close> as WAL storage, and its runs. A step handles a message, a report of a peer, a
  term bump or a membership change through the management interface, or is a crash followed by a
  restart from what the disk holds; every file operation may fail. The theory interprets the
  contracts of \<open>Safekeeper\<close> and \<open>SafekeeperInv\<close> on the two storages.
\<close>

interpretation acc: sk_parts "file_ctrl cc" "\<lambda>_. True" "phys_wal B E"
  "\<lambda>st. (\<forall>v. pb_ok (B v)) \<and> ph_inv st" "\<lambda>st. (\<forall>v. pb_ok (B v)) \<and> ph_dirty st" for cc B E
  by unfold_locales

subsection \<open>What a crash may bring back\<close>

abbreviation st_term :: "timeline_persistent_state \<Rightarrow> term_no" where
  "st_term s \<equiv> as_term (ps_acceptor_state s)"

text \<open>Every state that a reader may find on disk satisfies \<open>P\<close>.\<close>

definition ctl_disk :: "cf_codec \<Rightarrow> (timeline_persistent_state \<Rightarrow> bool) \<Rightarrow> file_storage \<Rightarrow> bool" where
  "ctl_disk cc P c \<longleftrightarrow> (\<exists>S. disk_holds S (fst_fs c) \<and> (\<forall>bs \<in> S. \<forall>s. check_and_deser cc bs = Inr s \<longrightarrow> P s))"

definition ctl_guard :: "cf_codec \<Rightarrow> term_no \<Rightarrow> file_storage \<Rightarrow> bool" where
  "ctl_guard cc T c \<longleftrightarrow> ctl_disk cc (\<lambda>s. T \<le> st_term s) c \<and> T \<le> st_term (fst_state c)"

definition ctl_le :: "cf_codec \<Rightarrow> file_storage \<Rightarrow> file_storage \<Rightarrow> bool" where
  "ctl_le cc c c' \<longleftrightarrow> fst_no_sync c' = fst_no_sync c \<and>
     (cf_codec_ok cc \<longrightarrow> \<not> fst_no_sync c \<longrightarrow> (\<forall>T. ctl_guard cc T c \<longrightarrow> ctl_guard cc T c'))"

lemma ctl_disk_mono: "ctl_disk cc P c \<Longrightarrow> (\<And>s. P s \<Longrightarrow> Q s) \<Longrightarrow> ctl_disk cc Q c"
  unfolding ctl_disk_def by blast

lemma persist_disk:
  assumes "cf_codec_ok cc" "\<not> fst_no_sync c" "persist cc s c = (r, c')" "ctl_disk cc P c" "P s"
  shows "ctl_disk cc P c'" "r = Inr u \<Longrightarrow> ctl_disk cc (\<lambda>x. x = s) c'"
    "fst_no_sync c' = fst_no_sync c" "fst_state c' = (if isl r then fst_state c else s)"
proof -
  obtain q fs' where p: "persist_file cc False s (fst_fs c) = (q, fs')" by fastforce
  then have c': "fst_fs c' = fs'" "isl r \<longleftrightarrow> isl q" "fst_no_sync c' = fst_no_sync c"
      "fst_state c' = (if isl r then fst_state c else s)"
    using assms(2,3) by (auto simp: persist_def split: sum.splits)
  obtain S where S: "disk_holds S (fst_fs c)" "\<forall>bs \<in> S. \<forall>s. check_and_deser cc bs = Inr s \<longrightarrow> P s"
    using assms(4) by (auto simp: ctl_disk_def)
  have "ctl_disk cc P c' \<and> (r = Inr u \<longrightarrow> ctl_disk cc (\<lambda>x. x = s) c')"
  proof (cases "write_to_buf cc s")
    case (Inl e)
    then have "q \<noteq> Inr v" for v using p by (auto simp: persist_file_def monad_simps)
    then have "isl q" by (cases q) auto
    moreover have "disk_holds S fs'"
      using hoareD [OF hoare_persist_file_bad [OF Inl] S(1) p] by (auto split: sum.splits)
    ultimately show ?thesis using c' S(2) by (auto simp: ctl_disk_def)
  next
    case (Inr buf)
    note d = check_and_deser_write [OF assms(1) Inr]
    have "if isl q then disk_holds (insert buf S) fs' else disk_holds {buf} fs'"
      using hoareD [OF hoare_persist_file [OF Inr] S(1) p] by (auto split: sum.splits)
    then show ?thesis
    proof (cases "isl q")
      case True
      with \<open>if isl q then _ else _\<close> have "disk_holds (insert buf S) fs'" by simp
      then show ?thesis using True c' S(2) d assms(5) unfolding ctl_disk_def by (auto intro!: exI [of _ "insert buf S"])
    next
      case False
      with \<open>if isl q then _ else _\<close> have "disk_holds {buf} fs'" by simp
      then show ?thesis using c' d assms(5) unfolding ctl_disk_def by (auto intro!: exI [of _ "{buf}"])
    qed
  qed
  then show "ctl_disk cc P c'" "r = Inr u \<Longrightarrow> ctl_disk cc (\<lambda>x. x = s) c'" by auto
  show "fst_no_sync c' = fst_no_sync c" "fst_state c' = (if isl r then fst_state c else s)" using c' by auto
qed

interpretation disk: control_steps "file_ctrl cc" "\<lambda>_. True" "ctl_le cc" for cc
proof
  fix c c' c'' s r
  show "ctl_le cc c c" by (simp add: ctl_le_def)
  show "ctl_le cc c c' \<Longrightarrow> ctl_le cc c' c'' \<Longrightarrow> ctl_le cc c c''" by (auto simp: ctl_le_def)
  assume p: "cs_persist (file_ctrl cc) s c = (r, c')"
    and t: "st_term (cs_deref (file_ctrl cc) c) \<le> st_term s"
  then have p: "persist cc s c = (r, c')" and t: "st_term (fst_state c) \<le> st_term s"
    by (simp_all add: file_ctrl_def)
  have n: "fst_no_sync c' = fst_no_sync c" using p by (auto simp: persist_def split: prod.splits sum.splits)
  show "ctl_le cc c c'"
    unfolding ctl_le_def ctl_guard_def
    using persist_disk(1,4) [OF _ _ p] n t by (auto intro: order.trans)
qed

text \<open>The disk after a crash: what was there is now durable, file by file one of the contents a
  crash may bring back.\<close>

definition after_crash :: "fs \<Rightarrow> fs \<Rightarrow> bool" where
  "after_crash fs fs' \<longleftrightarrow> fs_ok fs' \<and> fs_dir_synced fs' = fs_dir fs' \<and>
     (\<forall>a b i. map_of (fs_dir fs') a = Some i \<longrightarrow> map_of (fs_dir fs') b = Some i \<longrightarrow> a = b) \<and>
     (\<forall>name i. map_of (fs_dir fs') name = Some i \<longrightarrow>
        ino_synced (inode_of fs' i) \<and> crash_reads fs name (ino_data (inode_of fs' i)))"

lemma after_crash_holds:
  assumes "disk_holds S fs" "after_crash fs fs'"
  shows "disk_holds S fs'"
  using assms disk_holds_crash [OF assms(1)] names_differ
  unfolding disk_holds_def after_crash_def ctl_inode_def by metis

lemma restore_new_guard:
  assumes "ctl_guard cc T c" "after_crash (fst_fs c) fs'" "restore_new cc b now fs' = Inr c'"
  shows "ctl_guard cc T c'" "fst_no_sync c' = b"
proof -
  obtain S where S: "disk_holds S (fst_fs c)" "\<forall>bs \<in> S. \<forall>s. check_and_deser cc bs = Inr s \<longrightarrow> T \<le> st_term s"
    using assms(1) by (auto simp: ctl_guard_def ctl_disk_def)
  have h: "disk_holds S fs'" by (rule after_crash_holds [OF S(1) assms(2)])
  obtain s fs1 where l: "load_control_file cc CONTROL_FILE_NAME fs' = (Inr s, fs1)"
    and c': "c' = \<lparr>fst_fs = fs1, fst_no_sync = b, fst_state = s, fst_last_persist_at = now\<rparr>"
    using assms(3) by (auto simp: restore_new_def split: prod.splits sum.splits)
  obtain i fs2 where o: "fs_open CONTROL_FILE_NAME fs' = (Inr i, fs2)"
    and r: "abind (fs_read i) (\<lambda>buf fs. (check_and_deser cc buf, fs)) fs2 = (Inr s, fs1)"
    using l by (auto simp: load_control_file_def monad_simps)
  have 2: "map_of (fs_dir fs') CONTROL_FILE_NAME = Some i" "fs_dir fs2 = fs_dir fs'"
    "fs_dir_synced fs2 = fs_dir_synced fs'" "fs_inodes fs2 = fs_inodes fs'"
    using o by (auto simp: fs_open_def io_def split: prod.splits option.splits dest: next_fault_simps)
  have 1: "check_and_deser cc (ino_data (inode_of fs2 i)) = Inr s" "fs_dir fs1 = fs_dir fs2"
    "fs_dir_synced fs1 = fs_dir_synced fs2" "fs_inodes fs1 = fs_inodes fs2"
    using r by (auto simp: fs_read_def io_def monad_simps inode_of_def split: prod.splits option.splits dest: next_fault_simps)
  have "ino_data (inode_of fs2 i) \<in> S"
    using h 2 by (auto simp: disk_holds_def ctl_inode_def inode_of_def)
  then have "T \<le> st_term s" using S(2) 1(1) by blast
  moreover have "disk_holds S fs1" using disk_holds_cong [of fs1 fs' S] h 1 2 by simp
  ultimately show "ctl_guard cc T c'" "fst_no_sync c' = b"
    using S(2) c' by (auto simp: ctl_guard_def ctl_disk_def)
qed

subsection \<open>Runs\<close>

definition votes_of :: "acceptor_proposer_message option res \<Rightarrow> term_no list" where
  "votes_of r = (case r of
     Inr (Some (AVoteResponse v)) \<Rightarrow> if vs_vote_given v then [vs_term v] else []
   | _ \<Rightarrow> [])"

inductive sk_run :: "cf_codec \<Rightarrow> 'w wal_storage \<Rightarrow> (file_storage, 'w) safekeeper \<Rightarrow>
    (file_storage, 'w) safekeeper \<Rightarrow> term_no list \<Rightarrow> bool" for cc W sk0 where
  start: "sk_run cc W sk0 sk0 []"
| message: "sk_run cc W sk0 sk vs \<Longrightarrow> process_msg (file_ctrl cc) W msg sk = (r, sk') \<Longrightarrow>
    sk_run cc W sk0 sk' (votes_of r @ vs)"
| peer: "sk_run cc W sk0 sk vs \<Longrightarrow> record_safekeeper_info (file_ctrl cc) W l t sk = (r, sk') \<Longrightarrow>
    sk_run cc W sk0 sk' vs"
| bump: "sk_run cc W sk0 sk vs \<Longrightarrow> on_state (term_bump (file_ctrl cc) to) sk = (q, sk') \<Longrightarrow>
    sk_run cc W sk0 sk' vs"
| switch: "sk_run cc W sk0 sk vs \<Longrightarrow> on_state (membership_switch (file_ctrl cc) cfg) sk = (p, sk') \<Longrightarrow>
    sk_run cc W sk0 sk' vs"
| restart: "sk_run cc W sk0 sk vs \<Longrightarrow> after_crash (fst_fs (ts_pers (sk_state sk))) fs' \<Longrightarrow>
    restore_new cc (fst_no_sync (ts_pers (sk_state sk))) now fs' = Inr c \<Longrightarrow>
    safekeeper_new (file_ctrl cc) (timeline_state_new (file_ctrl cc) c) w (sk_node_id sk) = Inr sk' \<Longrightarrow>
    sk_run cc W sk0 sk' vs"

lemma vote_response_only:
  assumes "process_msg C W msg sk = (Inr (Some (AVoteResponse v)), sk')"
  obtains m where "msg = PVoteRequest m"
proof (cases msg)
  case (PElected m)
  with assms show thesis
    by (cases "pe_term_history m") (auto simp: handle_elected_def abind_eq_Inr split: if_splits)
qed (use assms that in \<open>auto simp: handle_greeting_def handle_append_request_def handle_flush_def
      abind_eq_Inr Let_def split: if_splits\<close>)

lemma vote_granted:
  assumes "process_msg (file_ctrl cc) W msg sk = (Inr (Some (AVoteResponse v)), sk')" "vs_vote_given v"
    and "cf_codec_ok cc" "\<not> fst_no_sync (ts_pers (sk_state sk))" "ctl_guard cc 0 (ts_pers (sk_state sk))"
  shows "sk_term (file_ctrl cc) sk < vs_term v" "ctl_guard cc (vs_term v) (ts_pers (sk_state sk'))"
proof -
  let ?C = "file_ctrl cc"
  from assms(1) obtain m where m: "msg = PVoteRequest m" by (rule vote_response_only)
  obtain ts' where lt: "sk_term ?C sk < vq_term m"
    and f: "finish_change ?C (set_term (vq_term m) (eff ?C sk)) (sk_state sk) = (Inr (), ts')"
    and sk': "sk_state sk' = ts'" and v: "vs_term v = cur_term ?C ts'"
    using assms(1,2) unfolding m
    by (auto simp: handle_vote_request_def Let_def abind_eq_Inr on_wal_eq on_state_eq split: if_splits)
  let ?s = "set_term (vq_term m) (eff ?C sk)"
  have "?s \<noteq> pers ?C (sk_state sk)" using lt by (auto simp: set_term_def dest: arg_cong [of _ _ st_term])
  then have p: "persist cc ?s (ts_pers (sk_state sk)) = (Inr (), ts_pers ts')"
    using f by (auto simp: finish_change_def file_ctrl_def split: if_splits prod.splits sum.splits)
  have "ctl_disk cc (\<lambda>_. True) (ts_pers (sk_state sk))"
    using assms(5) by (auto simp: ctl_guard_def intro: ctl_disk_mono)
  note d = persist_disk [OF assms(3,4) p this TrueI]
  have t: "vs_term v = vq_term m" using v d(4) by (simp add: file_ctrl_def set_term_def)
  show "sk_term ?C sk < vs_term v" using lt t by simp
  show "ctl_guard cc (vs_term v) (ts_pers (sk_state sk'))"
    using d(2) [OF refl] d(4) t by (auto simp: ctl_guard_def sk' set_term_def intro: ctl_disk_mono)
qed

lemma run_guard:
  assumes "sk_run cc W sk0 sk vs" "cf_codec_ok cc" "\<not> fst_no_sync (ts_pers (sk_state sk0))"
    and "disk_holds S (fst_fs (ts_pers (sk_state sk0)))"
  shows "\<not> fst_no_sync (ts_pers (sk_state sk)) \<and> (\<forall>T \<in> insert 0 (set vs). ctl_guard cc T (ts_pers (sk_state sk)))
    \<and> sorted_wrt (>) vs"
  using assms(1)
proof (induction rule: sk_run.induct)
  case start
  have "ctl_guard cc 0 (ts_pers (sk_state sk0))"
    using assms(4) by (auto simp: ctl_guard_def ctl_disk_def)
  with assms(3) show ?case by simp
next
  case (message sk vs msg r sk')
  have rel: "ctl_le cc (ts_pers (sk_state sk)) (ts_pers (sk_state sk'))"
    using keepsD [OF disk.process_msg_rel message.hyps(2)] by (simp add: sk_rel_def)
  have g: "\<not> fst_no_sync (ts_pers (sk_state sk'))"
    "\<forall>T \<in> insert 0 (set vs). ctl_guard cc T (ts_pers (sk_state sk'))"
    using rel message.IH assms(2) by (auto simp: ctl_le_def)
  show ?case
  proof (cases "votes_of r = []")
    case True
    with g message.IH show ?thesis by simp
  next
    case False
    then obtain v where r: "r = Inr (Some (AVoteResponse v))" "vs_vote_given v" "votes_of r = [vs_term v]"
      by (auto simp: votes_of_def split: sum.splits option.splits acceptor_proposer_message.splits if_splits)
    have n: "\<not> fst_no_sync (ts_pers (sk_state sk))" "ctl_guard cc 0 (ts_pers (sk_state sk))" using message.IH by auto
    note vg = vote_granted [OF message.hyps(2) [unfolded r(1)] r(2) assms(2) n]
    have "T < vs_term v" if "T \<in> set vs" for T
      using vg(1) message.IH that by (auto simp: ctl_guard_def file_ctrl_def)
    with g vg(2) message.IH show ?thesis by (auto simp: r(3))
  qed
next
  case (peer sk vs l t r sk')
  then have "ctl_le cc (ts_pers (sk_state sk)) (ts_pers (sk_state sk'))"
    using keepsD [OF disk.record_safekeeper_info_rel peer.hyps(2)] by (simp add: sk_rel_def)
  with peer.IH assms(2) show ?case by (auto simp: ctl_le_def)
next
  case (bump sk vs to q sk')
  then have "ctl_le cc (ts_pers (sk_state sk)) (ts_pers (sk_state sk'))"
    using keepsD [OF disk.term_bump_rel bump.hyps(2)] by (simp add: sk_rel_def)
  with bump.IH assms(2) show ?case by (auto simp: ctl_le_def)
next
  case (switch sk vs cfg p sk')
  then have "ctl_le cc (ts_pers (sk_state sk)) (ts_pers (sk_state sk'))"
    using keepsD [OF disk.keeps_membership_switch switch.hyps(2)] by (simp add: sk_rel_def)
  with switch.IH assms(2) show ?case by (auto simp: ctl_le_def)
next
  case (restart sk vs fs' now c w sk')
  have c: "ts_pers (sk_state sk') = c"
    using restart.hyps(4) by (auto simp: safekeeper_new_def timeline_state_new_def split: if_splits)
  show ?case
    using restart.IH restore_new_guard [OF _ restart.hyps(2,3)] by (auto simp: c)
qed


text \<open>An instance: a safekeeper in term 1 that is asked for its vote in term 5.\<close>

definition vote_codec :: "timeline_persistent_state \<Rightarrow> timeline_persistent_state \<Rightarrow> cf_codec" where
  "vote_codec s t = \<lparr>cf_ser = (\<lambda>x. if x = s then Some [1] else if x = t then Some [2] else None),
     cf_des = (\<lambda>b. if b = [1] then Some s else if b = [2] then Some t else None), cf_ser_v9 = (\<lambda>_. None),
     cf_upgrade = (\<lambda>_ _. Inl (Bail ''unsupported'')), cf_crc32c = (\<lambda>b. of_nat (length b))\<rparr>"

definition idle_storage :: phys_storage where
  "idle_storage = \<lparr>ph_fs = \<lparr>fs_dir = [], fs_dir_synced = [], fs_inodes = [], fs_faults = []\<rparr>,
     ph_no_sync = False, ph_wal_seg_size = 16777216, ph_pg_version = 170000, ph_system_id = 9,
     ph_write_lsn = 4096, ph_write_record_lsn = 4096, ph_flush_lsn = 4096, ph_flush_record_lsn = 4096,
     ph_decoder = decoder_new 4096 17, ph_file = None, ph_pending_wal_truncation = True\<rparr>"

definition demo_bindings :: pg_bindings where
  "demo_bindings = \<lparr>pb_XLOG_PAGE_MAGIC = 0xD116, pb_SIZE_LONG_PHD = 40, pb_SIZE_SHORT_PHD = 24, pb_SIZE_RECORD = 24,
     pb_long_header = (\<lambda>_. (0, None)), pb_short_header = (\<lambda>_. (0, None)), pb_record = (\<lambda>_. None),
     pb_crc32c_append = (\<lambda>_ _. 0)\<rparr>"

definition demo_encoders :: phd_encoders where
  "demo_encoders = \<lparr>enc_short_header = (\<lambda>_ _. Inr []), enc_long_header = (\<lambda>_ _ _ _ _. Inr [])\<rparr>"

abbreviation demo_wal :: "phys_storage wal_storage" where
  "demo_wal \<equiv> phys_wal (\<lambda>_. demo_bindings) (\<lambda>_. demo_encoders)"

definition demo_sk :: "(file_storage, phys_storage) safekeeper" where
  "demo_sk = \<lparr>sk_term_start_lsn = 0, sk_state = \<lparr>ts_inmem = mem_of example_state, ts_pers = demo_store example_state []\<rparr>,
     sk_wal_store = idle_storage, sk_node_id = 1\<rparr>"

abbreviation voted_state :: timeline_persistent_state where
  "voted_state \<equiv> set_term 5 example_state"

lemma vote_codec_ok: "cf_codec_ok (vote_codec s t)"
  by (auto simp: cf_codec_ok_def vote_codec_def)

lemma demo_persist_ok:
  assumes "write_to_buf cc s = Inr b"
  shows "\<exists>st'. persist cc s (demo_store s0 []) = (Inr (), st')"
proof -
  have f: "next_fault \<lparr>fs_dir = d, fs_dir_synced = e, fs_inodes = i, fs_faults = []\<rparr> =
      (None, \<lparr>fs_dir = d, fs_dir_synced = e, fs_inodes = i, fs_faults = []\<rparr>)" for d e i
    by (simp add: next_fault_def)
  show ?thesis
    by (simp add: assms f persist_def persist_file_def demo_store_def abind_def io_def
        fs_create_def fs_write_all_def fs_flush_def durable_rename_def fsync_opt_def fsync_dir_opt_def
        fs_open_def fs_sync_def fs_rename_def fs_sync_dir_def put_data_def set_inode_def)
qed

lemma demo_vote:
  "\<exists>sk v. process_msg (file_ctrl (vote_codec example_state voted_state)) demo_wal
     (PVoteRequest \<lparr>vq_generation = INITIAL_GENERATION, vq_term = 5\<rparr>) demo_sk = (Inr (Some (AVoteResponse v)), sk) \<and>
     vs_vote_given v \<and> vs_term v = 5"
proof -
  let ?cc = "vote_codec example_state voted_state"
  have e: "start_change (file_ctrl ?cc) (sk_state demo_sk) = example_state"
    by (simp add: start_change_def demo_sk_def file_ctrl_def demo_store_def mem_of_def)
  have ne: "voted_state \<noteq> example_state"
    by (auto simp: set_term_def example_state_def)
  then obtain b where "write_to_buf ?cc voted_state = Inr b"
    by (simp add: write_to_buf_def vote_codec_def Let_def set_term_def example_state_def configuration_new_def
        INITIAL_GENERATION_def INVALID_GENERATION_def)
  then obtain st' where p: "persist ?cc voted_state (demo_store example_state []) = (Inr (), st')"
    using demo_persist_ok by blast
  then have s: "fst_state st' = voted_state" by (auto simp: persist_def split: prod.splits sum.splits)
  have g: "sk_generation_of (file_ctrl ?cc) demo_sk = INITIAL_GENERATION" "sk_term (file_ctrl ?cc) demo_sk = 1"
    by (simp_all add: demo_sk_def file_ctrl_def demo_store_def example_state_def configuration_new_def)
  have w: "on_wal (wl_flush_wal demo_wal) demo_sk = (Inr (), demo_sk)"
    by (simp add: on_wal_def phys_wal_def flush_wal_def demo_sk_def idle_storage_def)
  have f: "on_state (finish_change (file_ctrl ?cc) voted_state) demo_sk =
      (Inr (), demo_sk\<lparr>sk_state := \<lparr>ts_inmem = mem_of voted_state, ts_pers = st'\<rparr>\<rparr>)"
    using p ne by (simp add: on_state_def finish_change_def demo_sk_def file_ctrl_def demo_store_def)
  show ?thesis
    by (simp add: handle_vote_request_def Let_def abind_def g w f e) (simp add: file_ctrl_def s set_term_def)
qed


subsection \<open>Single messages\<close>

text \<open>C11: what never goes back. Whatever message a safekeeper handles, in whatever state, and whichever
  of its storage operations fail, its term, the generation of its configuration, its commit, backup,
  peer-horizon and remote-consistent positions and the start of its timeline do not decrease, and
  its tenant, timeline and node identifiers stay the same.\<close>

theorem process_msg_progress:
  "sk_le (file_ctrl cc) sk (snd (process_msg (file_ctrl cc) W msg sk))"
proof -
  obtain r sk' where m: "process_msg (file_ctrl cc) W msg sk = (r, sk')" by fastforce
  from keepsD [OF disk.process_msg_rel m] show ?thesis by (simp add: m sk_rel_def)
qed

text \<open>C2: the commit position is never beyond the flushed WAL. From a state where this holds and the
  WAL storage is consistent, it holds after every message within the position space, also when the
  message fails; and after success the storage is consistent again.\<close>

theorem commit_not_beyond_flush:
  assumes "\<forall>v. pb_ok (B v)" "commit_ok (file_ctrl cc) (phys_wal B E) sk" "ph_inv (sk_wal_store sk)" "msg_ok msg"
    and "process_msg (file_ctrl cc) (phys_wal B E) msg sk = (r, sk')"
  shows "commit_ok (file_ctrl cc) (phys_wal B E) sk' \<and> (isl r \<or> ph_inv (sk_wal_store sk'))"
  using acc.process_msg_commit_ok [OF assms(5,2) _ assms(4)] assms(1,3) by auto

lemma demo_inv: "commit_ok (file_ctrl cc) demo_wal demo_sk" "ph_inv (sk_wal_store demo_sk)" "pb_ok demo_bindings"
proof -
  show "commit_ok (file_ctrl cc) demo_wal demo_sk"
    by (simp add: commit_ok_def demo_sk_def sk_flush_lsn_def phys_wal_def idle_storage_def mem_of_def example_state_def)
  have "d_fits (decoder_new 4096 17)" by (rule d_fits_new) simp
  then show "ph_inv (sk_wal_store demo_sk)"
    by (simp add: ph_inv_def ph_dirty_def demo_sk_def idle_storage_def)
  show "pb_ok demo_bindings" by (simp add: pb_ok_def demo_bindings_def)
qed

theorem commit_not_beyond_flush_witness:
  "\<exists>cc r sk'. process_msg (file_ctrl cc) demo_wal (PVoteRequest \<lparr>vq_generation = INITIAL_GENERATION, vq_term = 5\<rparr>)
     demo_sk = (r, sk') \<and> \<not> isl r \<and> commit_ok (file_ctrl cc) demo_wal sk' \<and> ph_inv (sk_wal_store sk')"
proof -
  let ?cc = "vote_codec example_state voted_state"
  let ?m = "PVoteRequest \<lparr>vq_generation = INITIAL_GENERATION, vq_term = 5\<rparr>"
  obtain sk v where m: "process_msg (file_ctrl ?cc) demo_wal ?m demo_sk = (Inr (Some (AVoteResponse v)), sk)"
    using demo_vote by blast
  have "\<forall>v. pb_ok ((\<lambda>_ :: u32. demo_bindings) v)" using demo_inv(3) by simp
  from commit_not_beyond_flush [OF this demo_inv(1,2) _ m]
  have "commit_ok (file_ctrl ?cc) demo_wal sk \<and> ph_inv (sk_wal_store sk)" by simp
  with m show ?thesis by (intro exI [of _ ?cc] exI [of _ "Inr (Some (AVoteResponse v))"] exI [of _ sk]) simp
qed




text \<open>An instance: the leader of term 1 announces itself again to a safekeeper that has everything.\<close>

definition demo_elected :: proposer_elected where
  "demo_elected = \<lparr>pe_generation = INITIAL_GENERATION, pe_term = 1, pe_start_streaming_at = 4096,
     pe_term_history = [TermLsn 1 4096]\<rparr>"

abbreviation elected_codec :: cf_codec where
  "elected_codec \<equiv> vote_codec example_state (elected_state demo_elected example_state)"

definition demo_ready :: "(file_storage, phys_storage) safekeeper" where
  "demo_ready = demo_sk\<lparr>sk_wal_store := idle_storage\<lparr>ph_pending_wal_truncation := False\<rparr>\<rparr>"

lemma demo_elected_ok:
  "\<exists>sk. handle_elected (file_ctrl elected_codec) demo_wal demo_elected demo_ready = (Inr None, sk)"
proof -
  let ?C = "file_ctrl elected_codec" and ?s = "elected_state demo_elected example_state"
  have e: "start_change ?C (sk_state demo_ready) = example_state" "sk_pers ?C demo_ready = example_state"
    by (simp_all add: start_change_def demo_ready_def demo_sk_def file_ctrl_def demo_store_def mem_of_def)
  have ne: "?s \<noteq> example_state"
    by (simp add: demo_elected_def elected_state_def example_state_def Let_def)
  then obtain b where "write_to_buf elected_codec ?s = Inr b"
    by (simp add: write_to_buf_def vote_codec_def Let_def demo_elected_def elected_state_def example_state_def
        configuration_new_def INITIAL_GENERATION_def INVALID_GENERATION_def)
  then obtain st' where p: "persist elected_codec ?s (demo_store example_state []) = (Inr (), st')"
    using demo_persist_ok by blast
  have c: "elected_check ?C demo_wal demo_elected demo_ready = Inr ()"
    unfolding elected_check_def get_term_history_def sk_flush_lsn_def e
    by (simp add: demo_elected_def demo_ready_def demo_sk_def phys_wal_def idle_storage_def example_state_def
        find_highest_common_point_def mem_of_def)
  have t: "elected_truncate demo_wal demo_elected demo_ready = (Inr (), demo_ready)"
    by (simp add: elected_truncate_def abind_def on_wal_def phys_wal_def demo_ready_def demo_sk_def idle_storage_def
        truncate_wal_def demo_elected_def lsn_INVALID_def)
  have f: "on_state (finish_change ?C ?s) demo_ready =
      (Inr (), demo_ready\<lparr>sk_state := \<lparr>ts_inmem = mem_of ?s, ts_pers = st'\<rparr>\<rparr>)"
    using p ne by (simp add: on_state_def finish_change_def demo_ready_def demo_sk_def file_ctrl_def demo_store_def)
  have a: "elected_adopt_term ?C demo_elected demo_ready = (Inr (), demo_ready)"
    by (simp add: elected_adopt_term_def e) (simp add: demo_elected_def example_state_def)
  have g: "sk_generation_of ?C demo_ready = pe_generation demo_elected" "\<not> sk_term ?C demo_ready > pe_term demo_elected"
    unfolding e by (simp_all add: demo_elected_def example_state_def configuration_new_def)
  show ?thesis
    by (simp add: handle_elected_def abind_def g [unfolded e] a c t e f) (simp add: demo_elected_def)
qed


end
