(* ===== verification/WalSenders.thy ===== *)
theory WalSenders
  imports Feedback Ids
begin

text \<open>
  The registries of connections a timeline keeps: \<open>WalSenders\<close> of safekeeper/src/send_wal.rs, with
  the aggregated standby feedback, and \<open>WalReceivers\<close> of safekeeper/src/receive_wal.rs. Every
  method takes the lock for its whole body, so each is one step on the shared state. Handles of
  interpreted readers and shard identities are type variables; what a reader answers is a parameter.
\<close>

subsection \<open>Feedback of standbys\<close>

record standby_reply =
  sr_write_lsn :: lsn
  sr_flush_lsn :: lsn
  sr_apply_lsn :: lsn
  sr_reply_ts :: timestamp_tz
  sr_reply_requested :: bool

definition sr_empty :: standby_reply where
  "sr_empty = \<lparr>sr_write_lsn = lsn_INVALID, sr_flush_lsn = lsn_INVALID, sr_apply_lsn = lsn_INVALID,
     sr_reply_ts = 0, sr_reply_requested = False\<rparr>"

record standby_feedback =
  sf_reply :: standby_reply
  sf_hs_feedback :: hot_standby_feedback

definition sf_empty :: standby_feedback where
  "sf_empty = \<lparr>sf_reply = sr_empty, sf_hs_feedback = hsf_empty\<rparr>"

datatype replication_feedback = Pageserver pageserver_feedback | Standby standby_feedback

definition INVALID_FULL_TRANSACTION_ID :: u64 where "INVALID_FULL_TRANSACTION_ID = 0"

subsection \<open>The registry of senders\<close>

record vanilla_sender =
  vs_ttid :: "id \<times> id"
  vs_addr :: string
  vs_conn_id :: u32
  vs_appname :: "string option"
  vs_feedback :: replication_feedback

record 's interpreted_sender = vanilla_sender +
  is_shard :: 's

datatype ('s, 'h) wal_sender_state =
  Vanilla vanilla_sender | Interpreted "'s interpreted_sender" "'h option"

fun ws_get_feedback :: "('s, 'h) wal_sender_state \<Rightarrow> replication_feedback" where
  "ws_get_feedback (Vanilla s) = vs_feedback s"
| "ws_get_feedback (Interpreted s _) = vs_feedback s"

fun ws_set_feedback :: "replication_feedback \<Rightarrow> ('s, 'h) wal_sender_state \<Rightarrow> ('s, 'h) wal_sender_state" where
  "ws_set_feedback f (Vanilla s) = Vanilla (s\<lparr>vs_feedback := f\<rparr>)"
| "ws_set_feedback f (Interpreted s r) = Interpreted (s\<lparr>vs_feedback := f\<rparr>) r"

record ('s, 'h) wal_senders =
  wss_agg_standby_feedback :: standby_feedback
  wss_last_ps_feedback :: pageserver_feedback
  wss_ps_feedback_counter :: u64
  wss_slots :: "('s, 'h) wal_sender_state option list"

definition wss_new :: "('s, 'h) wal_senders" where
  "wss_new = \<lparr>wss_agg_standby_feedback = sf_empty, wss_last_ps_feedback = pf_empty,
     wss_ps_feedback_counter = 0, wss_slots = []\<rparr>"

text \<open>A free slot is reused, otherwise the vector grows; both registries do this.\<close>

fun slot_position :: "'a option list \<Rightarrow> nat option" where
  "slot_position [] = None"
| "slot_position (None # _) = Some 0"
| "slot_position (Some _ # r) = map_option Suc (slot_position r)"

definition slot_insert :: "'a \<Rightarrow> 'a option list \<Rightarrow> nat \<times> 'a option list" where
  "slot_insert x slots = (case slot_position slots of
     Some pos \<Rightarrow> (pos, slots[pos := Some x]) | None \<Rightarrow> (length slots, slots @ [Some x]))"

definition slot_get :: "nat \<Rightarrow> 'a option list \<Rightarrow> 'a res" where
  "slot_get i slots = (if i < length slots
     then (case slots ! i of Some x \<Rightarrow> Inr x | None \<Rightarrow> Inl (Panic ''slot does not exist''))
     else Inl (Panic ''index out of bounds''))"

definition flatten :: "'a option list \<Rightarrow> 'a list" where
  "flatten slots = concat (map (\<lambda>s. case s of None \<Rightarrow> [] | Some x \<Rightarrow> [x]) slots)"

definition wss_register :: "('s, 'h) wal_sender_state \<Rightarrow> (('s, 'h) wal_senders, nat) act" where
  "wss_register walsender_state self = (case slot_insert walsender_state (wss_slots self) of
     (pos, slots) \<Rightarrow> (Inr pos, self\<lparr>wss_slots := slots\<rparr>))"

definition reader_selected :: "lsn \<Rightarrow> u64 option \<Rightarrow> lsn option \<Rightarrow> bool" where
  "reader_selected start_pos max_delta_for_fanout current_position =
     (case (current_position, max_delta_for_fanout) of
        (Some pos, Some max_delta) \<Rightarrow> (if start_pos \<le> pos then pos - start_pos else start_pos - pos) \<le> max_delta
      | (None, _) \<Rightarrow> False
      | (_, None) \<Rightarrow> True)"

definition interpreted_reader :: "('s, 'h) wal_sender_state \<Rightarrow> 'h option" where
  "interpreted_reader slot = (case slot of Interpreted _ r \<Rightarrow> r | Vanilla _ \<Rightarrow> None)"

definition create_or_update_interpreted_reader ::
  "('h \<Rightarrow> lsn option) \<Rightarrow> nat \<Rightarrow> lsn \<Rightarrow> u64 option \<Rightarrow> ('h \<Rightarrow> unit res) \<Rightarrow> 'h \<Rightarrow>
     (('s, 'h) wal_senders, unit) act" where
  "create_or_update_interpreted_reader current_position i start_pos max_delta_for_fanout update create self =
     (let selected = find (\<lambda>h. reader_selected start_pos max_delta_for_fanout (current_position h))
            (flatten (map interpreted_reader (flatten (wss_slots self))))
      in case slot_get i (wss_slots self) of
           Inl e \<Rightarrow> (Inl e, self)
         | Inr (Vanilla _) \<Rightarrow> (Inl (Panic ''unreachable''), self)
         | Inr (Interpreted s _) \<Rightarrow>
             (case (case selected of Some h \<Rightarrow> rbind (update h) (\<lambda>_. Inr h) | None \<Rightarrow> Inr create) of
                Inl e \<Rightarrow> (Inl e, self)
              | Inr h \<Rightarrow> (Inr (), self\<lparr>wss_slots := (wss_slots self)[i := Some (Interpreted s (Some h))]\<rparr>)))"

definition laggard_lsn :: "('s, 'h) wal_senders \<Rightarrow> lsn option" where
  "laggard_lsn self =
     (let lsns = concat (map (\<lambda>s. case ws_get_feedback s of
            Pageserver f \<Rightarrow> [pf_last_received_lsn f] | Standby _ \<Rightarrow> []) (flatten (wss_slots self)))
      in if lsns = [] then None else Some (foldr min lsns (last lsns)))"

definition get_hotstandby :: "('s, 'h) wal_senders \<Rightarrow> standby_feedback" where
  "get_hotstandby self = wss_agg_standby_feedback self"

text \<open>\<open>update_reply_feedback\<close>: the smallest valid value of every field; of the times of hot standby
  feedback the largest. Times are signed.\<close>

definition agg_lsn :: "u64 \<Rightarrow> u64 \<Rightarrow> u64" where
  "agg_lsn x agg = (if x \<noteq> 0 then if agg \<noteq> 0 then min agg x else x else agg)"

definition agg_ts :: "timestamp_tz \<Rightarrow> timestamp_tz \<Rightarrow> timestamp_tz" where
  "agg_ts x agg = (if x \<noteq> 0 then if agg \<noteq> 0 then if sint agg \<le> sint x then agg else x else x else agg)"

definition max_ts :: "timestamp_tz \<Rightarrow> timestamp_tz \<Rightarrow> timestamp_tz" where
  "max_ts agg x = (if sint agg \<le> sint x then x else agg)"

definition agg_hs :: "hot_standby_feedback \<Rightarrow> hot_standby_feedback \<Rightarrow> hot_standby_feedback" where
  "agg_hs h agg =
     (let agg = (if hsf_xmin h \<noteq> INVALID_FULL_TRANSACTION_ID
            then agg\<lparr>hsf_xmin := agg_lsn (hsf_xmin h) (hsf_xmin agg), hsf_ts := max_ts (hsf_ts agg) (hsf_ts h)\<rparr>
            else agg)
      in if hsf_catalog_xmin h \<noteq> INVALID_FULL_TRANSACTION_ID
         then agg\<lparr>hsf_catalog_xmin := agg_lsn (hsf_catalog_xmin h) (hsf_catalog_xmin agg),
                 hsf_ts := max_ts (hsf_ts agg) (hsf_ts h)\<rparr>
         else agg)"

definition agg_reply :: "standby_reply \<Rightarrow> standby_reply \<Rightarrow> standby_reply" where
  "agg_reply r agg = agg\<lparr>sr_write_lsn := agg_lsn (sr_write_lsn r) (sr_write_lsn agg),
     sr_flush_lsn := agg_lsn (sr_flush_lsn r) (sr_flush_lsn agg),
     sr_apply_lsn := agg_lsn (sr_apply_lsn r) (sr_apply_lsn agg),
     sr_reply_ts := agg_ts (sr_reply_ts r) (sr_reply_ts agg)\<rparr>"

definition standby_feedbacks :: "('s, 'h) wal_sender_state option list \<Rightarrow> standby_feedback list" where
  "standby_feedbacks slots = concat (map (\<lambda>s. case ws_get_feedback s of Standby f \<Rightarrow> [f] | Pageserver _ \<Rightarrow> [])
     (flatten slots))"

definition aggregate :: "standby_feedback list \<Rightarrow> standby_feedback" where
  "aggregate fs = \<lparr>sf_reply = fold (\<lambda>f. agg_reply (sf_reply f)) fs sr_empty,
     sf_hs_feedback = fold (\<lambda>f. agg_hs (sf_hs_feedback f)) fs hsf_empty\<rparr>"

definition update_reply_feedback :: "('s, 'h) wal_senders \<Rightarrow> ('s, 'h) wal_senders" where
  "update_reply_feedback self =
     self\<lparr>wss_agg_standby_feedback := aggregate (standby_feedbacks (wss_slots self))\<rparr>"

text \<open>The recording operations; the feedback to broadcast to the walproposers is the result.\<close>

definition record_ps_feedback ::
  "nat \<Rightarrow> pageserver_feedback \<Rightarrow> (('s, 'h) wal_senders, pageserver_feedback) act" where
  "record_ps_feedback i feedback self = (case slot_get i (wss_slots self) of
     Inl e \<Rightarrow> (Inl e, self)
   | Inr s \<Rightarrow> (Inr feedback, self\<lparr>wss_slots := (wss_slots self)[i := Some (ws_set_feedback (Pageserver feedback) s)],
       wss_last_ps_feedback := feedback, wss_ps_feedback_counter := wss_ps_feedback_counter self + 1\<rparr>))"

definition with_reply :: "standby_reply \<Rightarrow> replication_feedback \<Rightarrow> standby_feedback" where
  "with_reply reply f = (case f of Standby sf \<Rightarrow> sf\<lparr>sf_reply := reply\<rparr>
     | Pageserver _ \<Rightarrow> \<lparr>sf_reply = reply, sf_hs_feedback = hsf_empty\<rparr>)"

definition with_hs :: "hot_standby_feedback \<Rightarrow> replication_feedback \<Rightarrow> standby_feedback" where
  "with_hs hs f = (case f of Standby sf \<Rightarrow> sf\<lparr>sf_hs_feedback := hs\<rparr>
     | Pageserver _ \<Rightarrow> \<lparr>sf_reply = sr_empty, sf_hs_feedback = hs\<rparr>)"

definition record_standby_reply :: "nat \<Rightarrow> standby_reply \<Rightarrow> (('s, 'h) wal_senders, unit) act" where
  "record_standby_reply i reply self = (case slot_get i (wss_slots self) of
     Inl e \<Rightarrow> (Inl e, self)
   | Inr s \<Rightarrow> (Inr (), self\<lparr>wss_slots := (wss_slots self)[i :=
       Some (ws_set_feedback (Standby (with_reply reply (ws_get_feedback s))) s)]\<rparr>))"

definition record_hs_feedback :: "nat \<Rightarrow> hot_standby_feedback \<Rightarrow> (('s, 'h) wal_senders, unit) act" where
  "record_hs_feedback i feedback self = (case slot_get i (wss_slots self) of
     Inl e \<Rightarrow> (Inl e, self)
   | Inr s \<Rightarrow> (Inr (), update_reply_feedback (self\<lparr>wss_slots := (wss_slots self)[i :=
       Some (ws_set_feedback (Standby (with_hs feedback (ws_get_feedback s))) s)]\<rparr>)))"

definition get_ws_remote_consistent_lsn :: "nat \<Rightarrow> ('s, 'h) wal_senders \<Rightarrow> lsn option res" where
  "get_ws_remote_consistent_lsn i self = rbind (slot_get i (wss_slots self)) (\<lambda>s.
     Inr (case ws_get_feedback s of Pageserver f \<Rightarrow> Some (pf_remote_consistent_lsn f) | Standby _ \<Rightarrow> None))"

definition wss_unregister :: "nat \<Rightarrow> (('s, 'h) wal_senders, unit) act" where
  "wss_unregister i self = (if i < length (wss_slots self)
     then (Inr (), update_reply_feedback (self\<lparr>wss_slots := (wss_slots self)[i := None]\<rparr>))
     else (Inl (Panic ''index out of bounds''), self))"

subsection \<open>The registry of receivers\<close>

datatype wal_receiver_status = Voting | Streaming

record wal_receiver_state =
  wrs_conn_id :: "u32 option"
  wrs_status :: wal_receiver_status

text \<open>\<open>wrv_num_computes\<close> is the value in the watch channel.\<close>

record wal_receivers =
  wrv_slots :: "wal_receiver_state option list"
  wrv_num_computes :: nat

definition wrv_new :: wal_receivers where
  "wrv_new = \<lparr>wrv_slots = [], wrv_num_computes = 0\<rparr>"

definition wrv_get_num :: "wal_receivers \<Rightarrow> nat" where
  "wrv_get_num self = length (flatten (wrv_slots self))"

definition update_num :: "wal_receivers \<Rightarrow> wal_receivers" where
  "update_num self = self\<lparr>wrv_num_computes := wrv_get_num self\<rparr>"

definition wrv_register :: "u32 option \<Rightarrow> (wal_receivers, nat) act" where
  "wrv_register conn_id self = (case slot_insert \<lparr>wrs_conn_id = conn_id, wrs_status = Voting\<rparr> (wrv_slots self) of
     (pos, slots) \<Rightarrow> (Inr pos, update_num (self\<lparr>wrv_slots := slots\<rparr>)))"

definition wrv_get_num_streaming :: "wal_receivers \<Rightarrow> nat" where
  "wrv_get_num_streaming self =
     length (filter (\<lambda>s. wrs_conn_id s \<noteq> None \<and> wrs_status s = Streaming) (flatten (wrv_slots self)))"

definition wrv_set_status :: "nat \<Rightarrow> wal_receiver_status \<Rightarrow> (wal_receivers, unit) act" where
  "wrv_set_status i status self = (case slot_get i (wrv_slots self) of
     Inl e \<Rightarrow> (Inl e, self)
   | Inr s \<Rightarrow> (Inr (), self\<lparr>wrv_slots := (wrv_slots self)[i := Some (s\<lparr>wrs_status := status\<rparr>)]\<rparr>))"

definition wrv_unregister :: "nat \<Rightarrow> (wal_receivers, unit) act" where
  "wrv_unregister i self = (if i < length (wrv_slots self)
     then (Inr (), update_num (self\<lparr>wrv_slots := (wrv_slots self)[i := None]\<rparr>))
     else (Inl (Panic ''index out of bounds''), self))"

subsection \<open>Slots\<close>

lemma slot_position_Some:
  "slot_position slots = Some i \<Longrightarrow> i < length slots \<and> slots ! i = None"
  by (induction slots arbitrary: i rule: slot_position.induct) auto

lemma slot_position_None: "slot_position slots = None \<Longrightarrow> None \<notin> set slots"
  by (induction slots rule: slot_position.induct) auto

definition occupied :: "'a option list \<Rightarrow> nat set" where
  "occupied slots = {i. i < length slots \<and> slots ! i \<noteq> None}"

lemma slot_insert_occupied:
  assumes "slot_insert x slots = (i, slots')"
  shows "i \<notin> occupied slots" "occupied slots' = insert i (occupied slots)" "slots' ! i = Some x" "i < length slots'"
    "\<And>j. j \<in> occupied slots \<Longrightarrow> slots' ! j = slots ! j"
  using assms slot_position_Some [of slots i]
  by (auto simp: slot_insert_def occupied_def nth_append nth_list_update less_Suc_eq split: option.splits if_splits)

lemma occupied_update:
  assumes "i < length slots"
  shows "occupied (slots[i := Some x]) = insert i (occupied slots)" "occupied (slots[i := None]) = occupied slots - {i}"
  using assms by (auto simp: occupied_def nth_list_update split: if_splits)

lemma slot_get_occupied: "i \<in> occupied slots \<Longrightarrow> \<exists>x. slot_get i slots = Inr x \<and> slots ! i = Some x"
  by (auto simp: occupied_def slot_get_def)

lemma slot_get_Inr: "slot_get i slots = Inr x \<longleftrightarrow> i < length slots \<and> slots ! i = Some x"
  by (auto simp: slot_get_def split: option.splits)

lemma slot_get_in: "slot_get i slots = Inr x \<Longrightarrow> i \<in> occupied slots"
  by (simp add: slot_get_Inr occupied_def)

lemma occupied_set: "i \<in> occupied slots \<Longrightarrow> occupied (slots[i := Some x]) = occupied slots"
  by (subst occupied_update) (auto simp: occupied_def)

text \<open>What the guards of a registry can do: a guard is created by registering and ends with
  unregistering; in between it reports feedback for its own slot.\<close>

inductive wss_run :: "('s, 'h) wal_senders \<Rightarrow> nat set \<Rightarrow> bool" where
  start: "wss_run wss_new {}"
| register: "wss_run s live \<Longrightarrow> wss_register w s = (Inr i, s') \<Longrightarrow> wss_run s' (insert i live)"
| ps: "wss_run s live \<Longrightarrow> i \<in> live \<Longrightarrow> record_ps_feedback i f s = (r, s') \<Longrightarrow> wss_run s' live"
| reply: "wss_run s live \<Longrightarrow> i \<in> live \<Longrightarrow> record_standby_reply i rp s = (q, s') \<Longrightarrow> wss_run s' live"
| hs: "wss_run s live \<Longrightarrow> i \<in> live \<Longrightarrow> record_hs_feedback i h s = (q, s') \<Longrightarrow> wss_run s' live"
| reader: "wss_run s live \<Longrightarrow> i \<in> live \<Longrightarrow>
    create_or_update_interpreted_reader cp i l d up cr s = (q, s') \<Longrightarrow> wss_run s' live"
| unregister: "wss_run s live \<Longrightarrow> i \<in> live \<Longrightarrow> wss_unregister i s = (q, s') \<Longrightarrow> wss_run s' (live - {i})"

lemmas registry_ops = wss_register_def record_ps_feedback_def record_standby_reply_def record_hs_feedback_def
  wss_unregister_def create_or_update_interpreted_reader_def update_reply_feedback_def

lemma wss_run_occupied: "wss_run s live \<Longrightarrow> live = occupied (wss_slots s)"
proof (induction rule: wss_run.induct)
  case start
  then show ?case by (simp add: wss_new_def occupied_def)
next
  case (register s live w i s')
  then show ?case using slot_insert_occupied(2) [of w "wss_slots s" i "wss_slots s'"]
    by (auto simp: wss_register_def split: prod.splits)
next
  case (ps s live i f r s')
  then show ?case using slot_get_occupied [of i "wss_slots s"]
    by (auto simp: record_ps_feedback_def occupied_set)
next
  case (reply s live i rp q s')
  then show ?case using slot_get_occupied [of i "wss_slots s"]
    by (auto simp: record_standby_reply_def occupied_set)
next
  case (hs s live i h q s')
  then show ?case using slot_get_occupied [of i "wss_slots s"]
    by (auto simp: record_hs_feedback_def update_reply_feedback_def occupied_set)
next
  case (reader s live i cp l d up cr q s')
  then show ?case using slot_get_occupied [of i "wss_slots s"]
    by (auto simp: create_or_update_interpreted_reader_def Let_def occupied_set
        split: sum.splits wal_sender_state.splits)
next
  case (unregister s live i q s')
  then show ?case
    by (auto simp: wss_unregister_def update_reply_feedback_def occupied_update split: if_splits)
      (auto simp: occupied_def)
qed

text \<open>C27: In every run of the registry, a new sender gets a slot that no live sender has, a report of a live
  sender finds its slot and returns normally, and the end of a live sender frees exactly its slot.\<close>

theorem registry_guards:
  assumes "wss_run s live"
  shows "(\<exists>i s'. wss_register w s = (Inr i, s') \<and> i \<notin> live) \<and>
    (\<forall>i \<in> live. fst (record_ps_feedback i f s) = Inr f \<and> fst (record_standby_reply i rp s) = Inr () \<and>
       fst (record_hs_feedback i h s) = Inr () \<and>
       (\<exists>s'. wss_unregister i s = (Inr (), s') \<and> occupied (wss_slots s') = live - {i}))"
  unfolding wss_run_occupied [OF assms]
proof (intro conjI ballI)
  show "\<exists>i s'. wss_register w s = (Inr i, s') \<and> i \<notin> occupied (wss_slots s)"
    using slot_insert_occupied(1) [of w "wss_slots s"] by (auto simp: wss_register_def split: prod.splits)
  fix i assume i: "i \<in> occupied (wss_slots s)"
  then obtain x where x: "slot_get i (wss_slots s) = Inr x" using slot_get_occupied by blast
  show "fst (record_ps_feedback i f s) = Inr f" "fst (record_standby_reply i rp s) = Inr ()"
    "fst (record_hs_feedback i h s) = Inr ()"
    using x by (simp_all add: record_ps_feedback_def record_standby_reply_def record_hs_feedback_def)
  show "\<exists>s'. wss_unregister i s = (Inr (), s') \<and> occupied (wss_slots s') = occupied (wss_slots s) - {i}"
    using i by (auto simp: wss_unregister_def update_reply_feedback_def occupied_update) (auto simp: occupied_def)
qed

definition demo_sender :: "(nat, nat) wal_sender_state" where
  "demo_sender = Vanilla \<lparr>vs_ttid = ([], []), vs_addr = ''10.0.0.1:6400'', vs_conn_id = 1, vs_appname = None,
     vs_feedback = Pageserver pf_empty\<rparr>"

theorem registry_guards_witness:
  "fst (wss_register demo_sender (snd (wss_register demo_sender wss_new))) = Inr 1 \<and>
   fst (record_hs_feedback 0 hsf_empty (snd (wss_register demo_sender wss_new))) = Inr ()"
proof -
  let ?s = "snd (wss_register demo_sender wss_new)"
  have r: "wss_register demo_sender wss_new = (Inr 0, ?s)" by (simp add: wss_register_def wss_new_def slot_insert_def)
  have run: "wss_run ?s {0}" using wss_run.register [OF wss_run.start r] by simp
  from registry_guards [OF run, of demo_sender pf_empty sr_empty hsf_empty]
  show ?thesis by (auto simp: wss_register_def wss_new_def slot_insert_def)
qed

subsection \<open>The aggregated feedback\<close>

text \<open>\<open>a\<close> is the least of the valid (nonzero) values of \<open>xs\<close>, or zero when there is none.\<close>

definition least_valid :: "(u64 \<Rightarrow> u64 \<Rightarrow> bool) \<Rightarrow> u64 list \<Rightarrow> u64 \<Rightarrow> bool" where
  "least_valid le xs a \<longleftrightarrow> (if set xs \<subseteq> {0} then a = 0
     else a \<noteq> 0 \<and> a \<in> set xs \<and> (\<forall>x \<in> set xs. x \<noteq> 0 \<longrightarrow> le a x))"

lemma least_valid_step:
  assumes a: "least_valid le xs a" and le: "\<And>x. le x x" "\<And>x y. le x y \<or> le y x" "\<And>x y z. le x y \<Longrightarrow> le y z \<Longrightarrow> le x z"
  shows "least_valid le (xs @ [x]) (if x \<noteq> 0 then if a \<noteq> 0 then if le a x then a else x else x else a)"
proof (cases "set xs \<subseteq> {0}")
  case True
  then have "a = 0" using a by (simp add: least_valid_def)
  with True show ?thesis using le(1) by (auto simp: least_valid_def)
next
  case False
  then have v: "a \<noteq> 0" "a \<in> set xs" "\<forall>y \<in> set xs. y \<noteq> 0 \<longrightarrow> le a y" using a by (auto simp: least_valid_def)
  have "le x y" if "\<not> le a x" "y \<in> set xs" "y \<noteq> 0" for y using le(2) [of a x] le(3) [of x a y] that v(3) by blast
  then show ?thesis using False v le(1) by (auto simp: least_valid_def)
qed

lemma fold_least_valid:
  assumes step: "\<And>x a. agg x a = (if x \<noteq> 0 then if a \<noteq> 0 then if le a x then a else x else x else a)"
    and le: "\<And>x. le x x" "\<And>x y. le x y \<or> le y x" "\<And>x y z. le x y \<Longrightarrow> le y z \<Longrightarrow> le x z"
  shows "least_valid le xs (fold agg xs 0)"
proof (induction xs rule: rev_induct)
  case Nil
  then show ?case by (simp add: least_valid_def)
next
  case (snoc x xs)
  then show ?case using least_valid_step [OF snoc le] by (simp only: fold_append comp_apply fold_simps step)
qed

abbreviation sle :: "u64 \<Rightarrow> u64 \<Rightarrow> bool" where
  "sle a b \<equiv> sint a \<le> sint b"

lemma fold_agg_lsn: "least_valid (\<le>) xs (fold agg_lsn xs 0)"
  by (rule fold_least_valid) (auto simp: agg_lsn_def min_def)

lemma fold_agg_ts: "least_valid sle xs (fold agg_ts xs 0)"
  by (rule fold_least_valid) (auto simp: agg_ts_def)

lemma aggregate_reply_fields:
  "sr_write_lsn (fold (\<lambda>f. agg_reply (sf_reply f)) fs a) = fold agg_lsn (map (\<lambda>f. sr_write_lsn (sf_reply f)) fs) (sr_write_lsn a)"
  "sr_flush_lsn (fold (\<lambda>f. agg_reply (sf_reply f)) fs a) = fold agg_lsn (map (\<lambda>f. sr_flush_lsn (sf_reply f)) fs) (sr_flush_lsn a)"
  "sr_apply_lsn (fold (\<lambda>f. agg_reply (sf_reply f)) fs a) = fold agg_lsn (map (\<lambda>f. sr_apply_lsn (sf_reply f)) fs) (sr_apply_lsn a)"
  "sr_reply_ts (fold (\<lambda>f. agg_reply (sf_reply f)) fs a) = fold agg_ts (map (\<lambda>f. sr_reply_ts (sf_reply f)) fs) (sr_reply_ts a)"
  by (induction fs arbitrary: a) (simp_all add: agg_reply_def)

lemma agg_hs_fields:
  "hsf_xmin (agg_hs h a) = agg_lsn (hsf_xmin h) (hsf_xmin a)"
  "hsf_catalog_xmin (agg_hs h a) = agg_lsn (hsf_catalog_xmin h) (hsf_catalog_xmin a)"
  by (simp_all add: agg_hs_def Let_def INVALID_FULL_TRANSACTION_ID_def agg_lsn_def)

lemma aggregate_hs_fields:
  "hsf_xmin (fold (\<lambda>f. agg_hs (sf_hs_feedback f)) fs a) = fold agg_lsn (map (\<lambda>f. hsf_xmin (sf_hs_feedback f)) fs) (hsf_xmin a)"
  "hsf_catalog_xmin (fold (\<lambda>f. agg_hs (sf_hs_feedback f)) fs a) =
     fold agg_lsn (map (\<lambda>f. hsf_catalog_xmin (sf_hs_feedback f)) fs) (hsf_catalog_xmin a)"
  by (induction fs arbitrary: a) (simp_all add: agg_hs_fields)

lemma least_valid_lsn_fields:
  "least_valid (\<le>) (map (\<lambda>f. hsf_xmin (sf_hs_feedback f)) fs) (hsf_xmin (sf_hs_feedback (aggregate fs)))"
  "least_valid (\<le>) (map (\<lambda>f. hsf_catalog_xmin (sf_hs_feedback f)) fs) (hsf_catalog_xmin (sf_hs_feedback (aggregate fs)))"
  "least_valid (\<le>) (map (\<lambda>f. sr_write_lsn (sf_reply f)) fs) (sr_write_lsn (sf_reply (aggregate fs)))"
  "least_valid (\<le>) (map (\<lambda>f. sr_flush_lsn (sf_reply f)) fs) (sr_flush_lsn (sf_reply (aggregate fs)))"
  "least_valid (\<le>) (map (\<lambda>f. sr_apply_lsn (sf_reply f)) fs) (sr_apply_lsn (sf_reply (aggregate fs)))"
  "least_valid sle (map (\<lambda>f. sr_reply_ts (sf_reply f)) fs) (sr_reply_ts (sf_reply (aggregate fs)))"
  by (simp_all add: aggregate_def aggregate_reply_fields aggregate_hs_fields hsf_empty_def sr_empty_def lsn_INVALID_def
      fold_agg_lsn fold_agg_ts)


text \<open>The hot standby part of the aggregate is that of the feedback in the slots.\<close>

definition hs_current :: "('s, 'h) wal_senders \<Rightarrow> bool" where
  "hs_current s \<longleftrightarrow> sf_hs_feedback (wss_agg_standby_feedback s) = sf_hs_feedback (aggregate (standby_feedbacks (wss_slots s)))"

definition hs_part :: "('s, 'h) wal_sender_state option \<Rightarrow> hot_standby_feedback \<Rightarrow> hot_standby_feedback" where
  "hs_part s a = (case s of None \<Rightarrow> a | Some w \<Rightarrow> (case ws_get_feedback w of Standby f \<Rightarrow> agg_hs (sf_hs_feedback f) a
     | Pageserver _ \<Rightarrow> a))"

lemma hs_aggregate:
  "sf_hs_feedback (aggregate (standby_feedbacks slots)) = fold hs_part slots hsf_empty"
proof -
  have "fold (\<lambda>f. agg_hs (sf_hs_feedback f)) (standby_feedbacks slots) a = fold hs_part slots a" for a
    by (induction slots arbitrary: a)
      (auto simp: standby_feedbacks_def flatten_def hs_part_def split: option.splits replication_feedback.splits)
  then show ?thesis by (simp add: aggregate_def)
qed

lemma hs_part_update:
  assumes "i < length slots" "hs_part x = hs_part (slots ! i)"
  shows "fold hs_part (slots[i := x]) a = fold hs_part slots a"
proof -
  have "map hs_part (slots[i := x]) = map hs_part slots"
    using assms by (simp add: map_update list_update_same_conv)
  then show ?thesis
    using fold_map [of id hs_part "slots[i := x]"] fold_map [of id hs_part slots] by (simp only: id_comp)
qed

lemma get_set_feedback [simp]: "ws_get_feedback (ws_set_feedback f s) = f"
  by (cases s) simp_all

lemma agg_hs_empty [simp]: "agg_hs hsf_empty a = a"
  by (simp add: agg_hs_def hsf_empty_def Let_def INVALID_FULL_TRANSACTION_ID_def)

lemma hs_part_pageserver: "ws_get_feedback w = Pageserver f \<Longrightarrow> hs_part (Some w) = (\<lambda>a. a)"
  by (simp add: hs_part_def fun_eq_iff)

lemma hs_part_reply: "hs_part (Some (ws_set_feedback (Standby (with_reply r (ws_get_feedback w))) w)) = hs_part (Some w)"
  by (simp add: hs_part_def fun_eq_iff with_reply_def split: replication_feedback.splits)

lemma hs_current_register:
  assumes "hs_current s" "ws_get_feedback w = Pageserver f"
  shows "hs_current (snd (wss_register w s))"
proof (cases "slot_position (wss_slots s)")
  case None
  then show ?thesis
    using assms by (simp add: hs_current_def wss_register_def slot_insert_def hs_aggregate hs_part_pageserver)
next
  case (Some i)
  from slot_position_Some [OF this] have "i < length (wss_slots s)" "hs_part (Some w) = hs_part (wss_slots s ! i)"
    using hs_part_pageserver [OF assms(2)] by (auto simp: hs_part_def)
  from hs_part_update [OF this] show ?thesis
    using assms Some by (simp add: hs_current_def wss_register_def slot_insert_def hs_aggregate)
qed

lemma hs_current_at:
  assumes "hs_current s" "slot_get i (wss_slots s) = Inr w" "hs_part (Some w') = hs_part (Some w)"
  shows "fold hs_part ((wss_slots s)[i := Some w']) hsf_empty = sf_hs_feedback (wss_agg_standby_feedback s)"
  using hs_part_update [of i "wss_slots s" "Some w'"] assms by (simp add: slot_get_Inr hs_current_def hs_aggregate)


definition demo_standby :: "(nat, nat) wal_senders" where
  "demo_standby = snd (record_hs_feedback 0 \<lparr>hsf_ts = 5, hsf_xmin = 700, hsf_catalog_xmin = 0\<rparr>
     (snd (wss_register demo_sender wss_new)))"

lemma demo_standby_slots:
  "wss_slots demo_standby = [Some (Vanilla \<lparr>vs_ttid = ([], []), vs_addr = ''10.0.0.1:6400'', vs_conn_id = 1, vs_appname = None,
     vs_feedback = Standby \<lparr>sf_reply = sr_empty, sf_hs_feedback = \<lparr>hsf_ts = 5, hsf_xmin = 700, hsf_catalog_xmin = 0\<rparr>\<rparr>\<rparr>)]"
  by (simp add: demo_standby_def wss_register_def wss_new_def slot_insert_def record_hs_feedback_def slot_get_def
      update_reply_feedback_def demo_sender_def with_hs_def)


text \<open>A standby reply is recorded in its slot but not in the aggregate: the aggregated reply, whose apply
  position is broadcast as the standby horizon, stays what it was whatever the standby reports.\<close>

theorem standby_reply_not_aggregated:
  "get_hotstandby (snd (record_standby_reply i rp s)) = get_hotstandby s"
  by (simp add: record_standby_reply_def get_hotstandby_def split: sum.splits)

subsection \<open>The number of computes\<close>

text \<open>The number of walreceivers in the watch channel is the number of registered ones: it is so at
  the start and after registering, changing the status and unregistering.\<close>

theorem num_computes_current:
  assumes "wrv_num_computes s = wrv_get_num s"
  shows "wrv_num_computes wrv_new = wrv_get_num wrv_new \<and>
    (\<forall>s'. s' = snd (wrv_register c s) \<or> s' = snd (wrv_set_status i st s) \<or> s' = snd (wrv_unregister i s) \<longrightarrow>
       wrv_num_computes s' = wrv_get_num s')"
proof -
  have "length (flatten (slots[i := Some y])) = length (flatten slots)" if "slots ! i = Some x" "i < length slots"
    for slots :: "wal_receiver_state option list" and x y
    using that by (induction slots arbitrary: i) (auto simp: flatten_def nth_Cons split: option.splits nat.splits)
  then show ?thesis
    using assms by (auto simp: wrv_new_def wrv_get_num_def flatten_def [of "[]"] wrv_register_def wrv_set_status_def
        wrv_unregister_def update_num_def slot_get_Inr split: prod.splits sum.splits)
qed

theorem num_computes_current_witness:
  "wrv_num_computes (snd (wrv_register (Some 4) wrv_new)) = 1"
  using num_computes_current [of wrv_new "Some 4" 0 Voting]
  by (simp add: wrv_new_def wrv_get_num_def wrv_register_def slot_insert_def flatten_def update_num_def)

end
