(* ===== verification/Timeline.thy ===== *)
theory Timeline
  imports SafekeeperRun WalSenders
begin

text \<open>
  A timeline of a safekeeper (safekeeper/src/timeline.rs): the shared state behind the lock, which
  holds the acceptor or, for an evicted timeline, its control file only; the watch channels that
  the write guard updates when it is dropped; and the operations of \<open>Timeline\<close>,
  \<open>WalResidentTimeline\<close> and \<open>ManagerTimeline\<close> that change the state. The storages are the records
  \<open>C\<close> and \<open>W\<close> of \<open>Safekeeper\<close>. An operation under the write lock is one step.
\<close>

subsection \<open>The state\<close>

datatype ('c, 'w) state_sk =
  Loaded "('c, 'w) safekeeper" | Evicted "'c timeline_state" | Empty_sk

abbreviation unreachable :: "'a res" where
  "unreachable \<equiv> Inl (Panic ''internal error: entered unreachable code'')"

fun ssk_state :: "('c, 'w) state_sk \<Rightarrow> 'c timeline_state res" where
  "ssk_state (Loaded sk) = Inr (sk_state sk)"
| "ssk_state (Evicted s) = Inr s"
| "ssk_state Empty_sk = unreachable"

fun ssk_set_state :: "'c timeline_state \<Rightarrow> ('c, 'w) state_sk \<Rightarrow> ('c, 'w) state_sk" where
  "ssk_set_state s (Loaded sk) = Loaded (sk\<lparr>sk_state := s\<rparr>)"
| "ssk_set_state s (Evicted _) = Evicted s"
| "ssk_set_state s Empty_sk = Empty_sk"

fun ssk_flush_lsn :: "'c ctrl_storage \<Rightarrow> 'w wal_storage \<Rightarrow> ('c, 'w) state_sk \<Rightarrow> lsn res" where
  "ssk_flush_lsn C W (Loaded sk) = Inr (wl_flush_lsn W (sk_wal_store sk))"
| "ssk_flush_lsn C W (Evicted s) = (case ps_eviction_state (pers C s) of
     Offloaded flush_lsn \<Rightarrow> Inr flush_lsn
   | Present \<Rightarrow> Inl (Panic ''StateSK::Offloaded mismatches with eviction_state from control_file''))"
| "ssk_flush_lsn C W Empty_sk = unreachable"

definition ssk_last_log_term :: "'c ctrl_storage \<Rightarrow> 'w wal_storage \<Rightarrow> ('c, 'w) state_sk \<Rightarrow> term_no res" where
  "ssk_last_log_term C W self =
     rbind (ssk_state self) (\<lambda>state. rbind (ssk_flush_lsn C W self) (\<lambda>flush_lsn.
       Inr (as_get_last_log_term (ps_acceptor_state (pers C state)) flush_lsn)))"

fun ssk_term_start_lsn :: "('c, 'w) state_sk \<Rightarrow> lsn res" where
  "ssk_term_start_lsn (Loaded sk) = Inr (sk_term_start_lsn sk)"
| "ssk_term_start_lsn (Evicted _) = Inr 0"
| "ssk_term_start_lsn Empty_sk = unreachable"

text \<open>An action on the control file state, through \<open>state_mut\<close>.\<close>

definition on_ssk_state :: "('c timeline_state, 'a) act \<Rightarrow> (('c, 'w) state_sk, 'a) act" where
  "on_ssk_state m self = (case ssk_state self of
     Inl e \<Rightarrow> (Inl e, self)
   | Inr s \<Rightarrow> (case m s of (r, s) \<Rightarrow> (r, ssk_set_state s self)))"

text \<open>An action on the acceptor, through \<open>safekeeper()\<close>.\<close>

fun on_safekeeper :: "(('c, 'w) safekeeper, 'a) act \<Rightarrow> (('c, 'w) state_sk, 'a) act" where
  "on_safekeeper m (Loaded sk) = (case m sk of (r, sk) \<Rightarrow> (r, Loaded sk))"
| "on_safekeeper m (Evicted s) = (Inl (Panic ''safekeeper is offloaded, cannot be used''), Evicted s)"
| "on_safekeeper m Empty_sk = (unreachable, Empty_sk)"

definition ssk_term_bump ::
  "'c ctrl_storage \<Rightarrow> term_no option \<Rightarrow> (('c, 'w) state_sk, term_no \<times> term_no) act" where
  "ssk_term_bump C to = on_ssk_state (term_bump C to)"

definition ssk_membership_switch ::
  "'c ctrl_storage \<Rightarrow> configuration \<Rightarrow> (('c, 'w) state_sk, configuration \<times> configuration) act" where
  "ssk_membership_switch C to = on_ssk_state (membership_switch C to)"

text \<open>What a peer reports about the timeline.\<close>

record sk_info =
  ski_safekeeper_id :: node_id
  ski_term :: term_no
  ski_last_log_term :: term_no
  ski_flush_lsn :: lsn
  ski_commit_lsn :: lsn
  ski_remote_consistent_lsn :: lsn
  ski_peer_horizon_lsn :: lsn
  ski_backup_lsn :: lsn
  ski_local_start_lsn :: lsn
  ski_standby_horizon :: lsn
  ski_safekeeper_connstr :: string
  ski_http_connstr :: string
  ski_https_connstr :: "string option"

text \<open>The three sums are computed in the order of the updates; a sum that overflows panics after the
  updates before it.\<close>

definition record_positions :: "'c ctrl_storage \<Rightarrow> sk_info \<Rightarrow> ('c timeline_state, unit) act" where
  "record_positions C i state =
     (let p = pers C state; seg = ucast (si_wal_seg_size (ps_server p)) :: u64; m = ts_inmem state;
          m1 = m\<lparr>im_backup_lsn := max (ski_backup_lsn i) (im_backup_lsn m)\<rparr>;
          m2 = m1\<lparr>im_remote_consistent_lsn := max (ski_remote_consistent_lsn i) (im_remote_consistent_lsn m)\<rparr>;
          m3 = m2\<lparr>im_peer_horizon_lsn := max (ski_peer_horizon_lsn i) (im_peer_horizon_lsn m)\<rparr>
      in case lsn_add (ps_backup_lsn p) seg of
           Inl e \<Rightarrow> (Inl e, state\<lparr>ts_inmem := m1\<rparr>)
         | Inr a \<Rightarrow> (case lsn_add (ps_remote_consistent_lsn p) seg of
             Inl e \<Rightarrow> (Inl e, state\<lparr>ts_inmem := m2\<rparr>)
           | Inr b \<Rightarrow> (case lsn_add (ps_peer_horizon_lsn p) seg of
               Inl e \<Rightarrow> (Inl e, state\<lparr>ts_inmem := m3\<rparr>)
             | Inr c \<Rightarrow>
                 if a < im_backup_lsn m3 \<or> b < im_remote_consistent_lsn m3 \<or> c < im_peer_horizon_lsn m3
                 then ts_flush C (state\<lparr>ts_inmem := m3\<rparr>)
                 else (Inr (), state\<lparr>ts_inmem := m3\<rparr>))))"

definition ssk_record_safekeeper_info ::
  "'c ctrl_storage \<Rightarrow> 'w wal_storage \<Rightarrow> sk_info \<Rightarrow> (('c, 'w) state_sk, unit) act" where
  "ssk_record_safekeeper_info C W i =
     abind (\<lambda>self. case self of
         Loaded sk \<Rightarrow> on_safekeeper (record_safekeeper_info C W (ski_commit_lsn i) (ski_last_log_term i)) self
       | Evicted _ \<Rightarrow> (Inr (), self)
       | Empty_sk \<Rightarrow> (unreachable, self))
     (\<lambda>_. on_ssk_state (record_positions C i))"

subsection \<open>Peers\<close>

text \<open>\<open>pi_ts\<close> is the time the information was received.\<close>

record peer_info =
  pi_sk_id :: node_id
  pi_term :: term_no
  pi_last_log_term :: term_no
  pi_flush_lsn :: lsn
  pi_commit_lsn :: lsn
  pi_local_start_lsn :: lsn
  pi_ts :: nat
  pi_pg_connstr :: string
  pi_http_connstr :: string
  pi_https_connstr :: "string option"

definition peer_info_from_sk_info :: "sk_info \<Rightarrow> nat \<Rightarrow> peer_info" where
  "peer_info_from_sk_info i ts = \<lparr>pi_sk_id = ski_safekeeper_id i, pi_term = ski_term i,
     pi_last_log_term = ski_last_log_term i, pi_flush_lsn = ski_flush_lsn i, pi_commit_lsn = ski_commit_lsn i,
     pi_local_start_lsn = ski_local_start_lsn i, pi_ts = ts, pi_pg_connstr = ski_safekeeper_connstr i,
     pi_http_connstr = ski_http_connstr i, pi_https_connstr = ski_https_connstr i\<rparr>"

fun peers_upsert :: "peer_info \<Rightarrow> peer_info list \<Rightarrow> peer_info list" where
  "peers_upsert p [] = [p]"
| "peers_upsert p (q # r) = (if pi_sk_id q = pi_sk_id p then p # r else q # peers_upsert p r)"

record ('c, 'w) shared_state =
  sh_sk :: "('c, 'w) state_sk"
  sh_peers_info :: "peer_info list"
  sh_wal_removal_on_hold :: bool

definition shared_state_new :: "('c, 'w) state_sk \<Rightarrow> ('c, 'w) shared_state" where
  "shared_state_new sk = \<lparr>sh_sk = sk, sh_peers_info = [], sh_wal_removal_on_hold = False\<rparr>"

text \<open>\<open>SharedState::restore\<close>, with the opening of the WAL storage as an argument.\<close>

definition shared_state_restore ::
  "'c ctrl_storage \<Rightarrow> 'c res \<Rightarrow> (timeline_persistent_state \<Rightarrow> 'w res) \<Rightarrow> node_id \<Rightarrow> ('c, 'w) shared_state res" where
  "shared_state_restore C control_store open_wal my_id =
     rbind control_store (\<lambda>c.
     if si_wal_seg_size (ps_server (cs_deref C c)) = 0 then Inl (Bail ''UninitializedWalSegSize'')
     else rbind (case ps_eviction_state (cs_deref C c) of
         Present \<Rightarrow> rbind (open_wal (cs_deref C c)) (\<lambda>wal_store.
           rbind (safekeeper_new C (timeline_state_new C c) wal_store my_id) (\<lambda>sk. Inr (Loaded sk)))
       | Offloaded _ \<Rightarrow> Inr (Evicted (timeline_state_new C c)))
     (\<lambda>sk. Inr (shared_state_new sk)))"

definition get_peers :: "nat \<Rightarrow> nat \<Rightarrow> ('c, 'w) shared_state \<Rightarrow> peer_info list" where
  "get_peers now heartbeat_timeout self = filter (\<lambda>p. now - pi_ts p \<le> heartbeat_timeout) (sh_peers_info self)"

text \<open>What is broadcast about the timeline; the configuration gives the identity and the addresses.\<close>

record sk_conf =
  cf_my_id :: node_id
  cf_advertise_pg_addr :: "string option"
  cf_listen_pg_addr :: string
  cf_listen_http_addr :: string
  cf_listen_https_addr :: "string option"

definition get_safekeeper_info ::
  "'c ctrl_storage \<Rightarrow> 'w wal_storage \<Rightarrow> sk_conf \<Rightarrow> lsn \<Rightarrow> ('c, 'w) shared_state \<Rightarrow> sk_info res" where
  "get_safekeeper_info C W conf standby_apply_lsn self =
     rbind (ssk_state (sh_sk self)) (\<lambda>s.
     rbind (ssk_last_log_term C W (sh_sk self)) (\<lambda>t.
     rbind (ssk_flush_lsn C W (sh_sk self)) (\<lambda>l.
     Inr \<lparr>ski_safekeeper_id = cf_my_id conf, ski_term = cur_term C s, ski_last_log_term = t, ski_flush_lsn = l,
       ski_commit_lsn = im_commit_lsn (ts_inmem s), ski_remote_consistent_lsn = im_remote_consistent_lsn (ts_inmem s),
       ski_peer_horizon_lsn = im_peer_horizon_lsn (ts_inmem s), ski_backup_lsn = im_backup_lsn (ts_inmem s),
       ski_local_start_lsn = ps_local_start_lsn (pers C s), ski_standby_horizon = standby_apply_lsn,
       ski_safekeeper_connstr = (case cf_advertise_pg_addr conf of Some a \<Rightarrow> a | None \<Rightarrow> cf_listen_pg_addr conf),
       ski_http_connstr = cf_listen_http_addr conf, ski_https_connstr = cf_listen_https_addr conf\<rparr>)))"

definition bootstrap_mgr :: "'c ctrl_storage \<Rightarrow> ('c, 'w) shared_state \<Rightarrow> (bool \<times> partial_remote_segment option) res" where
  "bootstrap_mgr C self = rbind (ssk_state (sh_sk self)) (\<lambda>s.
     Inr (ps_eviction_state (pers C s) \<noteq> Present, uploaded_segment (ps_partial_backup (pers C s))))"

subsection \<open>The timeline and its write guard\<close>

record ('c, 'w, 's, 'h) timeline =
  tl_shared :: "('c, 'w) shared_state"
  tl_commit_lsn_watch :: lsn
  tl_term_flush_lsn_watch :: term_lsn
  tl_state_version :: u64
  tl_walsenders :: "('s, 'h) wal_senders"
  tl_walreceivers :: wal_receivers
  tl_cancelled :: bool

text \<open>Dropping the guard sends the positions of the state to the watch channels.\<close>

definition guard_drop ::
  "'c ctrl_storage \<Rightarrow> 'w wal_storage \<Rightarrow> (('c, 'w, 's, 'h) timeline, unit) act" where
  "guard_drop C W self =
     (let sk = sh_sk (tl_shared self)
      in case rbind (ssk_last_log_term C W sk) (\<lambda>t. rbind (ssk_flush_lsn C W sk) (\<lambda>l.
              rbind (ssk_state sk) (\<lambda>s. Inr (TermLsn t l, im_commit_lsn (ts_inmem s))))) of
           Inl e \<Rightarrow> (Inl e, self)
         | Inr (term_flush_lsn, commit_lsn) \<Rightarrow>
             (Inr (), self\<lparr>tl_term_flush_lsn_watch := term_flush_lsn, tl_commit_lsn_watch := commit_lsn,
                tl_state_version := tl_state_version self + 1\<rparr>))"

text \<open>An operation under the write lock. The result is that of the operation unless dropping panics.\<close>

definition with_guard ::
  "'c ctrl_storage \<Rightarrow> 'w wal_storage \<Rightarrow> (('c, 'w) shared_state, 'a) act \<Rightarrow> (('c, 'w, 's, 'h) timeline, 'a) act" where
  "with_guard C W m self =
     (case m (tl_shared self) of (r, sh) \<Rightarrow>
        (case guard_drop C W (self\<lparr>tl_shared := sh\<rparr>) of
           (Inl e, self) \<Rightarrow> (Inl e, self) | (Inr _, self) \<Rightarrow> (r, self)))"

definition on_sk :: "(('c, 'w) state_sk, 'a) act \<Rightarrow> (('c, 'w) shared_state, 'a) act" where
  "on_sk m sh = (case m (sh_sk sh) of (r, sk) \<Rightarrow> (r, sh\<lparr>sh_sk := sk\<rparr>))"

definition check_cancelled :: "(('c, 'w, 's, 'h) timeline, unit) act" where
  "check_cancelled self = (if tl_cancelled self then Inl (Bail ''Cancelled'') else Inr (), self)"

definition set_inmem :: "(timeline_mem_state \<Rightarrow> timeline_mem_state) \<Rightarrow> ('c timeline_state, unit) act" where
  "set_inmem f s = (Inr (), s\<lparr>ts_inmem := f (ts_inmem s)\<rparr>)"

definition set_wal_backup_lsn ::
  "'c ctrl_storage \<Rightarrow> 'w wal_storage \<Rightarrow> lsn \<Rightarrow> (('c, 'w, 's, 'h) timeline, unit) act" where
  "set_wal_backup_lsn C W backup_lsn = abind check_cancelled (\<lambda>_.
     with_guard C W (on_sk (on_ssk_state (set_inmem (\<lambda>m. m\<lparr>im_backup_lsn := max (im_backup_lsn m) backup_lsn\<rparr>)))))"

definition update_remote_consistent_lsn ::
  "'c ctrl_storage \<Rightarrow> 'w wal_storage \<Rightarrow> lsn \<Rightarrow> (('c, 'w, 's, 'h) timeline, unit) act" where
  "update_remote_consistent_lsn C W candidate =
     with_guard C W (on_sk (on_ssk_state (set_inmem
       (\<lambda>m. m\<lparr>im_remote_consistent_lsn := max (im_remote_consistent_lsn m) candidate\<rparr>))))"

definition tl_record_safekeeper_info ::
  "'c ctrl_storage \<Rightarrow> 'w wal_storage \<Rightarrow> sk_info \<Rightarrow> nat \<Rightarrow> (('c, 'w, 's, 'h) timeline, unit) act" where
  "tl_record_safekeeper_info C W i now = with_guard C W
     (abind (on_sk (ssk_record_safekeeper_info C W i)) (\<lambda>_ sh.
        (Inr (), sh\<lparr>sh_peers_info := peers_upsert (peer_info_from_sk_info i now) (sh_peers_info sh)\<rparr>)))"

definition map_control_file ::
  "'c ctrl_storage \<Rightarrow> 'w wal_storage \<Rightarrow> (timeline_persistent_state \<Rightarrow> (timeline_persistent_state \<times> 'a) res) \<Rightarrow>
     (('c, 'w, 's, 'h) timeline, 'a) act" where
  "map_control_file C W f = with_guard C W (on_sk (on_ssk_state (\<lambda>state.
     case f (start_change C state) of
       Inl e \<Rightarrow> (Inl e, state)
     | Inr (persistent_state, res) \<Rightarrow> abind (finish_change C persistent_state) (\<lambda>_. areturn res) state)))"

definition tl_term_bump ::
  "'c ctrl_storage \<Rightarrow> 'w wal_storage \<Rightarrow> term_no option \<Rightarrow> (('c, 'w, 's, 'h) timeline, term_no \<times> term_no) act" where
  "tl_term_bump C W to = with_guard C W (on_sk (ssk_term_bump C to))"

definition tl_membership_switch ::
  "'c ctrl_storage \<Rightarrow> 'w wal_storage \<Rightarrow> configuration \<Rightarrow> (('c, 'w, 's, 'h) timeline, configuration \<times> configuration) act" where
  "tl_membership_switch C W to = with_guard C W (on_sk (ssk_membership_switch C to))"

definition fill_hs_feedback ::
  "hot_standby_feedback \<Rightarrow> acceptor_proposer_message option \<Rightarrow> acceptor_proposer_message option" where
  "fill_hs_feedback hs rmsg = (case rmsg of
     Some (AAppendResponse resp) \<Rightarrow> Some (AAppendResponse (resp\<lparr>ap_hs_feedback := hs\<rparr>)) | _ \<Rightarrow> rmsg)"

definition tl_process_msg ::
  "'c ctrl_storage \<Rightarrow> 'w wal_storage \<Rightarrow> proposer_acceptor_message \<Rightarrow>
     (('c, 'w, 's, 'h) timeline, acceptor_proposer_message option) act" where
  "tl_process_msg C W msg = abind check_cancelled (\<lambda>_ self.
     with_guard C W (abind (on_sk (on_safekeeper (process_msg C W msg)))
       (\<lambda>rmsg. areturn (fill_hs_feedback (sf_hs_feedback (get_hotstandby (tl_walsenders self))) rmsg))) self)"

text \<open>\<open>should_walsender_stop\<close> and \<open>acquire_term\<close> only read the state.\<close>

definition should_walsender_stop :: "lsn \<Rightarrow> ('c, 'w, 's, 'h) timeline \<Rightarrow> bool res" where
  "should_walsender_stop reported_remote_consistent_lsn self =
     (if tl_cancelled self then Inr True
      else if wrv_get_num (tl_walreceivers self) = 0
      then rbind (ssk_state (sh_sk (tl_shared self))) (\<lambda>s.
        Inr (im_commit_lsn (ts_inmem s) = 0 \<or> im_commit_lsn (ts_inmem s) \<le> reported_remote_consistent_lsn))
      else Inr False)"

definition acquire_term :: "'c ctrl_storage \<Rightarrow> term_no \<Rightarrow> ('c, 'w, 's, 'h) timeline \<Rightarrow> unit res" where
  "acquire_term C t self = rbind (ssk_state (sh_sk (tl_shared self))) (\<lambda>s.
     if cur_term C s \<noteq> t then Inl (Bail ''failed to acquire term'') else Inr ())"

subsection \<open>Eviction\<close>

definition switch_to_offloaded_sk ::
  "'c ctrl_storage \<Rightarrow> 'w wal_storage \<Rightarrow> partial_remote_segment \<Rightarrow> (('c, 'w) state_sk, unit) act" where
  "switch_to_offloaded_sk C W partial self =
     (case rbind (ssk_state self) (\<lambda>s.
             let pstate = start_change C s
             in if ps_eviction_state pstate \<noteq> Present
                then Inl (Bail ''cannot switch to offloaded state'')
                else rbind (ssk_flush_lsn C W self) (\<lambda>flush_lsn.
                  if prs_flush_lsn partial \<noteq> flush_lsn then Inl (Bail ''flush_lsn mismatch in partial backup'')
                  else if prs_commit_lsn partial \<noteq> ps_commit_lsn pstate
                  then Inl (Bail ''commit_lsn mismatch in partial backup'')
                  else rbind (ssk_last_log_term C W self) (\<lambda>t.
                    if prs_term partial \<noteq> t then Inl (Bail ''term mismatch in partial backup'')
                    else Inr (pstate\<lparr>ps_eviction_state := Offloaded flush_lsn\<rparr>)))) of
        Inl e \<Rightarrow> (Inl e, self)
      | Inr pstate \<Rightarrow> abind (on_ssk_state (finish_change C pstate)) (\<lambda>_ self.
          case ssk_state self of Inl e \<Rightarrow> (Inl e, Empty_sk) | Inr cfile_state \<Rightarrow> (Inr (), Evicted cfile_state)) self)"

definition switch_to_present_sk ::
  "'c ctrl_storage \<Rightarrow> 'w wal_storage \<Rightarrow> (timeline_persistent_state \<Rightarrow> 'w res) \<Rightarrow> node_id \<Rightarrow>
     (('c, 'w) state_sk, unit) act" where
  "switch_to_present_sk C W open_wal my_id self =
     (case rbind (ssk_state self) (\<lambda>s. rbind (open_wal (pers C s)) (\<lambda>wal_store.
             let pstate = start_change C s
             in if ps_eviction_state pstate = Present then Inl (Bail ''cannot switch to present state'')
                else rbind (ssk_flush_lsn C W self) (\<lambda>flush_lsn.
                  if wl_flush_lsn W wal_store \<noteq> flush_lsn then Inl (Bail ''flush_lsn mismatch in restored WAL'')
                  else Inr (wal_store, pstate\<lparr>ps_eviction_state := Present\<rparr>)))) of
        Inl e \<Rightarrow> (Inl e, self)
      | Inr (wal, pstate) \<Rightarrow> abind (on_ssk_state (finish_change C pstate)) (\<lambda>_ self.
          case rbind (ssk_state self) (\<lambda>s. safekeeper_new C s wal my_id) of
            Inl e \<Rightarrow> (Inl e, Empty_sk) | Inr sk \<Rightarrow> (Inr (), Loaded sk)) self)"

definition switch_to_offloaded ::
  "'c ctrl_storage \<Rightarrow> 'w wal_storage \<Rightarrow> partial_remote_segment \<Rightarrow> (('c, 'w, 's, 'h) timeline, unit) act" where
  "switch_to_offloaded C W partial = with_guard C W (on_sk (switch_to_offloaded_sk C W partial))"

definition switch_to_present ::
  "'c ctrl_storage \<Rightarrow> 'w wal_storage \<Rightarrow> (timeline_persistent_state \<Rightarrow> 'w res) \<Rightarrow> node_id \<Rightarrow>
     (('c, 'w, 's, 'h) timeline, unit) act" where
  "switch_to_present C W open_wal my_id = with_guard C W (on_sk (switch_to_present_sk C W open_wal my_id))"

subsection \<open>What the operations keep\<close>

text \<open>The variant of the state agrees with the control file, and the timeline has its identifiers.\<close>

definition ssk_ok :: "'c ctrl_storage \<Rightarrow> ('c, 'w) state_sk \<Rightarrow> bool" where
  "ssk_ok C sk \<longleftrightarrow> (case ssk_state sk of
     Inl _ \<Rightarrow> False
   | Inr s \<Rightarrow> ps_tenant_id (pers C s) \<noteq> id_zero \<and> ps_timeline_id (pers C s) \<noteq> id_zero \<and>
       (case sk of Loaded _ \<Rightarrow> ps_eviction_state (pers C s) = Present
        | _ \<Rightarrow> ps_eviction_state (pers C s) \<noteq> Present))"

text \<open>Progress up to eviction.\<close>

abbreviation resident :: "'c ctrl_storage \<Rightarrow> 'c timeline_state \<Rightarrow> timeline_persistent_state" where
  "resident C s \<equiv> (start_change C s)\<lparr>ps_eviction_state := Present\<rparr>"

definition ssk_le :: "'c ctrl_storage \<Rightarrow> ('c, 'w) state_sk \<Rightarrow> ('c, 'w) state_sk \<Rightarrow> bool" where
  "ssk_le C sk sk' \<longleftrightarrow> (\<exists>s s'. ssk_state sk = Inr s \<and> ssk_state sk' = Inr s' \<and> ps_le (resident C s) (resident C s'))"

definition ssk_rel :: "'c ctrl_storage \<Rightarrow> ('c, 'w) state_sk \<Rightarrow> ('c, 'w) state_sk \<Rightarrow> bool" where
  "ssk_rel C sk sk' \<longleftrightarrow> (ssk_ok C sk \<longrightarrow> ssk_ok C sk' \<and> ssk_le C sk sk')"

definition ts_le :: "'c ctrl_storage \<Rightarrow> 'c timeline_state \<Rightarrow> 'c timeline_state \<Rightarrow> bool" where
  "ts_le C s s' \<longleftrightarrow> ps_le (start_change C s) (start_change C s')"

lemma ssk_rel_refl [simp]: "ssk_rel C sk sk"
  by (auto simp: ssk_rel_def ssk_ok_def ssk_le_def split: sum.splits)

lemma ssk_rel_reflp: "reflp (ssk_rel C)"
  by (simp add: reflp_def)

lemma ssk_le_trans:
  assumes "ssk_le C a b" "ssk_le C b c"
  shows "ssk_le C a c"
proof -
  obtain s t where 1: "ssk_state a = Inr s" "ssk_state b = Inr t" "ps_le (resident C s) (resident C t)"
    using assms(1) unfolding ssk_le_def by blast
  obtain u where 2: "ssk_state c = Inr u" "ps_le (resident C t) (resident C u)"
    using assms(2) 1(2) unfolding ssk_le_def by auto
  show ?thesis unfolding ssk_le_def using 1(1) 2(1) ps_le_trans [OF 1(3) 2(2)] by blast
qed

lemma ssk_rel_transp: "transp (ssk_rel C)"
  unfolding transp_def ssk_rel_def by (blast intro: ssk_le_trans)

lemma ps_le_resident: "ps_le s t \<Longrightarrow> ps_le (s\<lparr>ps_eviction_state := e\<rparr>) (t\<lparr>ps_eviction_state := e\<rparr>)"
  by (simp add: ps_le_def)

lemma ssk_set_get: "ssk_state sk = Inr s \<Longrightarrow> ssk_state (ssk_set_state s' sk) = Inr s'"
  by (cases sk) auto

lemma ts_le_ok:
  assumes "ts_le C s s'" "ssk_state sk = Inr s" "ssk_ok C sk"
  shows "ssk_ok C (ssk_set_state s' sk)"
proof -
  have "ps_tenant_id (pers C s') = ps_tenant_id (pers C s)" "ps_timeline_id (pers C s') = ps_timeline_id (pers C s)"
    "ps_eviction_state (pers C s') = ps_eviction_state (pers C s)" using assms(1) by (auto simp: ts_le_def ps_le_def)
  with assms(2,3) show ?thesis by (cases sk) (auto simp: ssk_ok_def)
qed

lemma keeps_on_ssk_state:
  assumes "keeps (ts_le C) m"
  shows "keeps (ssk_rel C) (on_ssk_state m)"
proof (rule keepsI)
  fix sk r sk' assume a: "on_ssk_state m sk = (r, sk')"
  show "ssk_rel C sk sk'"
  proof (cases "ssk_state sk")
    case (Inl e)
    then show ?thesis by (simp add: ssk_rel_def ssk_ok_def)
  next
    case (Inr s)
    obtain q s' where m: "m s = (q, s')" by fastforce
    have le: "ts_le C s s'" by (rule keepsD [OF assms m])
    have "sk' = ssk_set_state s' sk" using a Inr m by (simp add: on_ssk_state_def)
    with le Inr show ?thesis
      using ts_le_ok [OF le Inr] ssk_set_get [OF Inr] ps_le_resident [of "start_change C s" "start_change C s'"]
      by (auto simp: ssk_rel_def ssk_le_def ts_le_def)
  qed
qed

lemma keeps_on_safekeeper:
  assumes "keeps (sk_le C) m"
  shows "keeps (ssk_rel C) (on_safekeeper m)"
proof (rule keepsI)
  fix sk r sk' assume a: "on_safekeeper m sk = (r, sk')"
  show "ssk_rel C sk sk'"
  proof (cases sk)
    case (Loaded k)
    obtain q k' where m: "m k = (q, k')" by fastforce
    have le: "ps_le (eff C k) (eff C k')" using keepsD [OF assms m] by (simp add: sk_le_def)
    have "sk' = Loaded k'" using a Loaded m by simp
    with le Loaded show ?thesis
      using ps_le_resident [OF le, of Present] by (auto simp: ssk_rel_def ssk_le_def ssk_ok_def ps_le_def)
  qed (use a in auto)
qed

lemma keeps_set_inmem:
  assumes "\<And>m. im_commit_lsn m \<le> im_commit_lsn (f m)" "\<And>m. im_backup_lsn m \<le> im_backup_lsn (f m)"
    "\<And>m. im_peer_horizon_lsn m \<le> im_peer_horizon_lsn (f m)" "\<And>m. im_remote_consistent_lsn m \<le> im_remote_consistent_lsn (f m)"
  shows "keeps (ts_le C) (set_inmem f)"
  by (rule keepsI) (use assms in \<open>auto simp: set_inmem_def ts_le_def ps_le_def start_change_def\<close>)

context control_steps
begin

lemmas finish_change_reads = start_change_finish

lemma ts_le_on_state:
  assumes "keeps (sk_rel C G) (on_state m :: (('c, unit) safekeeper, 'a) act)"
  shows "keeps (ts_le C) m"
proof (rule keepsI)
  fix s r s' assume m: "m s = (r, s')"
  let ?k = "\<lambda>s. \<lparr>sk_term_start_lsn = 0, sk_state = s, sk_wal_store = (), sk_node_id = 0\<rparr>"
  have "on_state m (?k s) = (r, ?k s')" using m by (simp add: on_state_def)
  from keepsD [OF assms this] show "ts_le C s s'" by (simp add: sk_rel_def sk_le_def ts_le_def)
qed

lemma ts_flush_le: "ts_flush C s = (r, s') \<Longrightarrow> start_change C s' = start_change C s"
  unfolding ts_flush_def by (drule start_change_finish) (simp split: if_splits)

lemma keeps_record_positions: "keeps (ts_le C) (record_positions C i)"
proof (rule keepsI)
  fix s r s' assume a: "record_positions C i s = (r, s')"
  define m1 where "m1 = (ts_inmem s)\<lparr>im_backup_lsn := max (ski_backup_lsn i) (im_backup_lsn (ts_inmem s))\<rparr>"
  define m2 where "m2 = m1\<lparr>im_remote_consistent_lsn := max (ski_remote_consistent_lsn i) (im_remote_consistent_lsn (ts_inmem s))\<rparr>"
  define m3 where "m3 = m2\<lparr>im_peer_horizon_lsn := max (ski_peer_horizon_lsn i) (im_peer_horizon_lsn (ts_inmem s))\<rparr>"
  have le: "ts_le C s (s\<lparr>ts_inmem := m1\<rparr>)" "ts_le C s (s\<lparr>ts_inmem := m2\<rparr>)" "ts_le C s (s\<lparr>ts_inmem := m3\<rparr>)"
    by (simp_all add: ts_le_def ps_le_def start_change_def m1_def m2_def m3_def)
  have "s' = s\<lparr>ts_inmem := m1\<rparr> \<or> s' = s\<lparr>ts_inmem := m2\<rparr> \<or> s' = s\<lparr>ts_inmem := m3\<rparr> \<or> ts_flush C (s\<lparr>ts_inmem := m3\<rparr>) = (r, s')"
    using a by (simp add: record_positions_def Let_def m1_def [symmetric] m2_def [symmetric] m3_def [symmetric]
        split: sum.splits if_splits)
  then show "ts_le C s s'" using le ts_flush_le [of "s\<lparr>ts_inmem := m3\<rparr>" r s'] by (auto simp: ts_le_def)
qed

lemma finish_switch:
  assumes ok: "ssk_ok C sk" and s: "ssk_state sk = Inr s"
    and f: "finish_change C ((start_change C s)\<lparr>ps_eviction_state := e\<rparr>) s = (r, s')"
  shows "isl r \<Longrightarrow> ssk_rel C sk (ssk_set_state s' sk)"
    and "\<not> isl r \<Longrightarrow> ps_eviction_state (pers C s') = e \<and> ps_tenant_id (pers C s') = ps_tenant_id (pers C s) \<and>
      ps_timeline_id (pers C s') = ps_timeline_id (pers C s) \<and> resident C s' = resident C s"
proof -
  have c: "start_change C s' = (if isl r then start_change C s else (start_change C s)\<lparr>ps_eviction_state := e\<rparr>)"
    by (rule start_change_finish [OF f])
  show "ssk_rel C sk (ssk_set_state s' sk)" if "isl r"
  proof -
    have le: "ts_le C s s'" using c that by (simp add: ts_le_def)
    then show ?thesis using ts_le_ok [OF le s ok] ssk_set_get [OF s] s ps_le_resident
      by (auto simp: ssk_rel_def ssk_le_def ts_le_def)
  qed
  have "ps_eviction_state (start_change C s') = ps_eviction_state (pers C s')"
    "ps_tenant_id (start_change C s') = ps_tenant_id (pers C s')" "ps_timeline_id (start_change C s') = ps_timeline_id (pers C s')"
    by simp_all
  then show "\<not> isl r \<Longrightarrow> ps_eviction_state (pers C s') = e \<and> ps_tenant_id (pers C s') = ps_tenant_id (pers C s) \<and>
      ps_timeline_id (pers C s') = ps_timeline_id (pers C s) \<and> resident C s' = resident C s"
    using c by auto
qed

lemma keeps_switch_to_offloaded: "keeps (ssk_rel C) (switch_to_offloaded_sk C W partial)"
proof (rule keepsI)
  fix sk r sk' assume a: "switch_to_offloaded_sk C W partial sk = (r, sk')"
  show "ssk_rel C sk sk'"
  proof (cases "sk' = sk \<or> \<not> ssk_ok C sk")
    case False
    then have ok: "ssk_ok C sk" by simp
    then obtain s where s: "ssk_state sk = Inr s" by (auto simp: ssk_ok_def split: sum.splits)
    obtain l where f: "abind (on_ssk_state (finish_change C ((start_change C s)\<lparr>ps_eviction_state := Offloaded l\<rparr>)))
        (\<lambda>_ self. case ssk_state self of Inl e \<Rightarrow> (Inl e, Empty_sk) | Inr cf \<Rightarrow> (Inr (), Evicted cf)) sk = (r, sk')"
      using a s False by (auto simp: switch_to_offloaded_sk_def Let_def monad_simps split: if_splits sum.splits)
    obtain q s' where q: "finish_change C ((start_change C s)\<lparr>ps_eviction_state := Offloaded l\<rparr>) s = (q, s')" by fastforce
    note fs = finish_switch [OF ok s q]
    show ?thesis
    proof (cases q)
      case (Inl e)
      then have "sk' = ssk_set_state s' sk" using f q s by (simp add: abind_def on_ssk_state_def)
      then show ?thesis using fs(1) Inl by simp
    next
      case (Inr u)
      then have "sk' = Evicted s'" using f q s by (simp add: abind_def on_ssk_state_def ssk_set_get [OF s])
      then show ?thesis using fs(2) Inr ok s by (auto simp: ssk_rel_def ssk_ok_def ssk_le_def)
    qed
  qed (auto simp: ssk_rel_def ssk_le_def ssk_ok_def split: sum.splits)
qed

lemma keeps_switch_to_present: "keeps (ssk_rel C) (switch_to_present_sk C W open_wal my_id)"
proof (rule keepsI)
  fix sk r sk' assume a: "switch_to_present_sk C W open_wal my_id sk = (r, sk')"
  show "ssk_rel C sk sk'"
  proof (cases "sk' = sk \<or> \<not> ssk_ok C sk")
    case False
    then have ok: "ssk_ok C sk" by simp
    then obtain s where s: "ssk_state sk = Inr s" by (auto simp: ssk_ok_def split: sum.splits)
    obtain w where f: "abind (on_ssk_state (finish_change C ((start_change C s)\<lparr>ps_eviction_state := Present\<rparr>)))
        (\<lambda>_ self. case rbind (ssk_state self) (\<lambda>s. safekeeper_new C s w my_id) of
           Inl e \<Rightarrow> (Inl e, Empty_sk) | Inr k \<Rightarrow> (Inr (), Loaded k)) sk = (r, sk')"
      using a s False by (auto simp: switch_to_present_sk_def Let_def monad_simps split: if_splits sum.splits)
    obtain q s' where q: "finish_change C ((start_change C s)\<lparr>ps_eviction_state := Present\<rparr>) s = (q, s')" by fastforce
    note fs = finish_switch [OF ok s q]
    show ?thesis
    proof (cases q)
      case (Inl e)
      then have "sk' = ssk_set_state s' sk" using f q s by (simp add: abind_def on_ssk_state_def)
      then show ?thesis using fs(1) Inl by simp
    next
      case (Inr u)
      then have p: "ps_eviction_state (pers C s') = Present" "ps_tenant_id (pers C s') \<noteq> id_zero"
        "ps_timeline_id (pers C s') \<noteq> id_zero" "resident C s' = resident C s"
        using fs(2) ok s by (auto simp: ssk_ok_def)
      then have "sk' = Loaded \<lparr>sk_term_start_lsn = 0, sk_state = s', sk_wal_store = w, sk_node_id = my_id\<rparr>"
        using f q s Inr by (simp add: abind_def on_ssk_state_def ssk_set_get [OF s] safekeeper_new_def monad_simps)
      then show ?thesis using p s by (auto simp: ssk_rel_def ssk_ok_def ssk_le_def)
    qed
  qed (auto simp: ssk_rel_def ssk_le_def ssk_ok_def split: sum.splits)
qed

end

subsection \<open>Runs of a timeline\<close>

text \<open>The watch channels hold the positions of the state.\<close>

definition watch_current ::
  "'c ctrl_storage \<Rightarrow> 'w wal_storage \<Rightarrow> ('c, 'w, 's, 'h) timeline \<Rightarrow> bool" where
  "watch_current C W tm \<longleftrightarrow> (let sk = sh_sk (tl_shared tm) in
     ssk_last_log_term C W sk = Inr (tl_term (tl_term_flush_lsn_watch tm)) \<and>
     ssk_flush_lsn C W sk = Inr (tl_lsn (tl_term_flush_lsn_watch tm)) \<and>
     (\<exists>s. ssk_state sk = Inr s \<and> im_commit_lsn (ts_inmem s) = tl_commit_lsn_watch tm))"

definition tl_inv :: "'c ctrl_storage \<Rightarrow> 'w wal_storage \<Rightarrow> ('c, 'w, 's, 'h) timeline \<Rightarrow> bool" where
  "tl_inv C W tm \<longleftrightarrow> ssk_ok C (sh_sk (tl_shared tm)) \<and> watch_current C W tm"

abbreviation tl_le :: "'c ctrl_storage \<Rightarrow> ('c, 'w, 's, 'h) timeline \<Rightarrow> ('c, 'w, 's, 'h) timeline \<Rightarrow> bool" where
  "tl_le C tm tm' \<equiv> ssk_le C (sh_sk (tl_shared tm)) (sh_sk (tl_shared tm'))"

definition tl_rel ::
  "'c ctrl_storage \<Rightarrow> 'w wal_storage \<Rightarrow> ('c, 'w, 's, 'h) timeline \<Rightarrow> ('c, 'w, 's, 'h) timeline \<Rightarrow> bool" where
  "tl_rel C W tm tm' \<longleftrightarrow> (tl_inv C W tm \<longrightarrow> tl_inv C W tm' \<and> tl_le C tm tm')"

abbreviation sh_rel :: "'c ctrl_storage \<Rightarrow> ('c, 'w) shared_state \<Rightarrow> ('c, 'w) shared_state \<Rightarrow> bool" where
  "sh_rel C sh sh' \<equiv> ssk_rel C (sh_sk sh) (sh_sk sh')"

lemma ssk_ok_positions:
  assumes "ssk_ok C sk"
  shows "\<exists>s l. ssk_state sk = Inr s \<and> ssk_flush_lsn C W sk = Inr l \<and>
    ssk_last_log_term C W sk = Inr (as_get_last_log_term (ps_acceptor_state (pers C s)) l)"
proof (cases sk)
  case (Evicted s)
  then obtain l where "ps_eviction_state (pers C s) = Offloaded l"
    using assms by (cases "ps_eviction_state (pers C s)") (auto simp: ssk_ok_def)
  with Evicted show ?thesis by (simp add: ssk_last_log_term_def)
qed (use assms in \<open>auto simp: ssk_ok_def ssk_last_log_term_def\<close>)

lemma tl_rel_refl [simp]: "tl_rel C W tm tm"
  using ssk_rel_refl [of C "sh_sk (tl_shared tm)", unfolded ssk_rel_def] by (auto simp: tl_rel_def tl_inv_def)

lemma with_guard_rel:
  assumes "keeps (sh_rel C) m"
  shows "keeps (tl_rel C W) (with_guard C W m)"
proof (rule keepsI)
  fix tm r tm' assume g: "with_guard C W m tm = (r, tm')"
  obtain q sh where m: "m (tl_shared tm) = (q, sh)" by fastforce
  have rel: "ssk_rel C (sh_sk (tl_shared tm)) (sh_sk sh)" using keepsD [OF assms m] .
  show "tl_rel C W tm tm'"
    unfolding tl_rel_def
  proof
    assume "tl_inv C W tm"
    with rel have ok: "ssk_ok C (sh_sk sh)" "ssk_le C (sh_sk (tl_shared tm)) (sh_sk sh)"
      by (auto simp: tl_inv_def ssk_rel_def)
    obtain s l where p: "ssk_state (sh_sk sh) = Inr s" "ssk_flush_lsn C W (sh_sk sh) = Inr l"
      "ssk_last_log_term C W (sh_sk sh) = Inr (as_get_last_log_term (ps_acceptor_state (pers C s)) l)"
      using ssk_ok_positions [OF ok(1)] by blast
    with g m ok show "tl_inv C W tm' \<and> tl_le C tm tm'"
      by (auto simp: with_guard_def guard_drop_def Let_def tl_inv_def watch_current_def)
  qed
qed

lemma keeps_on_sk: "keeps (ssk_rel C) m \<Longrightarrow> keeps (sh_rel C) (on_sk m)"
  by (rule keepsI) (auto simp: on_sk_def split: prod.splits dest: keepsD)

lemma sh_rel_transp: "transp (sh_rel C)"
  using ssk_rel_transp [of C] by (auto simp: transp_def)

lemma keeps_cancelled: "keeps (tl_rel C W) m \<Longrightarrow> keeps (tl_rel C W) (abind check_cancelled (\<lambda>_. m))"
  by (rule keepsI) (auto simp: abind_def check_cancelled_def split: if_splits dest: keepsD)

inductive tl_step ::
  "cf_codec \<Rightarrow> 'w wal_storage \<Rightarrow> (file_storage, 'w, 's, 'h) timeline \<Rightarrow> (file_storage, 'w, 's, 'h) timeline \<Rightarrow> bool"
  for cc W where
  msg: "tl_process_msg (file_ctrl cc) W m tm = (r, tm') \<Longrightarrow> tl_step cc W tm tm'"
| peer: "tl_record_safekeeper_info (file_ctrl cc) W i now tm = (q, tm') \<Longrightarrow> tl_step cc W tm tm'"
| backup: "set_wal_backup_lsn (file_ctrl cc) W l tm = (q, tm') \<Longrightarrow> tl_step cc W tm tm'"
| remote: "update_remote_consistent_lsn (file_ctrl cc) W l tm = (q, tm') \<Longrightarrow> tl_step cc W tm tm'"
| bump: "tl_term_bump (file_ctrl cc) W to tm = (t, tm') \<Longrightarrow> tl_step cc W tm tm'"
| mswitch: "tl_membership_switch (file_ctrl cc) W mc tm = (u, tm') \<Longrightarrow> tl_step cc W tm tm'"
| offload: "switch_to_offloaded (file_ctrl cc) W p tm = (q, tm') \<Longrightarrow> tl_step cc W tm tm'"
| present: "switch_to_present (file_ctrl cc) W ow n tm = (q, tm') \<Longrightarrow> tl_step cc W tm tm'"

lemma keeps_sk_le: "keeps (sk_rel C G) m \<Longrightarrow> keeps (sk_le C) m"
  by (rule keepsI) (auto simp: sk_rel_def dest: keepsD)

lemma keeps_peer_update: "keeps (sh_rel C) (\<lambda>sh. (Inr (), sh\<lparr>sh_peers_info := f sh\<rparr>))"
  by (rule keepsI) auto

lemma keeps_sh_return: "keeps (sh_rel C) (areturn x)"
  by (rule keepsI) (auto simp: areturn_def)

lemma keeps_ssk_info: "keeps (ssk_rel (file_ctrl cc)) (ssk_record_safekeeper_info (file_ctrl cc) W i)"
proof -
  have "keeps (ssk_rel (file_ctrl cc)) (\<lambda>self. case self of
         Loaded sk \<Rightarrow> on_safekeeper (record_safekeeper_info (file_ctrl cc) W (ski_commit_lsn i) (ski_last_log_term i)) self
       | Evicted _ \<Rightarrow> (Inr (), self) | Empty_sk \<Rightarrow> (unreachable, self))"
    by (rule keepsI)
      (use keepsD [OF keeps_on_safekeeper [OF keeps_sk_le [OF disk.record_safekeeper_info_rel]]]
        in \<open>auto split: state_sk.splits simp del: on_safekeeper.simps\<close>)
  then show ?thesis
    unfolding ssk_record_safekeeper_info_def
    by (intro keeps_abind ssk_rel_transp keeps_on_ssk_state disk.keeps_record_positions)
qed

lemma tl_step_rel: "tl_step cc W tm tm' \<Longrightarrow> tl_rel (file_ctrl cc) W tm tm'"
proof (induction rule: tl_step.induct)
  case (msg m tm r tm')
  have k: "keeps (tl_rel (file_ctrl cc) W) (with_guard (file_ctrl cc) W
      (abind (on_sk (on_safekeeper (process_msg (file_ctrl cc) W m))) (\<lambda>x. areturn (f x))))" for f
    by (intro with_guard_rel keeps_abind sh_rel_transp keeps_on_sk keeps_on_safekeeper keeps_sh_return
        keeps_sk_le [OF disk.process_msg_rel])
  then show ?case
    using msg keepsD [OF k] by (auto simp: tl_process_msg_def abind_def [of check_cancelled] check_cancelled_def split: if_splits)
next
  case (peer i now tm q tm')
  have "keeps (tl_rel (file_ctrl cc) W) (tl_record_safekeeper_info (file_ctrl cc) W i now)"
    unfolding tl_record_safekeeper_info_def
    by (intro with_guard_rel keeps_abind sh_rel_transp keeps_on_sk keeps_ssk_info keeps_peer_update)
  from keepsD [OF this peer] show ?case .
next
  case (backup l tm q tm')
  have "keeps (tl_rel (file_ctrl cc) W) (set_wal_backup_lsn (file_ctrl cc) W l)"
    unfolding set_wal_backup_lsn_def
    by (intro keeps_cancelled with_guard_rel keeps_on_sk keeps_on_ssk_state keeps_set_inmem, simp_all)
  from keepsD [OF this backup] show ?case .
next
  case (remote l tm q tm')
  have "keeps (tl_rel (file_ctrl cc) W) (update_remote_consistent_lsn (file_ctrl cc) W l)"
    unfolding update_remote_consistent_lsn_def
    by (intro with_guard_rel keeps_on_sk keeps_on_ssk_state keeps_set_inmem, simp_all)
  from keepsD [OF this remote] show ?case .
next
  case (bump to tm t tm')
  have "keeps (tl_rel (file_ctrl cc) W) (tl_term_bump (file_ctrl cc) W to)"
    unfolding tl_term_bump_def ssk_term_bump_def
    by (intro with_guard_rel keeps_on_sk keeps_on_ssk_state disk.ts_le_on_state disk.term_bump_rel)
  from keepsD [OF this bump] show ?case .
next
  case (mswitch mc tm u tm')
  have "keeps (tl_rel (file_ctrl cc) W) (tl_membership_switch (file_ctrl cc) W mc)"
    unfolding tl_membership_switch_def ssk_membership_switch_def
    by (intro with_guard_rel keeps_on_sk keeps_on_ssk_state disk.ts_le_on_state disk.keeps_membership_switch)
  from keepsD [OF this mswitch] show ?case .
next
  case (offload p tm q tm')
  have "keeps (tl_rel (file_ctrl cc) W) (switch_to_offloaded (file_ctrl cc) W p)"
    unfolding switch_to_offloaded_def
    by (intro with_guard_rel keeps_on_sk disk.keeps_switch_to_offloaded)
  from keepsD [OF this offload] show ?case .
next
  case (present ow n tm q tm')
  have "keeps (tl_rel (file_ctrl cc) W) (switch_to_present (file_ctrl cc) W ow n)"
    unfolding switch_to_present_def
    by (intro with_guard_rel keeps_on_sk disk.keeps_switch_to_present)
  from keepsD [OF this present] show ?case .
qed

lemma tl_run_rel: "rtranclp (tl_step cc W) tm tm' \<Longrightarrow> tl_rel (file_ctrl cc) W tm tm'"
proof (induction rule: rtranclp_induct)
  case (step b c)
  then show ?case using tl_step_rel [OF step(2)] by (auto simp: tl_rel_def intro: ssk_le_trans)
qed simp


definition demo_timeline :: "(file_storage, phys_storage, nat, nat) timeline" where
  "demo_timeline = \<lparr>tl_shared = shared_state_new (Loaded demo_sk), tl_commit_lsn_watch = 4096,
     tl_term_flush_lsn_watch = TermLsn 1 4096, tl_state_version = 0, tl_walsenders = wss_new,
     tl_walreceivers = wrv_new, tl_cancelled = False\<rparr>"

lemma demo_timeline_inv: "tl_inv (file_ctrl cc) demo_wal demo_timeline"
  by (simp add: tl_inv_def ssk_ok_def demo_timeline_def shared_state_new_def demo_sk_def watch_current_def Let_def
      file_ctrl_def demo_store_def example_state_def id_zero_def phys_wal_def idle_storage_def ssk_last_log_term_def
      as_get_last_log_term_def mem_of_def numeral_eq_Suc)


text \<open>C14: Eviction loses no position. After a successful switch to the offloaded state the timeline
  reports the flush position and last log term it had; and when it is switched back, the storage that was
  restored has that flush position and the control state is the one from before the eviction.\<close>

theorem eviction_keeps_state:
  assumes ok: "ssk_ok (file_ctrl cc) (Loaded k)"
    and off: "switch_to_offloaded_sk (file_ctrl cc) W p (Loaded k) = (Inr (), sk1)"
  shows "(\<exists>s. sk1 = Evicted s) \<and> ssk_flush_lsn (file_ctrl cc) W sk1 = ssk_flush_lsn (file_ctrl cc) W (Loaded k) \<and>
    ssk_last_log_term (file_ctrl cc) W sk1 = ssk_last_log_term (file_ctrl cc) W (Loaded k) \<and>
    (\<forall>ow n sk2. switch_to_present_sk (file_ctrl cc) W ow n sk1 = (Inr (), sk2) \<longrightarrow>
       (\<exists>k'. sk2 = Loaded k' \<and> eff (file_ctrl cc) k' = eff (file_ctrl cc) k \<and>
         wl_flush_lsn W (sk_wal_store k') = wl_flush_lsn W (sk_wal_store k)))"
proof -
  let ?C = "file_ctrl cc" and ?l = "wl_flush_lsn W (sk_wal_store k)"
  have ev: "ps_eviction_state (eff ?C k) = Present" using ok by (simp add: ssk_ok_def)
  obtain s' where f: "finish_change ?C ((eff ?C k)\<lparr>ps_eviction_state := Offloaded ?l\<rparr>) (sk_state k) = (Inr (), s')"
    and sk1: "sk1 = Evicted s'"
    using off by (auto simp: switch_to_offloaded_sk_def Let_def monad_simps abind_def on_ssk_state_def
        split: if_splits sum.splits prod.splits)
  have s': "ps_eviction_state (pers ?C s') = Offloaded ?l" "resident ?C s' = resident ?C (sk_state k)"
    using disk.finish_switch(2) [OF ok _ f] by auto
  have a: "ps_acceptor_state (pers ?C s') = ps_acceptor_state (sk_pers ?C k)"
    using arg_cong [OF s'(2), of ps_acceptor_state] by simp
  have ok1: "ssk_ok ?C sk1"
    using keepsD [OF disk.keeps_switch_to_offloaded off] ok by (simp add: ssk_rel_def)
  have "\<exists>k'. sk2 = Loaded k' \<and> eff ?C k' = eff ?C k \<and> wl_flush_lsn W (sk_wal_store k') = ?l"
    if p: "switch_to_present_sk ?C W ow n sk1 = (Inr (), sk2)" for ow n and sk2 :: "(file_storage, 'a) state_sk"
  proof -
    obtain w s2 where g: "finish_change ?C ((start_change ?C s')\<lparr>ps_eviction_state := Present\<rparr>) s' = (Inr (), s2)"
      and w: "wl_flush_lsn W w = ?l" and n: "safekeeper_new ?C s2 w n = Inr (case sk2 of Loaded k' \<Rightarrow> k')" "\<exists>k'. sk2 = Loaded k'"
      using p s'(1) by (auto simp: sk1 switch_to_present_sk_def Let_def monad_simps abind_def on_ssk_state_def
          split: if_splits sum.splits prod.splits)
    have "start_change ?C s2 = resident ?C s'" using disk.finish_change_reads [OF g] by simp
    also have "\<dots> = eff ?C k" unfolding s'(2) using ev by simp
    finally show ?thesis using n w by (auto simp: safekeeper_new_def split: if_splits)
  qed
  then show ?thesis using sk1 s'(1) a by (auto simp: ssk_last_log_term_def)
qed

abbreviation offloaded_state :: timeline_persistent_state where
  "offloaded_state \<equiv> example_state\<lparr>ps_eviction_state := Offloaded 4096\<rparr>"

theorem eviction_keeps_state_witness:
  "\<exists>cc s. switch_to_offloaded_sk (file_ctrl cc) demo_wal \<lparr>prs_status = Uploaded, prs_name = ''partial'', prs_commit_lsn = 4096,
     prs_flush_lsn = 4096, prs_term = 1\<rparr> (Loaded demo_sk) = (Inr (), Evicted s) \<and>
     ssk_flush_lsn (file_ctrl cc) demo_wal (Evicted s) = Inr 4096"
proof -
  let ?cc = "vote_codec example_state offloaded_state"
  let ?p = "\<lparr>prs_status = Uploaded, prs_name = ''partial'', prs_commit_lsn = 4096, prs_flush_lsn = 4096, prs_term = 1\<rparr>"
  have ok: "ssk_ok (file_ctrl ?cc) (Loaded demo_sk)"
    using demo_timeline_inv [of ?cc] by (simp add: tl_inv_def demo_timeline_def shared_state_new_def)
  have ne: "offloaded_state \<noteq> example_state" by (simp add: example_state_def)
  obtain b where "write_to_buf ?cc offloaded_state = Inr b"
    using ne by (simp add: write_to_buf_def vote_codec_def Let_def)
      (simp add: example_state_def configuration_new_def INITIAL_GENERATION_def INVALID_GENERATION_def)
  then obtain st where p: "persist ?cc offloaded_state (demo_store example_state []) = (Inr (), st)"
    using demo_persist_ok by blast
  have e: "start_change (file_ctrl ?cc) (sk_state demo_sk) = example_state"
    by (simp add: start_change_def demo_sk_def file_ctrl_def demo_store_def mem_of_def)
  have v: "ps_eviction_state example_state = Present" "ps_commit_lsn example_state = 4096"
    "ssk_last_log_term (file_ctrl ?cc) demo_wal (Loaded demo_sk) = Inr 1" "wl_flush_lsn demo_wal (sk_wal_store demo_sk) = 4096"
    "ps_eviction_state (sk_pers (file_ctrl ?cc) demo_sk) = Present" "sk_commit demo_sk = 4096"
    by (simp_all add: demo_sk_def file_ctrl_def demo_store_def example_state_def phys_wal_def idle_storage_def
        ssk_last_log_term_def as_get_last_log_term_def mem_of_def)
  have f: "finish_change (file_ctrl ?cc) offloaded_state (sk_state demo_sk) =
      (Inr (), \<lparr>ts_inmem = mem_of offloaded_state, ts_pers = st\<rparr>)"
    using p ne by (simp add: finish_change_def demo_sk_def file_ctrl_def demo_store_def)
  have o: "\<exists>s. switch_to_offloaded_sk (file_ctrl ?cc) demo_wal ?p (Loaded demo_sk) = (Inr (), Evicted s)"
    by (simp add: switch_to_offloaded_sk_def Let_def v e abind_def on_ssk_state_def f)
  then obtain s where s: "switch_to_offloaded_sk (file_ctrl ?cc) demo_wal ?p (Loaded demo_sk) = (Inr (), Evicted s)" by blast
  from eviction_keeps_state [OF ok s] s v(4) show ?thesis by auto
qed

end
