(* ===== verification/WalLog.thy ===== *)
theory WalLog
  imports WalStorage
begin

text \<open>
  What \<open>PhysicalStorage\<close> stores. The segment files are read as one log of bytes, indexed by
  position (\<open>byte_at\<close>, with the order in which a reader looks for the files); a write in the
  absence of faults succeeds, puts the written bytes at their positions and keeps every other byte.
\<close>

subsection \<open>File contents without faults\<close>

definition file_of :: "fs \<Rightarrow> string \<Rightarrow> bytes option" where
  "file_of fs name = map_option (\<lambda>i. ino_data (inode_of fs i)) (map_of (fs_dir fs) name)"

definition fs_fine :: "fs \<Rightarrow> bool" where
  "fs_fine fs \<longleftrightarrow> fs_faults fs = [] \<and> fs_ok fs \<and>
     (\<forall>a b i. map_of (fs_dir fs) a = Some i \<longrightarrow> map_of (fs_dir fs) b = Some i \<longrightarrow> a = b)"

lemma fine_io [simp]: "fs_fine fs \<Longrightarrow> io m fs = m fs"
  by (simp add: io_def next_fault_def fs_fine_def)

lemma fine_next_fault [simp]: "fs_fine fs \<Longrightarrow> next_fault fs = (None, fs)"
  by (simp add: next_fault_def fs_fine_def)

lemma fine_range: "fs_fine fs \<Longrightarrow> map_of (fs_dir fs) n = Some i \<Longrightarrow> i < length (fs_inodes fs)"
  by (auto simp: fs_fine_def fs_ok_def)

lemma fine_open:
  "fs_fine fs \<Longrightarrow> map_of (fs_dir fs) n = Some i \<Longrightarrow> fs_open n fs = (Inr i, fs)"
  "fs_fine fs \<Longrightarrow> map_of (fs_dir fs) n = None \<Longrightarrow> fs_open n fs = (Inl (Io ''NotFound''), fs)"
  by (simp_all add: fs_open_def)

lemma inode_of_dir [simp]: "inode_of (fs\<lparr>fs_dir := d\<rparr>) = inode_of fs" "inode_of (fs\<lparr>fs_dir_synced := d\<rparr>) = inode_of fs"
  by (simp_all add: inode_of_def fun_eq_iff)

lemma fine_set_inode:
  assumes "fs_fine fs" "map_of (fs_dir fs) n = Some i"
  shows "fs_fine (set_inode i x fs)" "fs_dir (set_inode i x fs) = fs_dir fs"
    "file_of (set_inode i x fs) = (file_of fs)(n := Some (ino_data x))"
proof -
  show "fs_fine (set_inode i x fs)" "fs_dir (set_inode i x fs) = fs_dir fs"
    using assms(1) by (auto simp: fs_fine_def fs_ok_def set_inode_def)
  have u: "map_of (fs_dir fs) m = Some i \<Longrightarrow> m = n" for m
    using assms unfolding fs_fine_def by blast
  have v: "inode_of (set_inode i x fs) k = (if i = k then x else inode_of fs k)" for k
    by (rule inode_of_set_inode [OF fine_range [OF assms]])
  show "file_of (set_inode i x fs) = (file_of fs)(n := Some (ino_data x))"
  proof
    fix m
    show "file_of (set_inode i x fs) m = ((file_of fs)(n := Some (ino_data x))) m"
      using assms(2) u [of m]
      by (cases "map_of (fs_dir fs) m") (auto simp: file_of_def v set_inode_def [of i x fs, THEN arg_cong, of fs_dir])
  qed
qed

lemma fine_create:
  assumes "fs_fine fs"
  obtains i fs' where "fs_create n fs = (Inr i, fs')" "fs_fine fs'" "map_of (fs_dir fs') = (map_of (fs_dir fs))(n \<mapsto> i)"
    "file_of fs' = (file_of fs)(n := Some [])"
proof (cases "map_of (fs_dir fs) n")
  case (Some i)
  then show thesis
    using that [of i] fine_set_inode [OF assms Some] assms
    by (simp add: fs_create_def fun_upd_idem)
next
  case None
  let ?l = "length (fs_inodes fs)" and ?e = "\<lparr>ino_data = [], ino_synced = False\<rparr>"
  let ?fs = "fs\<lparr>fs_dir := AList.update n ?l (fs_dir fs), fs_inodes := fs_inodes fs @ [?e]\<rparr>"
  have r: "map_of (fs_dir fs) m = Some i \<Longrightarrow> i < ?l" for m i using fine_range [OF assms] .
  have s: "map_of (fs_dir_synced fs) m = Some i \<Longrightarrow> i < ?l" for m i
    using assms unfolding fs_fine_def fs_ok_def by blast
  have d: "map_of (fs_dir ?fs) = (map_of (fs_dir fs))(n \<mapsto> ?l)" by (simp add: update_conv')
  have "fs_ok ?fs" by (auto simp: fs_ok_def update_conv' less_Suc_eq split: if_splits dest: r s)
  moreover have "a = b" if "map_of (fs_dir ?fs) a = Some i" "map_of (fs_dir ?fs) b = Some i" for a b i
    using that r [of a] r [of b] assms unfolding d fs_fine_def by (auto split: if_splits)
  ultimately have "fs_fine ?fs" using assms by (simp add: fs_fine_def)
  moreover have "file_of ?fs = (file_of fs)(n := Some [])"
  proof
    fix m
    show "file_of ?fs m = ((file_of fs)(n := Some [])) m"
      using r [of m] by (cases "map_of (fs_dir fs) m") (auto simp: file_of_def update_conv' inode_of_def nth_append)
  qed
  ultimately show thesis using that [of ?l ?fs] assms None d by (simp add: fs_create_def)
qed

lemma fine_rename:
  assumes "fs_fine fs" "map_of (fs_dir fs) a = Some i" "a \<noteq> b"
  obtains fs' where "fs_rename a b fs = (Inr (), fs')" "fs_fine fs'"
    "map_of (fs_dir fs') = (map_of (fs_dir fs))(a := None, b \<mapsto> i)"
    "file_of fs' = (file_of fs)(a := None, b := file_of fs a)"
proof -
  let ?fs = "fs\<lparr>fs_dir := AList.update b i (AList.delete a (fs_dir fs))\<rparr>"
  have d: "map_of (fs_dir ?fs) = (map_of (fs_dir fs))(a := None, b \<mapsto> i)"
    by (simp add: update_conv' delete_conv')
  have "fs_ok ?fs" using assms(1,2) unfolding fs_fine_def fs_ok_def d by (auto split: if_splits)
  moreover have "\<forall>m k j. map_of (fs_dir ?fs) m = Some j \<longrightarrow> map_of (fs_dir ?fs) k = Some j \<longrightarrow> m = k"
    using assms unfolding d fs_fine_def by (auto split: if_splits)
  moreover have "fs_faults ?fs = []" using assms(1) by (simp add: fs_fine_def)
  ultimately have "fs_fine ?fs" unfolding fs_fine_def by blast
  moreover have "file_of ?fs m = ((file_of fs)(a := None, b := file_of fs a)) m" for m
    using assms(2,3) by (simp add: file_of_def update_conv' delete_conv')
  then have "file_of ?fs = (file_of fs)(a := None, b := file_of fs a)" by (rule ext)
  moreover have "fs_rename a b fs = (Inr (), ?fs)" using assms by (simp add: fs_rename_def)
  ultimately show thesis using that d by blast
qed

lemma fine_sync:
  assumes "fs_fine fs" "map_of (fs_dir fs) n = Some i"
  shows "\<exists>fs'. fs_sync i fs = (Inr (), fs') \<and> fs_fine fs' \<and> fs_dir fs' = fs_dir fs \<and> file_of fs' = file_of fs"
proof -
  let ?fs = "set_inode i ((inode_of fs i)\<lparr>ino_synced := True\<rparr>) fs"
  have "(file_of fs)(n := Some (ino_data (inode_of fs i))) = file_of fs"
    using assms(2) by (intro fun_upd_idem) (simp add: file_of_def)
  then show ?thesis using fine_set_inode [OF assms] assms(1) by (intro exI [of _ ?fs]) (simp add: fs_sync_def)
qed

lemma fine_fsync_file:
  assumes "fs_fine fs" "map_of (fs_dir fs) n = Some i"
  shows "\<exists>fs'. fsync_file b i fs = (Inr (), fs') \<and> fs_fine fs' \<and> fs_dir fs' = fs_dir fs \<and> file_of fs' = file_of fs"
  using fine_sync [OF assms] assms(1) by (cases b) (simp_all add: fsync_file_def areturn_def)

lemma fine_durable_rename:
  assumes "fs_fine fs" "map_of (fs_dir fs) a = Some i" "a \<noteq> b"
  obtains fs' where "durable_rename a b s fs = (Inr (), fs')" "fs_fine fs'"
    "map_of (fs_dir fs') = (map_of (fs_dir fs))(a := None, b \<mapsto> i)"
    "file_of fs' = (file_of fs)(a := None, b := file_of fs a)"
proof -
  obtain fs1 where 1: "fsync_opt a s fs = (Inr (), fs1)" "fs_fine fs1" "fs_dir fs1 = fs_dir fs" "file_of fs1 = file_of fs"
    using fine_sync [OF assms(1,2)] assms(1) fine_open(1) [OF assms(1,2)]
    by (cases s) (auto simp: fsync_opt_def areturn_def abind_def)
  obtain fs2 where 2: "fs_rename a b fs1 = (Inr (), fs2)" "fs_fine fs2"
    "map_of (fs_dir fs2) = (map_of (fs_dir fs1))(a := None, b \<mapsto> i)"
    "file_of fs2 = (file_of fs1)(a := None, b := file_of fs1 a)"
    using fine_rename [OF 1(2), of a i b] assms(2,3) 1(3) by auto
  let ?fs = "if s then fs2\<lparr>fs_dir_synced := fs_dir fs2\<rparr> else fs2"
  have "durable_rename a b s fs = (Inr (), ?fs)"
    using 1(1) 2(1,2) by (simp add: durable_rename_def abind_def fsync_dir_opt_def fs_sync_dir_def areturn_def)
  moreover have "fs_fine ?fs" "fs_dir ?fs = fs_dir fs2" "file_of ?fs = file_of fs2"
    using 2(2) by (auto simp: fs_fine_def fs_ok_def file_of_def fun_eq_iff)
  ultimately show thesis using that 1 2 by simp
qed

subsection \<open>The names of the segments\<close>

text \<open>The file of the segment of a position, complete and partial.\<close>

definition seg_path :: "u64 \<Rightarrow> lsn \<Rightarrow> string" where
  "seg_path sz l = (case XLogFileName PG_TLI (segment_number l sz) sz of Inr n \<Rightarrow> n | Inl _ \<Rightarrow> [])"

definition seg_partial :: "u64 \<Rightarrow> lsn \<Rightarrow> string" where
  "seg_partial sz l = seg_path sz l @ ''.partial''"

definition seg_size_ok :: "u64 \<Rightarrow> bool" where
  "seg_size_ok sz \<longleftrightarrow> sz \<noteq> 0 \<and> unat sz dvd 2 ^ 32"

lemma seg_path_props:
  assumes "seg_size_ok sz"
  shows "XLogFileName PG_TLI (segment_number l sz) sz = Inr (seg_path sz l)" "length (seg_path sz l) = 24"
    "XLogFromFileName (seg_path sz l) sz = Inr (segment_number l sz, PG_TLI)"
    "IsXLogFileName (seg_path sz l)" "IsPartialXLogFileName (seg_partial sz l)"
    "XLogFromFileName (seg_partial sz l) sz = Inr (segment_number l sz, PG_TLI)"
  using segment_name_parts [of sz PG_TLI l] assms
  by (auto simp: seg_size_ok_def seg_path_def seg_partial_def IsXLogFileName_def XLOG_FNAME_LEN_def)

lemma seg_paths [simp]:
  "seg_size_ok sz \<Longrightarrow> wal_file_paths (segment_number l sz) sz = Inr (seg_path sz l, seg_partial sz l)"
  by (simp add: wal_file_paths_def seg_path_props seg_partial_def)

lemma seg_names_distinct:
  assumes "seg_size_ok sz"
  shows "seg_path sz l \<noteq> seg_partial sz l'" "seg_partial sz l \<noteq> seg_path sz l'"
    "''waltmp'' \<noteq> seg_path sz l" "''waltmp'' \<noteq> seg_partial sz l"
    "seg_path sz l = seg_path sz l' \<longleftrightarrow> segment_number l sz = segment_number l' sz"
    "seg_partial sz l = seg_partial sz l' \<longleftrightarrow> segment_number l sz = segment_number l' sz"
proof -
  note L = seg_path_props(2) [OF assms]
  show "seg_path sz l \<noteq> seg_partial sz l'" "seg_partial sz l \<noteq> seg_path sz l'"
    "''waltmp'' \<noteq> seg_path sz l" "''waltmp'' \<noteq> seg_partial sz l"
    using L [of l] L [of l'] by (auto simp: seg_partial_def dest: arg_cong [of _ _ length])
  show "seg_path sz l = seg_path sz l' \<longleftrightarrow> segment_number l sz = segment_number l' sz"
  proof
    assume "seg_path sz l = seg_path sz l'"
    then have "Inr (segment_number l sz, PG_TLI) = (Inr (segment_number l' sz, PG_TLI) :: (seg_no \<times> u32) res)"
      unfolding seg_path_props(3) [OF assms, symmetric] by (rule arg_cong)
    then show "segment_number l sz = segment_number l' sz" by simp
  qed (simp add: seg_path_def)
  then show "seg_partial sz l = seg_partial sz l' \<longleftrightarrow> segment_number l sz = segment_number l' sz"
    by (simp add: seg_partial_def)
qed

subsection \<open>Opening the segment of a position\<close>

text \<open>The files after the partial segment of \<open>l\<close> has been opened or created.\<close>

definition opened :: "u64 \<Rightarrow> lsn \<Rightarrow> (string \<Rightarrow> bytes option) \<Rightarrow> string \<Rightarrow> bytes option" where
  "opened sz l F = (if F (seg_partial sz l) = None
     then F(''waltmp'' := None, seg_partial sz l := Some (replicate (unat sz) 0)) else F)"

lemma file_of_None: "file_of fs n = None \<longleftrightarrow> map_of (fs_dir fs) n = None"
  by (simp add: file_of_def)

lemma fine_create_segment:
  assumes "fs_fine fs" "n \<noteq> ''waltmp''"
  shows "\<exists>i fs'. create_segment b sz n fs = (Inr (i, True), fs') \<and> fs_fine fs' \<and> map_of (fs_dir fs') n = Some i \<and>
    file_of fs' = (file_of fs)(''waltmp'' := None, n := Some (replicate (unat sz) 0))"
proof -
  obtain i fs1 where 1: "fs_create ''waltmp'' fs = (Inr i, fs1)" "fs_fine fs1"
    "map_of (fs_dir fs1) = (map_of (fs_dir fs))(''waltmp'' \<mapsto> i)" "file_of fs1 = (file_of fs)(''waltmp'' := Some [])"
    by (rule fine_create [OF assms(1)])
  have t: "map_of (fs_dir fs1) ''waltmp'' = Some i" by (simp add: 1)
  then have d: "ino_data (inode_of fs1 i) = []" using 1(4) by (simp add: file_of_def fun_eq_iff) (metis option.inject option.map(2))
  let ?x = "\<lparr>ino_data = replicate (unat sz) (0 :: u8), ino_synced = False\<rparr>"
  have 2: "fs_set_len i (unat sz) fs1 = (Inr (), set_inode i ?x fs1)"
    using 1(2) by (simp add: fs_set_len_def put_data_def d pad_to_def)
  note si = fine_set_inode [OF 1(2) t, of ?x]
  obtain fs3 where 3: "durable_rename ''waltmp'' n (\<not> b) (set_inode i ?x fs1) = (Inr (), fs3)" "fs_fine fs3"
    "map_of (fs_dir fs3) = (map_of (fs_dir (set_inode i ?x fs1)))(''waltmp'' := None, n \<mapsto> i)"
    "file_of fs3 = (file_of (set_inode i ?x fs1))(''waltmp'' := None, n := file_of (set_inode i ?x fs1) ''waltmp'')"
    using fine_durable_rename [OF si(1), of "''waltmp''" i n "\<not> b"] t si(2) assms(2) by metis
  have "create_segment b sz n fs = (Inr (i, True), fs3)"
    using 1(1) 2 3(1) by (simp add: create_segment_def abind_def)
  moreover have "file_of fs3 = (file_of fs)(''waltmp'' := None, n := Some (replicate (unat sz) 0))"
    using assms(2) by (simp add: 3(4) si(3) 1(4) fun_eq_iff)
  ultimately show ?thesis using 3(2,3) by (intro exI [of _ i] exI [of _ fs3]) simp
qed

lemma fine_open_or_create:
  assumes "fs_fine fs" "seg_size_ok sz" "file_of fs (seg_path sz l) = None"
  shows "\<exists>i fs'. open_or_create b sz (segment_number l sz) fs = (Inr (i, True), fs') \<and> fs_fine fs' \<and>
    map_of (fs_dir fs') (seg_partial sz l) = Some i \<and> file_of fs' = opened sz l (file_of fs)"
proof (cases "map_of (fs_dir fs) (seg_partial sz l)")
  case (Some i)
  then have "file_of fs (seg_partial sz l) \<noteq> None" by (simp add: file_of_def)
  with Some assms show ?thesis
    by (intro exI [of _ i] exI [of _ fs])
      (simp add: open_or_create_def abind_def lift_res_def fine_open file_of_None opened_def)
next
  case None
  have ne: "seg_partial sz l \<noteq> ''waltmp''" using seg_names_distinct(4) [OF assms(2)] by metis
  from fine_create_segment [OF assms(1) ne] None assms show ?thesis
    by (auto simp: open_or_create_def abind_def lift_res_def fine_open file_of_None opened_def)
qed

subsection \<open>The log\<close>

text \<open>The byte at a position, looked up as \<open>open_wal_file\<close> does: first the partial file of the
  segment, then the complete one.\<close>

definition nth_byte :: "bytes \<Rightarrow> nat \<Rightarrow> u8 option" where
  "nth_byte d k = (if k < length d then Some (d ! k) else None)"

definition log_byte :: "u64 \<Rightarrow> (string \<Rightarrow> bytes option) \<Rightarrow> lsn \<Rightarrow> u8 option" where
  "log_byte sz F l = (case F (seg_partial sz l) of
     Some d \<Rightarrow> nth_byte d (unat (segment_offset l sz))
   | None \<Rightarrow> (case F (seg_path sz l) of
       Some d \<Rightarrow> nth_byte d (unat (segment_offset l sz))
     | None \<Rightarrow> None))"

abbreviation byte_at :: "phys_storage \<Rightarrow> lsn \<Rightarrow> u8 option" where
  "byte_at st \<equiv> log_byte (ph_wal_seg_size st) (file_of (ph_fs st))"

text \<open>The state of a storage that is ready to write: no complete segment at or after the write
  position, partial segments of full size, and the open file is the partial segment of the write
  position with the cursor there.\<close>

definition log_ok :: "phys_storage \<Rightarrow> bool" where
  "log_ok st \<longleftrightarrow> seg_size_ok (ph_wal_seg_size st) \<and> fs_fine (ph_fs st) \<and>
     (\<forall>l \<ge> ph_write_lsn st. file_of (ph_fs st) (seg_path (ph_wal_seg_size st) l) = None) \<and>
     (\<forall>l d. file_of (ph_fs st) (seg_partial (ph_wal_seg_size st) l) = Some d \<longrightarrow> length d = unat (ph_wal_seg_size st)) \<and>
     (\<forall>i pos. ph_file st = Some (i, pos) \<longrightarrow>
        map_of (fs_dir (ph_fs st)) (seg_partial (ph_wal_seg_size st) (ph_write_lsn st)) = Some i \<and>
        pos = unat (segment_offset (ph_write_lsn st) (ph_wal_seg_size st)))"

text \<open>The files after a piece has been written into the segment of \<open>l\<close>.\<close>

definition new_data :: "u64 \<Rightarrow> lsn \<Rightarrow> bytes \<Rightarrow> (string \<Rightarrow> bytes option) \<Rightarrow> bytes" where
  "new_data sz l buf F = write_at (unat (segment_offset l sz)) buf
     (case F (seg_partial sz l) of Some d \<Rightarrow> d | None \<Rightarrow> replicate (unat sz) 0)"

definition wrote :: "u64 \<Rightarrow> lsn \<Rightarrow> bytes \<Rightarrow> (string \<Rightarrow> bytes option) \<Rightarrow> string \<Rightarrow> bytes option" where
  "wrote sz l buf F = (if unat (segment_offset l sz) + length buf = unat sz
     then (opened sz l F)(seg_partial sz l := None, seg_path sz l := Some (new_data sz l buf F))
     else (opened sz l F)(seg_partial sz l := Some (new_data sz l buf F)))"

lemma opened_partial: "opened sz l F (seg_partial sz l) =
    Some (case F (seg_partial sz l) of Some d \<Rightarrow> d | None \<Rightarrow> replicate (unat sz) 0)"
  by (auto simp: opened_def)

lemma write_at_props:
  assumes "off + length buf \<le> length d"
  shows "length (write_at off buf d) = length d"
    "k < length d \<Longrightarrow> write_at off buf d ! k = (if off \<le> k \<and> k < off + length buf then buf ! (k - off) else d ! k)"
  using assms by (auto simp: write_at_def pad_to_def nth_append min_def)

lemma fine_write_to_file:
  assumes "fs_fine fs" "seg_size_ok sz" "map_of (fs_dir fs) (seg_partial sz l) = Some i"
    and "file_of fs = opened sz l F" "unat (segment_offset l sz) = off"
  shows "\<exists>fs'. write_to_file b sz (segment_number l sz) off buf (i, off) fs = (Inr (off + length buf = unat sz), fs') \<and>
    fs_fine fs' \<and> file_of fs' = wrote sz l buf F \<and>
    (off + length buf \<noteq> unat sz \<longrightarrow> map_of (fs_dir fs') (seg_partial sz l) = Some i)"
proof -
  let ?x = "\<lparr>ino_data = new_data sz l buf F, ino_synced = False\<rparr>"
  have "ino_data (inode_of fs i) = (case F (seg_partial sz l) of Some d \<Rightarrow> d | None \<Rightarrow> replicate (unat sz) 0)"
    using assms(3,4) opened_partial [of sz l F] by (metis file_of_def option.inject option.map(2))
  then have w: "fs_write_all i off buf fs = (Inr (), set_inode i ?x fs)"
    using assms(1,5) by (simp add: fs_write_all_def put_data_def new_data_def)
  note si = fine_set_inode [OF assms(1,3), of ?x]
  have fl: "fs_flush i (set_inode i ?x fs) = (Inr (), set_inode i ?x fs)" using si(1) by (simp add: fs_flush_def)
  show ?thesis
  proof (cases "off + length buf = unat sz")
    case False
    then show ?thesis
      using w fl si assms(3,4,5)
      by (intro exI [of _ "set_inode i ?x fs"]) (simp add: write_to_file_def abind_def areturn_def wrote_def)
  next
    case True
    have d: "map_of (fs_dir (set_inode i ?x fs)) (seg_partial sz l) = Some i" using si(2) assms(3) by simp
    obtain fs2 where 2: "fsync_file b i (set_inode i ?x fs) = (Inr (), fs2)" "fs_fine fs2"
      "fs_dir fs2 = fs_dir (set_inode i ?x fs)" "file_of fs2 = file_of (set_inode i ?x fs)"
      using fine_fsync_file [OF si(1) d] by blast
    obtain fs3 where 3: "fs_rename (seg_partial sz l) (seg_path sz l) fs2 = (Inr (), fs3)" "fs_fine fs3"
      "file_of fs3 = (file_of fs2)(seg_partial sz l := None, seg_path sz l := file_of fs2 (seg_partial sz l))"
      using fine_rename [OF 2(2), of "seg_partial sz l" i "seg_path sz l"] d 2(3) seg_names_distinct(2) [OF assms(2)] by metis
    have "file_of fs3 = wrote sz l buf F"
      using True assms(4,5) by (simp add: 3(3) 2(4) si(3) wrote_def fun_eq_iff)
    then show ?thesis
      using w fl 2(1) 3(1,2) True assms(2)
      by (intro exI [of _ fs3]) (simp add: write_to_file_def abind_def areturn_def lift_res_def)
  qed
qed

lemma fine_write_in_segment:
  assumes "log_ok st" "ph_wal_seg_size st = sz" "ph_write_lsn st = l" "unat (segment_offset l sz) = off"
  shows "\<exists>st'. write_in_segment (segment_number l sz) off buf st = (Inr (off + length buf = unat sz), st') \<and>
    fs_fine (ph_fs st') \<and> file_of (ph_fs st') = wrote sz l buf (file_of (ph_fs st)) \<and>
    (if off + length buf = unat sz then ph_file st' = None
     else \<exists>i. ph_file st' = Some (i, off + length buf) \<and> map_of (fs_dir (ph_fs st')) (seg_partial sz l) = Some i)"
proof -
  have ok: "seg_size_ok sz" "fs_fine (ph_fs st)" "file_of (ph_fs st) (seg_path sz l) = None"
    using assms by (auto simp: log_ok_def)
  define op where "op = (\<lambda>self. case ph_file self of Some f \<Rightarrow> (Inr f, self\<lparr>ph_file := None\<rparr>)
      | None \<Rightarrow> on_fs (open_for_write (ph_no_sync st) sz (segment_number l sz) off) self)"
  have "\<exists>i fs1. op st = (Inr (i, off), st\<lparr>ph_file := None, ph_fs := fs1\<rparr>) \<and> fs_fine fs1 \<and>
      map_of (fs_dir fs1) (seg_partial sz l) = Some i \<and> file_of fs1 = opened sz l (file_of (ph_fs st))"
  proof (cases "ph_file st")
    case (Some f)
    then obtain i where f: "f = (i, off)" "map_of (fs_dir (ph_fs st)) (seg_partial sz l) = Some i"
      using assms by (cases f) (auto simp: log_ok_def)
    then have "opened sz l (file_of (ph_fs st)) = file_of (ph_fs st)" by (simp add: opened_def file_of_def)
    then show ?thesis using Some f ok by (intro exI [of _ i] exI [of _ "ph_fs st"]) (simp add: op_def)
  next
    case None
    obtain i fs1 where "open_or_create (ph_no_sync st) sz (segment_number l sz) (ph_fs st) = (Inr (i, True), fs1)"
      "fs_fine fs1" "map_of (fs_dir fs1) (seg_partial sz l) = Some i" "file_of fs1 = opened sz l (file_of (ph_fs st))"
      using fine_open_or_create [OF ok(2,1,3)] by blast
    then show ?thesis using None
      by (intro exI [of _ i] exI [of _ fs1]) (simp add: op_def on_fs_def open_for_write_def abind_def fs_seek_def)
  qed
  then obtain i fs1 where 1: "op st = (Inr (i, off), st\<lparr>ph_file := None, ph_fs := fs1\<rparr>)" "fs_fine fs1"
      "map_of (fs_dir fs1) (seg_partial sz l) = Some i" "file_of fs1 = opened sz l (file_of (ph_fs st))" by blast
  from fine_write_to_file [OF 1(2) ok(1) 1(3,4) assms(4), of "ph_no_sync st" buf]
  obtain fs2 where 2: "write_to_file (ph_no_sync st) sz (segment_number l sz) off buf (i, off) fs1 =
      (Inr (off + length buf = unat sz), fs2)" "fs_fine fs2" "file_of fs2 = wrote sz l buf (file_of (ph_fs st))"
    "off + length buf \<noteq> unat sz \<longrightarrow> map_of (fs_dir fs2) (seg_partial sz l) = Some i" by blast
  show ?thesis
    unfolding write_in_segment_def Let_def assms(2) op_def [symmetric]
    using 1(1) 2 by (simp add: abind_def on_fs_def)
qed

text \<open>Bytes after a piece was written.\<close>

lemma wrote_byte:
  assumes "seg_size_ok sz" "\<And>d. F (seg_partial sz l) = Some d \<Longrightarrow> length d = unat sz" "F (seg_path sz l) = None"
    and "unat (segment_offset l sz) + length buf \<le> unat sz" "segment_number k sz = segment_number l sz"
  shows "log_byte sz (wrote sz l buf F) k = Some (if segment_offset l sz \<le> segment_offset k sz \<and>
      unat (segment_offset k sz) < unat (segment_offset l sz) + length buf
      then buf ! (unat (segment_offset k sz) - unat (segment_offset l sz))
      else (case log_byte sz F k of Some b \<Rightarrow> b | None \<Rightarrow> 0))"
proof -
  let ?ok = "unat (segment_offset k sz)" and ?ol = "unat (segment_offset l sz)"
  let ?d = "case F (seg_partial sz l) of Some d \<Rightarrow> d | None \<Rightarrow> replicate (unat sz) 0"
  have n: "seg_partial sz k = seg_partial sz l" "seg_path sz k = seg_path sz l"
    using seg_names_distinct(5,6) [OF assms(1), of k l] assms(5) by simp_all
  have len: "length ?d = unat sz" using assms(2) by (simp split: option.splits)
  have k: "?ok < unat sz" using segment_offset_less assms(1) by (simp add: seg_size_ok_def)
  have "log_byte sz (wrote sz l buf F) k = nth_byte (new_data sz l buf F) ?ok"
    using seg_names_distinct(1) [OF assms(1), of l l] by (simp add: log_byte_def wrote_def n)
  also have "\<dots> = Some (write_at ?ol buf ?d ! ?ok)"
    using write_at_props(1) [of ?ol buf ?d] len k assms(4) by (simp add: nth_byte_def new_data_def)
  also have "write_at ?ol buf ?d ! ?ok = (if ?ol \<le> ?ok \<and> ?ok < ?ol + length buf then buf ! (?ok - ?ol) else ?d ! ?ok)"
    using write_at_props(2) [of ?ol buf ?d ?ok] len k assms(4) by simp
  also have "?d ! ?ok = (case log_byte sz F k of Some b \<Rightarrow> b | None \<Rightarrow> 0)"
    using len k assms(3) by (simp add: log_byte_def n nth_byte_def split: option.splits)
  finally show ?thesis by (simp add: word_le_nat_alt)
qed

lemma wrote_other:
  assumes "seg_size_ok sz" "segment_number k sz \<noteq> segment_number l sz"
  shows "log_byte sz (wrote sz l buf F) k = log_byte sz F k"
    "wrote sz l buf F (seg_path sz k) = F (seg_path sz k)" "wrote sz l buf F (seg_partial sz k) = F (seg_partial sz k)"
proof -
  note D = seg_names_distinct [OF assms(1)]
  have e: "wrote sz l buf F (seg_path sz k) = F (seg_path sz k)" "wrote sz l buf F (seg_partial sz k) = F (seg_partial sz k)"
    using D(1) [of k l] D(2) [of k l] D(3,4) [of k] D(5,6) [of k l] assms(2)
    by (auto simp: wrote_def opened_def)
  show "log_byte sz (wrote sz l buf F) k = log_byte sz F k" unfolding log_byte_def e by (rule refl)
  show "wrote sz l buf F (seg_path sz k) = F (seg_path sz k)" "wrote sz l buf F (seg_partial sz k) = F (seg_partial sz k)"
    by (rule e)+
qed

lemma wrote_partial_len:
  assumes "seg_size_ok sz" "\<And>d k. F (seg_partial sz k) = Some d \<Longrightarrow> length d = unat sz"
    "unat (segment_offset l sz) + length buf \<le> unat sz" "wrote sz l buf F (seg_partial sz k) = Some d"
  shows "length d = unat sz"
proof (cases "segment_number k sz = segment_number l sz")
  case True
  then have n: "seg_partial sz k = seg_partial sz l" using seg_names_distinct(6) [OF assms(1)] by simp
  have "length (new_data sz l buf F) = unat sz"
    unfolding new_data_def using assms(2,3) by (subst write_at_props) (auto split: option.splits)
  then show ?thesis
    using assms(4) seg_names_distinct(1,2) [OF assms(1)] unfolding n wrote_def by (auto split: if_splits)
next
  case False
  then show ?thesis using wrote_other(3) [OF assms(1) False] assms(2,4) by metis
qed

text \<open>Moving on within a segment or to the next one.\<close>

lemma segment_step:
  assumes "unat l' = unat l + n" "s \<noteq> 0" "unat (segment_offset l s) + n \<le> unat s"
  shows "unat (segment_offset l s) + n < unat s \<Longrightarrow> segment_number l' s = segment_number l s"
    "unat (segment_offset l s) + n < unat s \<Longrightarrow> unat (segment_offset l' s) = unat (segment_offset l s) + n"
    "unat (segment_offset l s) + n = unat s \<Longrightarrow> l' \<le> k \<Longrightarrow> segment_number k s \<noteq> segment_number l s"
proof -
  let ?s = "unat s" and ?o = "unat l mod unat s"
  have s: "0 < ?s" using assms(2) by (simp add: unat_gt_0)
  have l: "unat l = ?s * (unat l div ?s) + ?o" by simp
  assume "unat (segment_offset l s) + n < unat s"
  then have o: "?o + n < ?s" by (simp add: lsn_simps)
  have "(unat l + n) div ?s = unat l div ?s" "(unat l + n) mod ?s = ?o + n"
    using o by (subst l, simp only: add.assoc div_mult_self4 mod_mult_self4, simp)+
  then show "segment_number l' s = segment_number l s" "unat (segment_offset l' s) = unat (segment_offset l s) + n"
    using assms(1) by (simp_all add: lsn_simps word_unat_eq_iff)
next
  let ?s = "unat s" and ?o = "unat l mod unat s"
  assume "unat (segment_offset l s) + n = unat s" "l' \<le> k"
  then have "unat l + n = ?s * (unat l div ?s) + ?s" "unat l + n \<le> unat k"
    using assms(1) by (simp_all add: lsn_simps word_le_nat_alt) (metis add.assoc mult_div_mod_eq)
  then have "Suc (unat l div ?s) * ?s \<le> unat k" by (simp add: mult.commute)
  moreover have "0 < ?s" using assms(2) by (simp add: unat_gt_0)
  ultimately have "Suc (unat l div ?s) \<le> unat k div ?s" by (simp only: less_eq_div_iff_mult_less_eq)
  then show "segment_number k s \<noteq> segment_number l s" by (auto simp: lsn_simps word_unat_eq_iff)
qed

lemma offset_in_segment:
  assumes "segment_number k s = segment_number l s"
  shows "unat (segment_offset l s) \<le> unat (segment_offset k s) \<longleftrightarrow> unat l \<le> unat k"
    "unat (segment_offset k s) < unat (segment_offset l s) + n \<longleftrightarrow> unat k < unat l + n"
    "unat (segment_offset k s) - unat (segment_offset l s) = unat k - unat l"
proof -
  have "unat k div unat s = unat l div unat s" using assms by (metis unat_segment_number)
  then have "unat k = unat s * (unat l div unat s) + unat k mod unat s"
    "unat l = unat s * (unat l div unat s) + unat l mod unat s" by (metis mult_div_mod_eq)+
  then show "unat (segment_offset l s) \<le> unat (segment_offset k s) \<longleftrightarrow> unat l \<le> unat k"
    "unat (segment_offset k s) < unat (segment_offset l s) + n \<longleftrightarrow> unat k < unat l + n"
    "unat (segment_offset k s) - unat (segment_offset l s) = unat k - unat l"
    unfolding unat_segment_offset by linarith+
qed

text \<open>The bytes of \<open>buf\<close> are at \<open>l\<close> and on, and everything that was there is still there.\<close>

definition holds_at :: "lsn \<Rightarrow> bytes \<Rightarrow> (lsn \<Rightarrow> u8 option) \<Rightarrow> (lsn \<Rightarrow> u8 option) \<Rightarrow> bool" where
  "holds_at l buf b b' \<longleftrightarrow> (\<forall>k. if unat l \<le> unat k \<and> unat k < unat l + length buf
     then b' k = Some (buf ! (unat k - unat l)) else b k = None \<or> b' k = b k)"

lemma holds_at_trans:
  assumes "holds_at l (take n buf) b b1" "holds_at l1 (drop n buf) b1 b2" "unat l1 = unat l + n" "n \<le> length buf"
  shows "holds_at l buf b b2"
  unfolding holds_at_def
proof
  fix k :: lsn
  let ?in1 = "unat l \<le> unat k \<and> unat k < unat l + n" and ?in2 = "unat l + n \<le> unat k \<and> unat k < unat l + length buf"
  have 1: "if ?in1 then b1 k = Some (buf ! (unat k - unat l)) else b k = None \<or> b1 k = b k"
    using assms(1,4) unfolding holds_at_def by (auto dest: spec [of _ k] split: if_splits)
  have 2: "if ?in2 then b2 k = Some (buf ! (unat k - unat l)) else b1 k = None \<or> b2 k = b1 k"
    using assms(2,3,4) unfolding holds_at_def by (auto dest: spec [of _ k] split: if_splits)
  show "if unat l \<le> unat k \<and> unat k < unat l + length buf then b2 k = Some (buf ! (unat k - unat l))
      else b k = None \<or> b2 k = b k"
    using 1 2 assms(4) by (cases ?in1; cases ?in2) auto
qed

lemma wrote_holds:
  assumes "log_ok st" "ph_wal_seg_size st = sz" "ph_write_lsn st = l" "unat (segment_offset l sz) + length buf \<le> unat sz"
  shows "holds_at l buf (byte_at st) (log_byte sz (wrote sz l buf (file_of (ph_fs st))))"
proof -
  have ok: "seg_size_ok sz" "file_of (ph_fs st) (seg_path sz l) = None"
    "\<And>d. file_of (ph_fs st) (seg_partial sz l) = Some d \<Longrightarrow> length d = unat sz"
    using assms by (auto simp: log_ok_def)
  show ?thesis
    unfolding holds_at_def
  proof
    fix k
    show "if unat l \<le> unat k \<and> unat k < unat l + length buf
      then log_byte sz (wrote sz l buf (file_of (ph_fs st))) k = Some (buf ! (unat k - unat l))
      else byte_at st k = None \<or> log_byte sz (wrote sz l buf (file_of (ph_fs st))) k = byte_at st k"
    proof (cases "segment_number k sz = segment_number l sz")
      case True
      have "log_byte sz (wrote sz l buf (file_of (ph_fs st))) k = Some (if unat l \<le> unat k \<and> unat k < unat l + length buf
          then buf ! (unat k - unat l) else (case byte_at st k of Some b \<Rightarrow> b | None \<Rightarrow> 0))"
        using wrote_byte [of sz "file_of (ph_fs st)" l buf k] ok assms(2,4) True
        by (simp only: word_le_nat_alt offset_in_segment [OF True])
      then show ?thesis by (auto split: option.splits)
    next
      case False
      have "\<not> (unat l \<le> unat k \<and> unat k < unat l + length buf)"
      proof
        assume a: "unat l \<le> unat k \<and> unat k < unat l + length buf"
        define n where "n = unat k - unat l"
        have "unat k = unat l + n" "unat (segment_offset l sz) + n < unat sz" using a assms(4) by (auto simp: n_def)
        with segment_step(1) [of k l n sz] False ok(1) show False by (simp add: seg_size_ok_def)
      qed
      moreover have "log_byte sz (wrote sz l buf (file_of (ph_fs st))) k = byte_at st k"
        using wrote_other(1) [OF ok(1) False] assms(2) by simp
      ultimately show ?thesis by (simp only: if_False simp_thms)
    qed
  qed
qed

lemma log_ok_advance:
  assumes ok: "log_ok st" "ph_wal_seg_size st = sz" "ph_write_lsn st = l" and l': "unat l' = unat l + length buf"
    and fit: "unat (segment_offset l sz) + length buf \<le> unat sz"
    and st': "fs_fine (ph_fs st')" "file_of (ph_fs st') = wrote sz l buf (file_of (ph_fs st))" "ph_wal_seg_size st' = sz"
    and fh: "if unat (segment_offset l sz) + length buf = unat sz then ph_file st' = None
      else \<exists>i. ph_file st' = Some (i, unat (segment_offset l sz) + length buf) \<and>
        map_of (fs_dir (ph_fs st')) (seg_partial sz l) = Some i"
  shows "log_ok (advance f l' st')"
proof -
  have o: "seg_size_ok sz" "\<forall>k \<ge> l. file_of (ph_fs st) (seg_path sz k) = None"
    "\<And>d k. file_of (ph_fs st) (seg_partial sz k) = Some d \<Longrightarrow> length d = unat sz"
    using ok by (auto simp: log_ok_def)
  have s0: "sz \<noteq> 0" using o(1) by (simp add: seg_size_ok_def)
  have ge: "l \<le> l'" using l' by (simp add: word_le_nat_alt)
  note st = segment_step [OF l' s0 fit]
  have none: "file_of (ph_fs st') (seg_path sz k) = None" if "l' \<le> k" for k
  proof (cases "segment_number k sz = segment_number l sz")
    case False
    then show ?thesis using wrote_other(2) [OF o(1) False] o(2) ge that unfolding st'(2) by (metis order.trans)
  next
    case True
    then have n: "unat (segment_offset l sz) + length buf \<noteq> unat sz" using st(3) that by blast
    have "seg_path sz k = seg_path sz l" using seg_names_distinct(5) [OF o(1)] True by simp
    then show ?thesis
      using n o(2) seg_names_distinct(1) [OF o(1), of l l] seg_names_distinct(3) [OF o(1), of l]
      unfolding st'(2) wrote_def opened_def by auto
  qed
  have fl: "map_of (fs_dir (ph_fs st')) (seg_partial sz l') = Some i \<and> pos = unat (segment_offset l' sz)"
    if "ph_file st' = Some (i, pos)" for i pos
  proof -
    have n: "unat (segment_offset l sz) + length buf < unat sz" using fh fit that by (auto split: if_splits)
    then have "seg_partial sz l' = seg_partial sz l" using st(1) seg_names_distinct(6) [OF o(1)] by simp
    with n fh that st(2) show ?thesis by auto
  qed
  show ?thesis
    unfolding log_ok_def advance_simps st'(3)
    using o(1) st'(1) none fl wrote_partial_len [OF o(1,3) fit] by (auto simp: st'(2))
qed

lemma write_loop_fine:
  "log_ok st \<Longrightarrow> unat (ph_write_lsn st) + length buf < 2 ^ 64 \<Longrightarrow>
   \<exists>st'. write_loop buf st = (Inr (), st') \<and> log_ok st' \<and> ph_wal_seg_size st' = ph_wal_seg_size st \<and>
     holds_at (ph_write_lsn st) buf (byte_at st) (byte_at st')"
proof (induction "length buf" arbitrary: buf st rule: less_induct)
  case less
  let ?sz = "ph_wal_seg_size st" and ?l = "ph_write_lsn st" and ?n = "chunk buf st"
  have s0: "?sz \<noteq> 0" using less.prems(1) by (simp add: log_ok_def seg_size_ok_def)
  show ?case
  proof (cases "buf = []")
    case True
    then show ?thesis
      using less.prems by (intro exI [of _ st]) (auto simp: write_loop.simps holds_at_def)
  next
    case False
    note cb = chunk_bounds [OF s0 False]
    let ?off = "unat (segment_offset ?l ?sz)" and ?b = "take ?n buf"
    have len: "length ?b = ?n" using cb(2) by simp
    have fit: "?off + length ?b \<le> unat ?sz"
      using segment_offset_less [OF s0, of ?l] by (auto simp: bytes_to_write_def)
    from fine_write_in_segment [OF less.prems(1) refl refl refl, of ?b]
    obtain st1 where 1: "write_chunk buf st = (Inr (?off + length ?b = unat ?sz), st1)" "fs_fine (ph_fs st1)"
      "file_of (ph_fs st1) = wrote ?sz ?l ?b (file_of (ph_fs st))"
      "if ?off + length ?b = unat ?sz then ph_file st1 = None
       else \<exists>i. ph_file st1 = Some (i, ?off + length ?b) \<and> map_of (fs_dir (ph_fs st1)) (seg_partial ?sz ?l) = Some i"
      by blast
    note rest = rest_ofD [OF write_in_segment_rest [OF 1(1)]]
    have n64: "unat (of_nat ?n :: u64) = ?n" using cb(2) less.prems(2) by (simp add: unat_of_nat take_bit_eq_mod)
    define l where "l = ph_write_lsn st1 + of_nat ?n"
    have l1: "lsn_add (ph_write_lsn st1) (of_nat ?n) = Inr l"
      unfolding lsn_add_Inr l_def rest(1) n64 using cb(2) less.prems(2) by (intro conjI refl) linarith
    have l2: "unat l = unat ?l + ?n" using lsn_add_unat [OF l1] rest(1) n64 by simp
    note l = l1 l2
    let ?st2 = "advance (?off + length ?b = unat ?sz) l st1"
    have ok2: "log_ok ?st2"
      by (rule log_ok_advance [OF less.prems(1) refl refl _ fit 1(2,3) rest(7) 1(4)]) (use l(2) len in simp)
    have h: "holds_at ?l ?b (byte_at st) (byte_at ?st2)"
      using wrote_holds [OF less.prems(1) refl refl fit] 1(3) rest(7) by simp
    have "unat (ph_write_lsn ?st2) + length (drop ?n buf) < 2 ^ 64" using l(2) cb(2) less.prems(2) by simp
    from less.hyps [OF cb(3) ok2 this]
    obtain st' where 2: "write_loop (drop ?n buf) ?st2 = (Inr (), st')" "log_ok st'" "ph_wal_seg_size st' = ph_wal_seg_size ?st2"
      "holds_at l (drop ?n buf) (byte_at ?st2) (byte_at st')" by auto
    have "write_loop buf st = (Inr (), st')"
      using False s0 1(1) l(1) 2(1) by (subst write_loop.simps) (simp add: Let_def advance_def)
    moreover have "holds_at ?l buf (byte_at st) (byte_at st')"
      by (rule holds_at_trans [OF h 2(4) l(2) cb(2)])
    ultimately show ?thesis using 2(2,3) rest(7) by auto
  qed
qed

text \<open>C4: Writing WAL at the end of what is written, when no file operation fails, succeeds; it moves the
  write position by the length of the data, the log then holds the data at its position across all
  the segments it spans, and every byte that was in the log elsewhere is still there.\<close>

theorem write_exact_stores:
  assumes "log_ok st" "unat (ph_write_lsn st) + length buf < 2 ^ 64"
  shows "\<exists>st'. write_exact (ph_write_lsn st) buf st = (Inr (), st') \<and> log_ok st' \<and>
    unat (ph_write_lsn st') = unat (ph_write_lsn st) + length buf \<and>
    holds_at (ph_write_lsn st) buf (byte_at st) (byte_at st')"
proof -
  obtain st' where w: "write_loop buf st = (Inr (), st')" "log_ok st'"
    "holds_at (ph_write_lsn st) buf (byte_at st) (byte_at st')"
    using write_loop_fine [OF assms] by blast
  then have "write_exact (ph_write_lsn st) buf st = (Inr (), st')" by (simp add: write_exact_def abind_def)
  with write_exact_frame(3) [OF this refl refl assms(2)] w show ?thesis by blast
qed

text \<open>A storage with segments of 16 bytes that has written up to position 30: its first segment is complete,
  its second one partial.\<close>

definition small_log :: phys_storage where
  "small_log = \<lparr>ph_fs = \<lparr>fs_dir = [(seg_path 16 0, 0), (seg_partial 16 16, 1)], fs_dir_synced = [],
       fs_inodes = [\<lparr>ino_data = replicate 16 1, ino_synced = True\<rparr>, \<lparr>ino_data = replicate 16 2, ino_synced = False\<rparr>],
       fs_faults = []\<rparr>,
     ph_no_sync = False, ph_wal_seg_size = 16, ph_pg_version = 160004, ph_system_id = 7, ph_write_lsn = 30,
     ph_write_record_lsn = 24, ph_flush_lsn = 24, ph_flush_record_lsn = 24, ph_decoder = decoder_new 30 16,
     ph_file = Some (1, 14), ph_pending_wal_truncation = False\<rparr>"

lemma small_log_names:
  "seg_size_ok 16" "seg_path 16 0 \<noteq> seg_partial 16 16" "seg_partial 16 30 = seg_partial 16 16"
proof -
  show s: "seg_size_ok 16" by (simp add: seg_size_ok_def)
  show "seg_path 16 0 \<noteq> seg_partial 16 16" by (rule seg_names_distinct [OF s])
  show "seg_partial 16 30 = seg_partial 16 16"
    by (subst seg_names_distinct(6) [OF s]) (simp add: segment_number_def)
qed

lemma small_log_ok: "log_ok small_log"
proof -
  note D = seg_names_distinct [OF small_log_names(1)]
  have n: "seg_path 16 l \<noteq> seg_path 16 0" if "30 \<le> l" for l
    unfolding D(5) using that by (simp add: segment_number_def word_unat_eq_iff unat_div word_le_nat_alt)
  show ?thesis
    using small_log_names n D(1,2)
    by (auto simp: log_ok_def small_log_def fs_fine_def fs_ok_def file_of_def inode_of_def segment_offset_def
        split: if_splits)
qed

theorem write_exact_stores_witness:
  "\<exists>st'. write_exact 30 [5, 6, 7, 8] small_log = (Inr (), st') \<and> unat (ph_write_lsn st') = 34 \<and>
     byte_at st' 30 = Some 5 \<and> byte_at st' 33 = Some 8"
proof -
  have p: "ph_write_lsn small_log = 30" by (simp add: small_log_def)
  obtain st' where "write_exact 30 [5, 6, 7, 8] small_log = (Inr (), st')" "unat (ph_write_lsn st') = 34"
    "holds_at 30 [5, 6, 7, 8] (byte_at small_log) (byte_at st')"
    using write_exact_stores [OF small_log_ok, of "[5, 6, 7, 8]"] unfolding p by auto
  then show ?thesis unfolding holds_at_def by (auto dest: spec [of _ 30] spec [of _ 33])
qed

text \<open>C36: When opening the partial file of a segment fails for any reason, \<open>open_or_create\<close> takes it
  as missing: the call succeeds and the file, with the WAL that was in it, has been replaced by a
  zero-filled one.\<close>

theorem open_error_replaces_segment:
  assumes "fs_fine fs" "seg_size_ok sz" "file_of fs (seg_path sz l) = None"
  shows "\<exists>i fs'. open_or_create b sz (segment_number l sz) (fs\<lparr>fs_faults := [None, Some k]\<rparr>) = (Inr (i, True), fs') \<and>
    file_of fs' (seg_partial sz l) = Some (replicate (unat sz) 0)"
proof -
  have z: "fs\<lparr>fs_faults := []\<rparr> = fs" using assms(1) by (cases fs) (simp add: fs_fine_def)
  have ne: "seg_partial sz l \<noteq> ''waltmp''" using seg_names_distinct(4) [OF assms(2)] by metis
  from fine_create_segment [OF assms(1) ne] assms(3) show ?thesis
    by (fastforce simp: open_or_create_def abind_def lift_res_def assms(2) fs_open_def io_def next_fault_def file_of_None z)
qed

theorem open_error_replaces_segment_witness:
  "byte_at small_log 17 = Some 2 \<and> (\<exists>i fs'. open_or_create False 16 1
     ((ph_fs small_log)\<lparr>fs_faults := [None, Some 0]\<rparr>) = (Inr (i, True), fs') \<and> log_byte 16 (file_of fs') 17 = Some 0)"
proof
  have s: "segment_number 17 16 = 1" by (simp add: segment_number_def)
  have p: "seg_partial 16 17 = seg_partial 16 16"
    by (subst seg_names_distinct(6) [OF small_log_names(1)]) (simp add: segment_number_def)
  show "byte_at small_log 17 = Some 2"
    using small_log_names(2) [symmetric] p
    by (simp add: log_byte_def small_log_def file_of_def inode_of_def nth_byte_def segment_offset_def)
  have f: "fs_fine (ph_fs small_log)" using small_log_ok by (simp add: log_ok_def)
  have "file_of (ph_fs small_log) (seg_path 16 17) = None"
    using seg_names_distinct(1,5) [OF small_log_names(1)] by (simp add: small_log_def file_of_def segment_number_def)
  from open_error_replaces_segment [OF f small_log_names(1) this, of False 0]
  show "\<exists>i fs'. open_or_create False 16 1 ((ph_fs small_log)\<lparr>fs_faults := [None, Some 0]\<rparr>) = (Inr (i, True), fs') \<and>
      log_byte 16 (file_of fs') 17 = Some 0"
    unfolding s by (auto simp: log_byte_def nth_byte_def segment_offset_def)
qed

end
