(* ===== verification/WalReader.thy ===== *)
theory WalReader
  imports WalLog Ids
begin

text \<open>
  Reading WAL back: \<open>open_wal_file\<close> and \<open>WalReader\<close> of safekeeper/src/wal_storage.rs. The local
  files are the file system of the timeline directory; the remote storage is a parameter that
  returns, for a path and an offset, the bytes of the object from there on and how its stream ends.
  A read of \<open>n\<close> bytes returns the bytes it put at the front of the buffer.
\<close>

subsection \<open>Opening a segment\<close>

definition open_wal_file :: "seg_no \<Rightarrow> u64 \<Rightarrow> (fs, nat \<times> bool) act" where
  "open_wal_file segno wal_seg_size =
     abind (lift_res (wal_file_paths segno wal_seg_size)) (\<lambda>(wal_file_path, wal_file_partial_path) fs.
     case fs_open wal_file_partial_path fs of
       (Inr opened_file, fs) \<Rightarrow> (Inr (opened_file, True), fs)
     | (Inl _, fs) \<Rightarrow> abind (fs_open wal_file_path) (\<lambda>pf. areturn (pf, False)) fs)"

type_synonym remote_object = "bytes \<times> failure option"

type_synonym remote_store = "string \<Rightarrow> u64 \<Rightarrow> remote_object res"

datatype segment_stream = Local_file nat nat | Remote_stream bytes "failure option"

definition path_join :: "string \<Rightarrow> string \<Rightarrow> string" where
  "path_join a b = (if b \<noteq> [] \<and> hd b = CHR ''/'' then b
     else if a = [] \<or> last a = CHR ''/'' then a @ b else a @ ''/'' @ b)"

definition remote_path_new :: "string \<Rightarrow> string res" where
  "remote_path_new p = (if p \<noteq> [] \<and> hd p = CHR ''/'' then Inl (Bail ''path is not relative'') else Inr p)"

definition remote_timeline_path :: "id \<Rightarrow> id \<Rightarrow> string res" where
  "remote_timeline_path tenant_id timeline_id =
     remote_path_new (path_join (id_hex_encode tenant_id) (id_hex_encode timeline_id))"

record wal_reader =
  wr_remote_path :: string
  wr_wal_seg_size :: u64
  wr_pos :: lsn
  wr_wal_segment :: "segment_stream option"
  wr_enable_remote_read :: bool
  wr_local_start_lsn :: lsn
  wr_timeline_start_lsn :: lsn
  wr_pg_version :: u32
  wr_system_id :: u64
  wr_timeline_start_segment :: "bytes option"

definition wal_reader_new ::
  "id \<Rightarrow> id \<Rightarrow> timeline_persistent_state \<Rightarrow> lsn \<Rightarrow> bool \<Rightarrow> wal_reader res" where
  "wal_reader_new tenant_id timeline_id state start_pos enable_remote_read =
     (let wal_seg_size = ucast (si_wal_seg_size (ps_server state)) :: u64
      in if wal_seg_size = 0 \<or> ps_local_start_lsn state = 0
         then Inl (Bail ''state uninitialized, no data to read'')
         else if start_pos < segment_lsn (ps_timeline_start_lsn state) wal_seg_size
         then Inl (Bail ''requested streaming from before the start of the timeline'')
         else rbind (remote_timeline_path tenant_id timeline_id) (\<lambda>remote_path.
           Inr \<lparr>wr_remote_path = remote_path, wr_wal_seg_size = wal_seg_size, wr_pos = start_pos,
             wr_wal_segment = None, wr_enable_remote_read = enable_remote_read,
             wr_local_start_lsn = ps_local_start_lsn state,
             wr_timeline_start_lsn = ps_timeline_start_lsn state,
             wr_pg_version = si_pg_version (ps_server state) div 10000,
             wr_system_id = si_system_id (ps_server state), wr_timeline_start_segment = None\<rparr>))"

definition open_remote :: "remote_store \<Rightarrow> wal_reader \<Rightarrow> string \<Rightarrow> nat \<Rightarrow> segment_stream res" where
  "open_remote read_object self wal_file_name xlogoff =
     (if wr_enable_remote_read self
      then rbind (read_object (path_join (wr_remote_path self) wal_file_name) (of_nat xlogoff))
             (\<lambda>(bs, e). Inr (Remote_stream bs e))
      else Inl (Bail ''WAL segment is not found''))"

definition open_segment :: "remote_store \<Rightarrow> wal_reader \<Rightarrow> (fs, segment_stream) act" where
  "open_segment read_object self =
     (let xlogoff = unat (segment_offset (wr_pos self) (wr_wal_seg_size self));
          segno = segment_number (wr_pos self) (wr_wal_seg_size self)
      in abind (lift_res (XLogFileName PG_TLI segno (wr_wal_seg_size self))) (\<lambda>wal_file_name fs.
         if wr_local_start_lsn self \<le> wr_pos self then
           (case open_wal_file segno (wr_wal_seg_size self) fs of
              (Inr (f, _), fs) \<Rightarrow> abind (fs_seek f xlogoff) (\<lambda>(f, pos). areturn (Local_file f pos)) fs
            | (Inl e, fs) \<Rightarrow>
                if e = Io ''NotFound'' then (open_remote read_object self wal_file_name xlogoff, fs)
                else (Inl e, fs))
         else (open_remote read_object self wal_file_name xlogoff, fs)))"

subsection \<open>Reading\<close>

definition stream_read_exact :: "segment_stream \<Rightarrow> nat \<Rightarrow> (fs, bytes \<times> segment_stream) act" where
  "stream_read_exact s n = (case s of
     Local_file i pos \<Rightarrow> abind (fs_read_at i pos n) (\<lambda>bs.
       if length bs = n then areturn (bs, Local_file i (pos + n)) else afail (Io ''UnexpectedEof''))
   | Remote_stream bs e \<Rightarrow>
       if n \<le> length bs then areturn (take n bs, Remote_stream (drop n bs) e)
       else afail (case e of Some f \<Rightarrow> f | None \<Rightarrow> Io ''UnexpectedEof''))"

text \<open>The part of the first segment that lies before the start of the timeline.\<close>

definition read_before_start ::
  "(u32 \<Rightarrow> pg_bindings) \<Rightarrow> (u32 \<Rightarrow> phd_encoders) \<Rightarrow> wal_reader \<Rightarrow> nat \<Rightarrow> (bytes \<times> wal_reader) res" where
  "read_before_start B E self buf_len =
     rbind (case wr_timeline_start_segment self of
         Some s \<Rightarrow> Inr s
       | None \<Rightarrow> generate_wal_segment B E (segment_number (wr_timeline_start_lsn self) (wr_wal_seg_size self))
           (wr_system_id self) (wr_pg_version self) (wr_timeline_start_lsn self)) (\<lambda>segment.
     let pos_seg_offset = segment_offset (wr_pos self) (wr_wal_seg_size self);
         tl_start_seg_offset = segment_offset (wr_timeline_start_lsn self) (wr_wal_seg_size self);
         len = min (unat (tl_start_seg_offset - pos_seg_offset)) buf_len
     in rbind (rassert (unat pos_seg_offset + len \<le> length segment) ''slice index out of range'') (\<lambda>_.
        rbind (lsn_add (wr_pos self) (of_nat len)) (\<lambda>pos.
        Inr (take len (drop (unat pos_seg_offset) segment),
          self\<lparr>wr_pos := pos,
            wr_timeline_start_segment := (if pos < wr_timeline_start_lsn self then Some segment else None)\<rparr>))))"

definition read_segment :: "remote_store \<Rightarrow> nat \<Rightarrow> (wal_reader \<times> fs, bytes) act" where
  "read_segment read_object buf_len = (\<lambda>(self, fs).
     case (case wr_wal_segment self of
             Some reader \<Rightarrow> (Inr reader, fs) | None \<Rightarrow> open_segment read_object self fs) of
       (Inl e, fs) \<Rightarrow> (Inl e, (self\<lparr>wr_wal_segment := None\<rparr>, fs))
     | (Inr wal_segment, fs) \<Rightarrow>
         let self = self\<lparr>wr_wal_segment := None\<rparr>;
             xlogoff = unat (segment_offset (wr_pos self) (wr_wal_seg_size self));
             send_size = min buf_len (unat (wr_wal_seg_size self) - xlogoff)
         in (case stream_read_exact wal_segment send_size fs of
               (Inl e, fs) \<Rightarrow> (Inl e, (self, fs))
             | (Inr (bs, wal_segment), fs) \<Rightarrow>
                 (case lsn_add (wr_pos self) (of_nat send_size) of
                    Inl e \<Rightarrow> (Inl e, (self, fs))
                  | Inr pos \<Rightarrow> (Inr bs, (self\<lparr>wr_pos := pos, wr_wal_segment :=
                      (if segment_offset pos (wr_wal_seg_size self) \<noteq> 0 then Some wal_segment else None)\<rparr>, fs)))))"

definition wal_reader_read ::
  "(u32 \<Rightarrow> pg_bindings) \<Rightarrow> (u32 \<Rightarrow> phd_encoders) \<Rightarrow> remote_store \<Rightarrow> nat \<Rightarrow> (wal_reader \<times> fs, bytes) act" where
  "wal_reader_read B E read_object buf_len = (\<lambda>(self, fs).
     if wr_pos self < wr_timeline_start_lsn self then
       (case read_before_start B E self buf_len of
          Inl e \<Rightarrow> (Inl e, (self, fs)) | Inr (bs, self) \<Rightarrow> (Inr bs, (self, fs)))
     else read_segment read_object buf_len (self, fs))"

subsection \<open>What a read returns\<close>

text \<open>The file that is read for a position, and a reader whose open file, if any, is that file with
  the cursor at the position.\<close>

definition seg_inode :: "u64 \<Rightarrow> fs \<Rightarrow> lsn \<Rightarrow> nat option" where
  "seg_inode sz fs l = (case map_of (fs_dir fs) (seg_partial sz l) of
     Some i \<Rightarrow> Some i | None \<Rightarrow> map_of (fs_dir fs) (seg_path sz l))"

definition reader_ok :: "wal_reader \<Rightarrow> fs \<Rightarrow> bool" where
  "reader_ok r fs \<longleftrightarrow> fs_fine fs \<and> seg_size_ok (wr_wal_seg_size r) \<and>
     wr_timeline_start_lsn r \<le> wr_pos r \<and> wr_local_start_lsn r \<le> wr_pos r \<and>
     (\<forall>s. wr_wal_segment r = Some s \<longrightarrow> (\<exists>i. seg_inode (wr_wal_seg_size r) fs (wr_pos r) = Some i \<and>
        s = Local_file i (unat (segment_offset (wr_pos r) (wr_wal_seg_size r)))))"

lemma log_byte_inode:
  "log_byte sz (file_of fs) l = (case seg_inode sz fs l of None \<Rightarrow> None
     | Some i \<Rightarrow> nth_byte (ino_data (inode_of fs i)) (unat (segment_offset l sz)))"
  by (simp add: log_byte_def seg_inode_def file_of_def split: option.splits)

lemma seg_inode_same:
  "seg_size_ok sz \<Longrightarrow> segment_number k sz = segment_number l sz \<Longrightarrow> seg_inode sz fs k = seg_inode sz fs l"
  using seg_names_distinct(5,6) [of sz k l] by (simp add: seg_inode_def split: option.splits)

lemma fine_open_wal_file:
  assumes "fs_fine fs" "seg_size_ok sz" "seg_inode sz fs l = Some i"
  shows "\<exists>p. open_wal_file (segment_number l sz) sz fs = (Inr (i, p), fs)"
  using assms
  by (auto simp: open_wal_file_def abind_def lift_res_def areturn_def fs_open_def seg_inode_def split: option.splits)

lemma fine_open_segment:
  assumes "reader_ok r fs" "seg_inode (wr_wal_seg_size r) fs (wr_pos r) = Some i"
  shows "open_segment ro r fs = (Inr (Local_file i (unat (segment_offset (wr_pos r) (wr_wal_seg_size r)))), fs)"
proof -
  have r: "fs_fine fs" "seg_size_ok (wr_wal_seg_size r)" "wr_local_start_lsn r \<le> wr_pos r"
    using assms(1) by (auto simp: reader_ok_def)
  obtain p where "open_wal_file (segment_number (wr_pos r) (wr_wal_seg_size r)) (wr_wal_seg_size r) fs = (Inr (i, p), fs)"
    using fine_open_wal_file [OF r(1,2) assms(2)] by blast
  then show ?thesis
    using r seg_path_props(1) [OF r(2)]
    by (simp add: open_segment_def Let_def abind_def lift_res_def areturn_def fs_seek_def)
qed

text \<open>The bytes from \<open>l\<close> on are in the log.\<close>

definition has_bytes :: "(lsn \<Rightarrow> u8 option) \<Rightarrow> lsn \<Rightarrow> nat \<Rightarrow> bool" where
  "has_bytes b l n \<longleftrightarrow> (\<forall>k. unat l \<le> unat k \<and> unat k < unat l + n \<longrightarrow> b k \<noteq> None)"

definition bytes_at :: "(lsn \<Rightarrow> u8 option) \<Rightarrow> lsn \<Rightarrow> bytes \<Rightarrow> bool" where
  "bytes_at b l bs \<longleftrightarrow> (\<forall>k. unat l \<le> unat k \<and> unat k < unat l + length bs \<longrightarrow> b k = Some (bs ! (unat k - unat l)))"

lemma same_segment:
  assumes "seg_size_ok sz" "unat l \<le> unat k" "unat k < unat l + m" "m \<le> unat sz - unat (segment_offset l sz)"
  shows "segment_number k sz = segment_number l sz"
    "unat (segment_offset k sz) = unat (segment_offset l sz) + (unat k - unat l)"
proof -
  define n where "n = unat k - unat l"
  have "unat k = unat l + n" "unat (segment_offset l sz) + n < unat sz" using assms(2-4) by (auto simp: n_def)
  then show "segment_number k sz = segment_number l sz"
    "unat (segment_offset k sz) = unat (segment_offset l sz) + (unat k - unat l)"
    using segment_step(1,2) [of k l n sz] assms(1) by (auto simp: seg_size_ok_def n_def)
qed

lemma fine_stream_read:
  assumes "fs_fine fs" "seg_size_ok sz" "seg_inode sz fs l = Some i" "0 < m"
    "m \<le> unat sz - unat (segment_offset l sz)" "has_bytes (log_byte sz (file_of fs)) l m" "unat l + m \<le> 2 ^ 64"
  shows "\<exists>bs. stream_read_exact (Local_file i (unat (segment_offset l sz))) m fs =
      (Inr (bs, Local_file i (unat (segment_offset l sz) + m)), fs) \<and> length bs = m \<and>
      bytes_at (log_byte sz (file_of fs)) l bs"
proof -
  let ?d = "ino_data (inode_of fs i)" and ?o = "unat (segment_offset l sz)"
  let ?bs = "take m (drop ?o ?d)"
  have byte: "log_byte sz (file_of fs) k = nth_byte ?d (?o + (unat k - unat l))"
    if "unat l \<le> unat k" "unat k < unat l + m" for k
    using same_segment(2) [OF assms(2) that assms(5)]
      seg_inode_same [OF assms(2) same_segment(1) [OF assms(2) that assms(5)], of fs] assms(3)
    by (simp add: log_byte_inode)
  define x where "x = unat l + m - 1"
  define k :: lsn where "k = of_nat x"
  have "x < 2 ^ 64" using assms(4,7) by (simp add: x_def)
  then have k: "unat k = unat l + m - 1" by (simp add: k_def unat_of_nat take_bit_eq_mod) (simp add: x_def)
  have kr: "unat l \<le> unat k" "unat k < unat l + m" using k assms(4) by simp_all
  then have "log_byte sz (file_of fs) k \<noteq> None" using assms(6) unfolding has_bytes_def by blast
  then have "?o + (unat k - unat l) < length ?d" unfolding byte [OF kr] by (simp add: nth_byte_def split: if_splits)
  then have d: "?o + m \<le> length ?d" using k assms(4) by linarith
  then have len: "length ?bs = m" by simp
  have "bytes_at (log_byte sz (file_of fs)) l ?bs"
    unfolding bytes_at_def len using byte d by (auto simp: nth_byte_def)
  with len show ?thesis
    using assms(1) by (simp add: stream_read_exact_def abind_def fs_read_at_def areturn_def)
qed

lemma reader_ok_step:
  assumes "reader_ok r fs" "wr_wal_seg_size r = sz" "wr_pos r = l" "seg_inode sz fs l = Some i"
    "unat p = unat l + m" "m \<le> unat sz - unat (segment_offset l sz)"
  shows "reader_ok (r\<lparr>wr_pos := p, wr_wal_segment := (if segment_offset p sz \<noteq> 0
    then Some (Local_file i (unat (segment_offset l sz) + m)) else None)\<rparr>) fs"
proof -
  have ok: "seg_size_ok sz" "sz \<noteq> 0" using assms(1,2) by (auto simp: reader_ok_def seg_size_ok_def)
  have off: "unat (segment_offset l sz) < unat sz" using ok(2) by (simp add: segment_offset_less)
  have le: "l \<le> p" using assms(5) by (simp add: word_le_nat_alt)
  have "segment_number p sz = segment_number l sz \<and> unat (segment_offset p sz) = unat (segment_offset l sz) + m"
    if nz: "segment_offset p sz \<noteq> 0"
  proof -
    have fit: "unat (segment_offset l sz) + m \<le> unat sz" using assms(6) off by linarith
    have "unat (segment_offset l sz) + m \<noteq> unat sz"
    proof
      assume e: "unat (segment_offset l sz) + m = unat sz"
      have "(unat l + m) mod unat sz = (unat l mod unat sz + m) mod unat sz" by (simp add: mod_add_left_eq)
      then have "unat (segment_offset p sz) = 0" using e assms(5) by (simp add: unat_segment_offset)
      with nz show False by (simp only: unsigned_eq_0_iff)
    qed
    then show ?thesis using segment_step(1,2) [OF assms(5) ok(2) fit] fit by simp
  qed
  then show ?thesis
    using assms(1-4) le seg_inode_same [OF ok(1), of p l fs] by (auto simp: reader_ok_def)
qed

lemma read_segment_fine:
  assumes "reader_ok r fs" "0 < n" and sz: "wr_wal_seg_size r = sz" and l: "wr_pos r = l"
    and m: "m = min n (unat sz - unat (segment_offset l sz))"
    and b: "has_bytes (log_byte sz (file_of fs)) l m" "unat l + m < 2 ^ 64"
  shows "\<exists>bs r'. wal_reader_read B E ro n (r, fs) = (Inr bs, (r', fs)) \<and> length bs = m \<and>
    bytes_at (log_byte sz (file_of fs)) l bs \<and> reader_ok r' fs \<and> wr_wal_seg_size r' = sz \<and> unat (wr_pos r') = unat l + m"
proof -
  have r: "fs_fine fs" "seg_size_ok sz" "\<not> wr_pos r < wr_timeline_start_lsn r" "wr_local_start_lsn r \<le> l"
    using assms(1) sz l by (auto simp: reader_ok_def)
  have off: "unat (segment_offset l sz) < unat sz" using r(2) segment_offset_less by (simp add: seg_size_ok_def)
  have m0: "0 < m" "m \<le> unat sz - unat (segment_offset l sz)" using off m assms(2) by simp_all
  have "log_byte sz (file_of fs) l \<noteq> None" using b(1) m0(1) unfolding has_bytes_def by simp
  then obtain i where i: "seg_inode sz fs l = Some i" by (auto simp: log_byte_inode split: option.splits)
  let ?s = "Local_file i (unat (segment_offset l sz))"
  have o: "(case wr_wal_segment r of Some s \<Rightarrow> (Inr s, fs) | None \<Rightarrow> open_segment ro r fs) = (Inr ?s, fs)"
    using assms(1) fine_open_segment [OF assms(1), of i ro] i sz l by (auto simp: reader_ok_def split: option.splits)
  obtain bs where bs: "stream_read_exact ?s m fs = (Inr (bs, Local_file i (unat (segment_offset l sz) + m)), fs)"
    "length bs = m" "bytes_at (log_byte sz (file_of fs)) l bs"
    using fine_stream_read [OF r(1,2) i m0 b(1)] b(2) by auto
  have n64: "unat (of_nat m :: u64) = m" using b(2) by (simp add: unat_of_nat take_bit_eq_mod)
  obtain p where p: "lsn_add l (of_nat m) = Inr p" using b(2) n64 lsn_add_Inr [of l "of_nat m"] by auto
  have pu: "unat p = unat l + m" using lsn_add_unat [OF p] n64 by simp
  define r' where "r' = r\<lparr>wr_pos := p, wr_wal_segment := (if segment_offset p sz \<noteq> 0
    then Some (Local_file i (unat (segment_offset l sz) + m)) else None)\<rparr>"
  have "wal_reader_read B E ro n (r, fs) = (Inr bs, (r', fs))"
    using r(3) o bs(1) p by (simp add: wal_reader_read_def read_segment_def Let_def sz l m [symmetric] r'_def)
  moreover have "reader_ok r' fs"
    using reader_ok_step [OF assms(1) sz l i pu m0(2)] by (simp add: r'_def)
  ultimately show ?thesis using bs(2,3) pu sz by (intro exI [of _ bs] exI [of _ r']) (simp add: r'_def)
qed

lemma holds_at_has_bytes:
  "holds_at l buf b b' \<Longrightarrow> m \<le> length buf \<Longrightarrow> has_bytes b' l m"
  by (auto simp: holds_at_def has_bytes_def dest: spec split: if_splits)

lemma bytes_at_unique:
  assumes "holds_at l buf b b'" "bytes_at b' l bs" "length bs \<le> length buf" "unat l + length bs \<le> 2 ^ 64"
  shows "bs = take (length bs) buf"
proof (rule nth_equalityI)
  fix j assume j: "j < length bs"
  define k :: lsn where "k = of_nat (unat l + j)"
  have "unat l + j < 2 ^ 64" using assms(4) j by linarith
  then have k: "unat k = unat l + j" unfolding k_def unat_of_nat take_bit_eq_mod by simp
  have "b' k = Some (bs ! j)" using assms(2) j k by (simp add: bytes_at_def)
  moreover have "b' k = Some (buf ! j)" using assms(1,3) j k by (auto simp: holds_at_def dest: spec [of _ k] split: if_splits)
  ultimately show "bs ! j = take (length bs) buf ! j" using j by simp
qed (use assms(3) in simp)

text \<open>C5: WAL that was written is read back: after a write, a reader of the timeline that starts at the position
  of the write returns the first bytes of what was written, as many as it was asked for and as lie in the segment,
  and its position is then behind them.\<close>

theorem read_returns_written:
  assumes "log_ok st" "unat (ph_write_lsn st) + length buf < 2 ^ 64"
    and w: "write_exact (ph_write_lsn st) buf st = (x, st')"
    and r: "wr_wal_seg_size r = ph_wal_seg_size st" "wr_pos r = ph_write_lsn st" "wr_wal_segment r = None"
      "wr_timeline_start_lsn r \<le> wr_pos r" "wr_local_start_lsn r \<le> wr_pos r"
    and n: "0 < n" "n \<le> length buf"
  shows "\<exists>r'. wal_reader_read B E ro n (r, ph_fs st') =
      (Inr (take (unat (wr_wal_seg_size r) - unat (segment_offset (wr_pos r) (wr_wal_seg_size r))) (take n buf)), (r', ph_fs st')) \<and>
    unat (wr_pos r') = unat (wr_pos r) + min n (unat (wr_wal_seg_size r) - unat (segment_offset (wr_pos r) (wr_wal_seg_size r)))"
proof -
  let ?sz = "ph_wal_seg_size st" and ?l = "ph_write_lsn st"
  define m where "m = min n (unat ?sz - unat (segment_offset ?l ?sz))"
  have mn: "m \<le> length buf" using n by (simp add: m_def)
  have "write_loop buf st = (x, st')" using w by (simp add: write_exact_def abind_def)
  then have s: "log_ok st'" "ph_wal_seg_size st' = ?sz" "holds_at ?l buf (byte_at st) (byte_at st')"
    using write_loop_fine [OF assms(1,2)] by auto
  have "reader_ok r (ph_fs st')" using s(1,2) r by (simp add: reader_ok_def log_ok_def)
  moreover have "has_bytes (byte_at st') ?l m" using holds_at_has_bytes [OF s(3) mn] .
  ultimately obtain bs r' where 1: "wal_reader_read B E ro n (r, ph_fs st') = (Inr bs, (r', ph_fs st'))" "length bs = m"
    "bytes_at (byte_at st') ?l bs" "unat (wr_pos r') = unat ?l + m"
    using read_segment_fine [of r "ph_fs st'" n ?sz ?l m B E ro] n(1) r(1,2) m_def s(2) assms(2) mn by auto
  have "bs = take m buf" using bytes_at_unique [OF s(3) 1(3)] 1(2) mn assms(2) by simp
  also have "\<dots> = take (unat ?sz - unat (segment_offset ?l ?sz)) (take n buf)" by (simp add: m_def min.commute)
  finally show ?thesis using 1 r(1,2) by (auto simp: m_def)
qed

definition small_reader :: wal_reader where
  "small_reader = \<lparr>wr_remote_path = '''', wr_wal_seg_size = 16, wr_pos = 30, wr_wal_segment = None,
     wr_enable_remote_read = False, wr_local_start_lsn = 8, wr_timeline_start_lsn = 8, wr_pg_version = 16,
     wr_system_id = 7, wr_timeline_start_segment = None\<rparr>"

theorem read_returns_written_witness:
  "\<exists>st' r'. write_exact 30 [5, 6, 7, 8] small_log = (Inr (), st') \<and>
     wal_reader_read (\<lambda>_. undefined) (\<lambda>_. undefined) (\<lambda>_ _. Inl (Bail ''none'')) 3 (small_reader, ph_fs st') =
       (Inr [5, 6], (r', ph_fs st')) \<and> unat (wr_pos r') = 32"
proof -
  have p: "ph_write_lsn small_log = 30" "ph_wal_seg_size small_log = 16" by (simp_all add: small_log_def)
  obtain st' where "write_loop [5, 6, 7, 8] small_log = (Inr (), st')"
    using write_loop_fine [OF small_log_ok, of "[5, 6, 7, 8]"] p by auto
  then have w: "write_exact (ph_write_lsn small_log) [5, 6, 7, 8] small_log = (Inr (), st')"
    by (simp add: write_exact_def abind_def)
  from read_returns_written [OF small_log_ok _ this, of small_reader 3]
  show ?thesis using w unfolding p by (auto simp: small_reader_def p segment_offset_def take_Cons')
qed

end
