(* ===== verification/PartialBackup.thy ===== *)
theory PartialBackup
  imports Timeline WalReader
begin

text \<open>
  The backup of the last, partial segment of a timeline (safekeeper/src/wal_backup_partial.rs): the list of
  remote segments in the control file, their upload, garbage collection and reset. The remote storage is
  the record \<open>remote\<close>; its operations take some time, so that they also act on the timeline, for what other tasks
  do to it meanwhile.
\<close>

subsection \<open>Decimal numbers and replacement in strings\<close>

function fmt_dec :: "nat \<Rightarrow> string" where
  "fmt_dec n = (if n < 10 then [char_of (48 + n)] else fmt_dec (n div 10) @ [char_of (48 + n mod 10)])"
  by pat_completeness auto
termination by (relation "measure id") auto

declare fmt_dec.simps [simp del]

text \<open>\<open>str::replace\<close> for a pattern that is not empty.\<close>

function str_replace :: "string \<Rightarrow> string \<Rightarrow> string \<Rightarrow> string" where
  "str_replace pat to [] = []"
| "str_replace pat to (c # cs) =
     (if pat \<noteq> [] \<and> take (length pat) (c # cs) = pat
      then to @ str_replace pat to (drop (length pat) (c # cs))
      else c # str_replace pat to cs)"
  by pat_completeness auto
termination by (relation "measure (\<lambda>(_, _, s). length s)") auto

definition ends_with :: "string \<Rightarrow> string \<Rightarrow> bool" where
  "ends_with s suff \<longleftrightarrow> length suff \<le> length s \<and> drop (length s - length suff) s = suff"

subsection \<open>Segments and the state\<close>

definition eq_without_status :: "partial_remote_segment \<Rightarrow> partial_remote_segment \<Rightarrow> bool" where
  "eq_without_status self other \<longleftrightarrow> prs_name self = prs_name other \<and> prs_commit_lsn self = prs_commit_lsn other \<and>
     prs_flush_lsn self = prs_flush_lsn other \<and> prs_term self = prs_term other"

definition prs_remote_path :: "partial_remote_segment \<Rightarrow> string \<Rightarrow> string" where
  "prs_remote_path self base = path_join base (prs_name self)"

text \<open>The result is the previous and the renamed segment, with the new state.\<close>

fun replace_uploaded_segment ::
  "node_id \<Rightarrow> node_id \<Rightarrow> partial_backup_state \<Rightarrow>
     ((partial_remote_segment \<times> partial_remote_segment) option \<times> partial_backup_state) res" where
  "replace_uploaded_segment source destination [] = Inr (None, [])"
| "replace_uploaded_segment source destination (seg # segs) =
     (if prs_status seg = Uploaded then
        if \<not> ends_with (prs_name seg) (''sk'' @ fmt_dec (unat source) @ ''.partial'')
        then Inl (Bail ''Partial segment name does not match self node id'')
        else let seg' = seg\<lparr>prs_name := str_replace (''_sk'' @ fmt_dec (unat source))
                   (''_sk'' @ fmt_dec (unat destination)) (prs_name seg)\<rparr>
             in Inr (Some (seg, seg'), seg' # segs)
      else rbind (replace_uploaded_segment source destination segs) (\<lambda>(res, segs). Inr (res, seg # segs)))"

subsection \<open>Names\<close>

record partial_backup =
  pbk_wal_seg_size :: u64
  pbk_conf :: sk_conf
  pbk_remote_timeline_path :: string
  pbk_state :: partial_backup_state

definition partial_backup_new ::
  "'c ctrl_storage \<Rightarrow> string \<Rightarrow> sk_conf \<Rightarrow> ('c, 'w, 's, 'h) timeline \<Rightarrow> partial_backup res" where
  "partial_backup_new C remote_path conf tli =
     rbind (ssk_state (sh_sk (tl_shared tli))) (\<lambda>s.
     Inr \<lparr>pbk_wal_seg_size = ucast (si_wal_seg_size (ps_server (pers C s))), pbk_conf = conf,
       pbk_remote_timeline_path = remote_path, pbk_state = ps_partial_backup (pers C s)\<rparr>)"

definition pbk_segno :: "partial_backup \<Rightarrow> lsn \<Rightarrow> seg_no res" where
  "pbk_segno self l =
     rbind (rassert (pbk_wal_seg_size self \<noteq> 0) ''attempt to divide by zero'') (\<lambda>_.
     Inr (segment_number l (pbk_wal_seg_size self)))"

definition pbk_segment_name :: "partial_backup \<Rightarrow> seg_no \<Rightarrow> string res" where
  "pbk_segment_name self segno = XLogFileName PG_TLI segno (pbk_wal_seg_size self)"

definition remote_segment_name :: "partial_backup \<Rightarrow> seg_no \<Rightarrow> term_no \<Rightarrow> lsn \<Rightarrow> lsn \<Rightarrow> string res" where
  "remote_segment_name self segno t commit_lsn flush_lsn =
     rbind (pbk_segment_name self segno) (\<lambda>name.
     Inr (name @ ''_'' @ fmt_dec (unat t) @ ''_'' @ fmt_0X 16 (unat flush_lsn) @ ''_'' @
       fmt_0X 16 (unat commit_lsn) @ ''_sk'' @ fmt_dec (unat (cf_my_id (pbk_conf self))) @ ''.partial''))"

definition local_segment_name :: "partial_backup \<Rightarrow> seg_no \<Rightarrow> string res" where
  "local_segment_name self segno = rbind (pbk_segment_name self segno) (\<lambda>name. Inr (name @ ''.partial''))"

subsection \<open>Upload and garbage collection\<close>

text \<open>The remote storage: \<open>backup_partial_segment\<close> copies the first bytes of a local file to an object,
  \<open>delete_objects\<close> deletes objects, and \<open>rm_has\<close> is what a reader finds.\<close>

record ('t, 'r) remote =
  rm_upload :: "string \<Rightarrow> string \<Rightarrow> nat \<Rightarrow> ('t \<times> 'r, unit) act"
  rm_delete :: "string list \<Rightarrow> ('t \<times> 'r, unit) act"
  rm_has :: "'r \<Rightarrow> string \<Rightarrow> bool"

definition prepare_upload ::
  "'c ctrl_storage \<Rightarrow> 'w wal_storage \<Rightarrow> partial_backup \<Rightarrow> ('c, 'w, 's, 'h) timeline \<Rightarrow> partial_remote_segment res" where
  "prepare_upload C W self tli =
     rbind (get_safekeeper_info C W (pbk_conf self) (sr_apply_lsn (sf_reply (get_hotstandby (tl_walsenders tli))))
       (tl_shared tli)) (\<lambda>sk_info.
     rbind (pbk_segno self (ski_flush_lsn sk_info)) (\<lambda>segno.
     rbind (remote_segment_name self segno (ski_last_log_term sk_info) (ski_commit_lsn sk_info) (ski_flush_lsn sk_info))
       (\<lambda>name.
     Inr \<lparr>prs_status = InProgress, prs_name = name, prs_commit_lsn = ski_commit_lsn sk_info,
       prs_flush_lsn = ski_flush_lsn sk_info, prs_term = ski_last_log_term sk_info\<rparr>)))"

definition upload_check ::
  "'c ctrl_storage \<Rightarrow> 'w wal_storage \<Rightarrow> partial_backup \<Rightarrow> partial_remote_segment \<Rightarrow> ('c, 'w, 's, 'h) timeline \<Rightarrow> unit res" where
  "upload_check C W self prepared tli =
     rbind (get_safekeeper_info C W (pbk_conf self) (sr_apply_lsn (sf_reply (get_hotstandby (tl_walsenders tli))))
       (tl_shared tli)) (\<lambda>sk_info.
     if ski_last_log_term sk_info \<noteq> prs_term prepared then Inl (Bail ''term changed during upload'')
     else rbind (rassert (prs_commit_lsn prepared \<le> ski_commit_lsn sk_info)
       ''assertion failed: prepared.commit_lsn <= Lsn(sk_info.commit_lsn)'') (\<lambda>_.
     rassert (prs_flush_lsn prepared \<le> ski_flush_lsn sk_info)
       ''assertion failed: prepared.flush_lsn <= Lsn(sk_info.flush_lsn)''))"

type_synonym ('c, 'w, 's, 'h, 'r) pb_world = "partial_backup \<times> ('c, 'w, 's, 'h) timeline \<times> 'r"

definition upload_segment ::
  "'c ctrl_storage \<Rightarrow> 'w wal_storage \<Rightarrow> (('c, 'w, 's, 'h) timeline, 'r) remote \<Rightarrow> partial_remote_segment \<Rightarrow>
     (('c, 'w, 's, 'h, 'r) pb_world, unit) act" where
  "upload_segment C W R prepared = (\<lambda>(self, w).
     case rbind (pbk_segno self (prs_flush_lsn prepared)) (local_segment_name self) of
       Inl e \<Rightarrow> (Inl e, (self, w))
     | Inr local_path \<Rightarrow>
         (case rm_upload R local_path (prs_remote_path prepared (pbk_remote_timeline_path self))
             (unat (segment_offset (prs_flush_lsn prepared) (pbk_wal_seg_size self))) w of
            (Inl e, w) \<Rightarrow> (Inl e, (self, w))
          | (Inr _, w) \<Rightarrow> (upload_check C W self prepared (fst w), (self, w))))"

text \<open>\<open>commit_state\<close>: the closure compares the state in memory with the one in the control file. When they
  differ it takes over the latter; where they are equal, taking it over changes nothing.\<close>

definition commit_state ::
  "'c ctrl_storage \<Rightarrow> 'w wal_storage \<Rightarrow> partial_backup_state \<Rightarrow> (('c, 'w, 's, 'h, 'r) pb_world, unit) act" where
  "commit_state C W new_state = (\<lambda>(self, tli, r).
     case map_control_file C W (\<lambda>cf.
         if ps_partial_backup cf \<noteq> pbk_state self then Inl (Bail ''partial backup state diverged'')
         else Inr (cf\<lparr>ps_partial_backup := new_state\<rparr>, ())) tli of
       (Inl e, tli') \<Rightarrow> (Inl e, (self\<lparr>pbk_state := (case ssk_state (sh_sk (tl_shared tli)) of
           Inr s \<Rightarrow> ps_partial_backup (start_change C s) | Inl _ \<Rightarrow> pbk_state self)\<rparr>, tli', r))
     | (Inr _, tli') \<Rightarrow> (Inr (), (self\<lparr>pbk_state := new_state\<rparr>, tli', r)))"

definition delete_segments ::
  "(('c, 'w, 's, 'h) timeline, 'r) remote \<Rightarrow> string list \<Rightarrow> (('c, 'w, 's, 'h, 'r) pb_world, unit) act" where
  "delete_segments R segments_to_delete = (\<lambda>(self, w).
     case rm_delete R (map (path_join (pbk_remote_timeline_path self)) segments_to_delete) w of
       (x, w) \<Rightarrow> (x, (self, w)))"

text \<open>What garbage collection keeps and deletes.\<close>

definition gc_plan :: "partial_backup_state \<Rightarrow> (partial_backup_state \<times> string list) res" where
  "gc_plan segments =
     (let new_segments = filter (\<lambda>seg. prs_status seg = Uploaded) segments;
          segments_to_delete = map prs_name (filter (\<lambda>seg. prs_status seg \<noteq> Uploaded) segments)
      in if length new_segments = 1
         then Inr (new_segments, filter (\<lambda>name. name \<noteq> prs_name (hd new_segments)) segments_to_delete)
         else rbind (rassert (new_segments = []) ''too many uploaded segments'') (\<lambda>_.
           Inr (new_segments, segments_to_delete)))"

definition gc ::
  "'c ctrl_storage \<Rightarrow> 'w wal_storage \<Rightarrow> (('c, 'w, 's, 'h) timeline, 'r) remote \<Rightarrow>
     (('c, 'w, 's, 'h, 'r) pb_world, unit) act" where
  "gc C W R = (\<lambda>(self, w).
     case gc_plan (pbk_state self) of
       Inl e \<Rightarrow> (Inl e, (self, w))
     | Inr (new_segments, segments_to_delete) \<Rightarrow>
         abind (delete_segments R segments_to_delete) (\<lambda>_. commit_state C W new_segments) (self, w))"

definition do_upload ::
  "'c ctrl_storage \<Rightarrow> 'w wal_storage \<Rightarrow> (('c, 'w, 's, 'h) timeline, 'r) remote \<Rightarrow> partial_remote_segment \<Rightarrow>
     (('c, 'w, 's, 'h, 'r) pb_world, unit) act" where
  "do_upload C W R prepared = (\<lambda>(self, w).
     let state_0 = pbk_state self;
         state_1 = state_0 @ [prepared];
         state_2 = map (\<lambda>seg. seg\<lparr>prs_status := Deleting\<rparr>) state_0 @ [prepared\<lparr>prs_status := Uploaded\<rparr>]
     in abind (commit_state C W state_1) (\<lambda>_.
        abind (upload_segment C W R prepared) (\<lambda>_.
        abind (commit_state C W state_2) (\<lambda>_. gc C W R))) (self, w))"

definition pbk_reset ::
  "'c ctrl_storage \<Rightarrow> 'w wal_storage \<Rightarrow> (('c, 'w, 's, 'h) timeline, 'r) remote \<Rightarrow>
     (('c, 'w, 's, 'h, 'r) pb_world, string list) act" where
  "pbk_reset C W R = (\<lambda>(self, w).
     let segments_to_delete = map prs_name (pbk_state self)
     in abind (commit_state C W []) (\<lambda>_.
        abind (delete_segments R segments_to_delete) (\<lambda>_. areturn segments_to_delete)) (self, w))"

text \<open>One round of the loop of \<open>main_task\<close>: garbage collection when there are too many segments, the test
  whether the current positions are uploaded already, which ends the task, a wait, and an upload. What other tasks do
  to the timeline during the wait and how the wait ends are arguments. The result is \<open>None\<close> when the loop
  goes on, and else what the task returns.\<close>

datatype wait_outcome = Canceled | Segno_changed | Timeout_expired

definition MAX_SIMULTANEOUS_SEGMENTS :: nat where "MAX_SIMULTANEOUS_SEGMENTS = 10"

definition uploaded_is_current :: "('c, 'w, 's, 'h) timeline \<Rightarrow> partial_remote_segment \<Rightarrow> bool" where
  "uploaded_is_current tli seg \<longleftrightarrow> tl_lsn (tl_term_flush_lsn_watch tli) = prs_flush_lsn seg \<and>
     tl_commit_lsn_watch tli = prs_commit_lsn seg \<and> tl_term (tl_term_flush_lsn_watch tli) = prs_term seg"

definition main_task_round ::
  "'c ctrl_storage \<Rightarrow> 'w wal_storage \<Rightarrow> (('c, 'w, 's, 'h) timeline, 'r) remote \<Rightarrow>
     (('c, 'w, 's, 'h) timeline \<Rightarrow> ('c, 'w, 's, 'h) timeline) \<Rightarrow> wait_outcome \<Rightarrow>
     (('c, 'w, 's, 'h, 'r) pb_world, partial_remote_segment option option) act" where
  "main_task_round C W R meanwhile outcome = (\<lambda>(self, w).
     case (if length (pbk_state self) > MAX_SIMULTANEOUS_SEGMENTS then gc C W R (self, w) else (Inr (), (self, w))) of
       (Inl (Panic p), s) \<Rightarrow> (Inl (Panic p), s)
     | (_, (self, tli, r)) \<Rightarrow>
         let uploaded = uploaded_segment (pbk_state self)
         in if (case uploaded of Some seg \<Rightarrow> uploaded_is_current tli seg | None \<Rightarrow> False)
            then (Inr (Some uploaded), (self, tli, r))
            else let tli = meanwhile tli in case outcome of
              Canceled \<Rightarrow> (Inr (Some None), (self, tli, r))
            | Segno_changed \<Rightarrow> (Inr None, (self, tli, r))
            | Timeout_expired \<Rightarrow>
                (case prepare_upload C W self tli of
                   Inl e \<Rightarrow> (Inl e, (self, tli, r))
                 | Inr prepared \<Rightarrow>
                     if (case uploaded of Some seg \<Rightarrow> eq_without_status seg prepared | None \<Rightarrow> False)
                     then (Inr None, (self, tli, r))
                     else (case do_upload C W R prepared (self, tli, r) of
                             (Inl (Panic p), s) \<Rightarrow> (Inl (Panic p), s) | (_, s) \<Rightarrow> (Inr None, s))))"

subsection \<open>Names of segments\<close>

lemma fmt_dec_chars: "c \<in> set (fmt_dec n) \<Longrightarrow> 48 \<le> (of_char c :: nat) \<and> (of_char c :: nat) \<le> 57"
proof (induction n rule: fmt_dec.induct)
  case (1 n)
  then show ?case by (subst (asm) fmt_dec.simps) (auto split: if_splits)
qed

lemma str_replace_plain: "CHR ''_'' \<notin> set s \<Longrightarrow> str_replace (CHR ''_'' # pat) to s = s"
  by (induction s) auto

lemma str_replace_skip:
  "CHR ''s'' \<notin> set pre \<Longrightarrow> str_replace (''_sk'' @ x) to (pre @ CHR ''_'' # rest) = pre @ str_replace (''_sk'' @ x) to (CHR ''_'' # rest)"
proof (induction pre)
  case (Cons c pre)
  have "take (length (''_sk'' @ x)) ((c # pre) @ CHR ''_'' # rest) \<noteq> ''_sk'' @ x"
    using Cons.prems by (cases pre) auto
  then have "str_replace (''_sk'' @ x) to ((c # pre) @ CHR ''_'' # rest) = c # str_replace (''_sk'' @ x) to (pre @ CHR ''_'' # rest)"
    unfolding append_Cons [of c] str_replace.simps(2) [of _ _ c] by (simp only: if_False simp_thms)
  then show ?case using Cons.IH Cons.prems by simp
qed simp

lemma str_replace_hit:
  "str_replace (CHR ''_'' # pat) to ((CHR ''_'' # pat) @ rest) = to @ str_replace (CHR ''_'' # pat) to rest"
  by simp

lemma hex_no_s: "c \<in> set (fmt_0X w n) \<Longrightarrow> c \<noteq> CHR ''s'' \<and> c \<noteq> CHR ''/''"
  using hex_char_range [of 65 c w n] by (auto simp: fmt_0X_def)

lemma dec_no_s: "c \<in> set (fmt_dec n) \<Longrightarrow> c \<noteq> CHR ''s''"
  using fmt_dec_chars [of c n] by auto

lemma str_replace_name:
  assumes "CHR ''s'' \<notin> set pre"
  shows "str_replace (''_sk'' @ fmt_dec a) to (pre @ ''_sk'' @ fmt_dec a @ ''.partial'') = pre @ to @ ''.partial''"
  using str_replace_skip [OF assms, of "fmt_dec a" to "''sk'' @ fmt_dec a @ ''.partial''"]
    str_replace_hit [of "''sk'' @ fmt_dec a" to "''.partial''"] str_replace_plain [of "''.partial''" "''sk'' @ fmt_dec a" to]
  by simp

lemma segment_name_chars:
  "pbk_segment_name self segno = Inr name \<Longrightarrow> c \<in> set name \<Longrightarrow> c \<noteq> CHR ''s'' \<and> c \<noteq> CHR ''/''"
  unfolding pbk_segment_name_def XLogFileName_def
  by (auto simp: rbind_def rassert_def dest: hex_no_s split: sum.splits if_splits)

lemma remote_segment_name_Inr:
  assumes "remote_segment_name self segno t c f = Inr name"
  obtains pre where "CHR ''s'' \<notin> set pre" "name = pre @ ''_sk'' @ fmt_dec (unat (cf_my_id (pbk_conf self))) @ ''.partial''"
    "\<And>id. remote_segment_name (self\<lparr>pbk_conf := (pbk_conf self)\<lparr>cf_my_id := id\<rparr>\<rparr>) segno t c f =
      Inr (pre @ ''_sk'' @ fmt_dec (unat id) @ ''.partial'')"
    "pre \<noteq> []" "hd pre \<noteq> CHR ''/''"
proof -
  obtain seg where seg: "pbk_segment_name self segno = Inr seg"
    using assms by (auto simp: remote_segment_name_def rbind_def split: sum.splits)
  let ?pre = "seg @ ''_'' @ fmt_dec (unat t) @ ''_'' @ fmt_0X 16 (unat f) @ ''_'' @ fmt_0X 16 (unat c)"
  have chars: "x \<noteq> CHR ''s'' \<and> x \<noteq> CHR ''/''" if "x \<in> set seg" for x using segment_name_chars [OF seg that] .
  have "CHR ''s'' \<notin> set ?pre" using chars dec_no_s hex_no_s by fastforce
  moreover have "hd ?pre \<noteq> CHR ''/''" using chars by (cases seg) auto
  moreover have "pbk_segment_name (self\<lparr>pbk_conf := x\<rparr>) segno = Inr seg" for x using seg by (simp add: pbk_segment_name_def)
  ultimately show thesis using that [of ?pre] assms seg by (auto simp: remote_segment_name_def)
qed

lemma ends_with_append: "ends_with (a @ b) b"
  by (simp add: ends_with_def)

text \<open>C35: Handing a timeline over to another safekeeper renames its uploaded segment to the name
  that the other one would give it: the name of node \<open>source\<close> becomes the name computed with the identity
  \<open>destination\<close>, and the other segments and all positions stay.\<close>

theorem replace_uploaded_segment_renames:
  assumes "remote_segment_name self segno t c f = Inr (prs_name seg)" "cf_my_id (pbk_conf self) = source"
    and "prs_status seg = Uploaded" "\<forall>x \<in> set before. prs_status x \<noteq> Uploaded"
  shows "\<exists>name. remote_segment_name (self\<lparr>pbk_conf := (pbk_conf self)\<lparr>cf_my_id := destination\<rparr>\<rparr>) segno t c f = Inr name \<and>
    replace_uploaded_segment source destination (before @ seg # after) =
      Inr (Some (seg, seg\<lparr>prs_name := name\<rparr>), before @ seg\<lparr>prs_name := name\<rparr> # after)"
proof -
  obtain pre where pre: "CHR ''s'' \<notin> set pre" "prs_name seg = pre @ ''_sk'' @ fmt_dec (unat source) @ ''.partial''"
    "remote_segment_name (self\<lparr>pbk_conf := (pbk_conf self)\<lparr>cf_my_id := destination\<rparr>\<rparr>) segno t c f =
      Inr (pre @ ''_sk'' @ fmt_dec (unat destination) @ ''.partial'')"
    using remote_segment_name_Inr [OF assms(1)] assms(2) by metis
  have e: "ends_with (prs_name seg) (''sk'' @ fmt_dec (unat source) @ ''.partial'')"
    using ends_with_append [of "pre @ ''_''" "''sk'' @ fmt_dec (unat source) @ ''.partial''"] pre(2) by simp
  have r: "str_replace (''_sk'' @ fmt_dec (unat source)) (''_sk'' @ fmt_dec (unat destination)) (prs_name seg) =
      pre @ ''_sk'' @ fmt_dec (unat destination) @ ''.partial''"
    unfolding pre(2) str_replace_name [OF pre(1)] by simp
  have "replace_uploaded_segment source destination (before @ seg # after) =
      Inr (Some (seg, seg\<lparr>prs_name := pre @ ''_sk'' @ fmt_dec (unat destination) @ ''.partial''\<rparr>),
        before @ seg\<lparr>prs_name := pre @ ''_sk'' @ fmt_dec (unat destination) @ ''.partial''\<rparr> # after)"
    using assms(4) by (induction before) (simp_all add: assms(3) e [simplified] r [simplified] Let_def)
  with pre(3) show ?thesis by blast
qed

subsection \<open>What the remote storage must do\<close>

text \<open>The documented behaviour of the remote storage: a successful upload makes the object readable,
  and an object disappears only when its deletion was asked for; and while these calls run, the other tasks leave
  the timeline resident and its list of partial segments alone.\<close>

definition disk_segments :: "'c ctrl_storage \<Rightarrow> ('c, 'w, 's, 'h) timeline \<Rightarrow> partial_backup_state option" where
  "disk_segments C tli = (case sh_sk (tl_shared tli) of
     Loaded sk \<Rightarrow> Some (ps_partial_backup (pers C (sk_state sk))) | _ \<Rightarrow> None)"

definition remote_ok :: "'c ctrl_storage \<Rightarrow> (('c, 'w, 's, 'h) timeline, 'r) remote \<Rightarrow> bool" where
  "remote_ok C R \<longleftrightarrow>
     (\<forall>src p n tli r x tli' r'. rm_upload R src p n (tli, r) = (x, (tli', r')) \<longrightarrow>
        disk_segments C tli' = disk_segments C tli \<and> (\<forall>q. rm_has R r q \<longrightarrow> rm_has R r' q) \<and>
        (x = Inr () \<longrightarrow> rm_has R r' p)) \<and>
     (\<forall>ps tli r x tli' r'. rm_delete R ps (tli, r) = (x, (tli', r')) \<longrightarrow>
        disk_segments C tli' = disk_segments C tli \<and> (\<forall>q. q \<notin> set ps \<longrightarrow> rm_has R r q \<longrightarrow> rm_has R r' q))"

text \<open>The invariant: memory and control file agree, at most one segment is marked as uploaded, and the
  object of a segment so marked can be read.\<close>

definition relative_name :: "string \<Rightarrow> bool" where
  "relative_name n \<longleftrightarrow> n \<noteq> [] \<and> hd n \<noteq> CHR ''/''"

definition segments_ok :: "(string \<Rightarrow> bool) \<Rightarrow> string \<Rightarrow> partial_backup_state \<Rightarrow> bool" where
  "segments_ok has base segs \<longleftrightarrow>
     length (filter (\<lambda>seg. prs_status seg = Uploaded) segs) \<le> 1 \<and>
     (\<forall>seg \<in> set segs. relative_name (prs_name seg) \<and> (prs_status seg = Uploaded \<longrightarrow> has (prs_remote_path seg base)))"

definition pb_inv ::
  "'c ctrl_storage \<Rightarrow> (('c, 'w, 's, 'h) timeline, 'r) remote \<Rightarrow> ('c, 'w, 's, 'h, 'r) pb_world \<Rightarrow> bool" where
  "pb_inv C R = (\<lambda>(self, tli, r). disk_segments C tli = Some (pbk_state self) \<and>
     segments_ok (rm_has R r) (pbk_remote_timeline_path self) (pbk_state self))"

lemma path_join_relative_inj:
  "relative_name a \<Longrightarrow> relative_name b \<Longrightarrow> path_join p a = path_join p b \<longleftrightarrow> a = b"
  by (auto simp: path_join_def relative_name_def)

lemma segments_ok_mono:
  "segments_ok has base segs \<Longrightarrow> (\<And>q. has q \<Longrightarrow> has' q) \<Longrightarrow> segments_ok has' base segs"
  by (auto simp: segments_ok_def)

lemma commit_state_cases:
  assumes "commit_state (file_ctrl cc) W new_state (self, tli, r) = (x, s')"
    and "disk_segments (file_ctrl cc) tli = Some (pbk_state self)"
  obtains (stored) tli' where "x = Inr ()" "s' = (self\<lparr>pbk_state := new_state\<rparr>, tli', r)"
      "disk_segments (file_ctrl cc) tli' = Some new_state"
    | (failed) e tli' where "x = Inl e" "s' = (self, tli', r)" "disk_segments (file_ctrl cc) tli' = Some (pbk_state self)"
proof -
  let ?C = "file_ctrl cc"
  obtain sk where sk: "sh_sk (tl_shared tli) = Loaded sk" "ps_partial_backup (pers ?C (sk_state sk)) = pbk_state self"
    using assms(2) by (auto simp: disk_segments_def split: state_sk.splits)
  obtain y ts where f: "finish_change ?C ((start_change ?C (sk_state sk))\<lparr>ps_partial_backup := new_state\<rparr>) (sk_state sk) = (y, ts)"
    by fastforce
  have d: "disk_segments ?C (t\<lparr>tl_shared := sh\<lparr>sh_sk := Loaded (sk\<lparr>sk_state := ts\<rparr>)\<rparr>, tl_term_flush_lsn_watch := a,
      tl_commit_lsn_watch := b, tl_state_version := v\<rparr>) = Some (ps_partial_backup (pers ?C ts))"
    for t sh a b v by (simp add: disk_segments_def)
  have self: "self\<lparr>pbk_state := pbk_state self\<rparr> = self" by simp
  show thesis
  proof (cases y)
    case (Inl e)
    have "ps_partial_backup (pers ?C ts) = pbk_state self" using fctl.finish_change_Inl [OF f [unfolded Inl]] sk(2) by simp
    moreover have "x = Inl e \<and> (\<exists>t a b v. s' = (self, tli\<lparr>tl_shared := t\<lparr>sh_sk := Loaded (sk\<lparr>sk_state := ts\<rparr>)\<rparr>,
        tl_term_flush_lsn_watch := a, tl_commit_lsn_watch := b, tl_state_version := v\<rparr>, r))"
      using assms(1) self by (auto simp: commit_state_def map_control_file_def with_guard_def on_sk_def on_ssk_state_def sk f Inl
          abind_def guard_drop_def ssk_last_log_term_def monad_simps)
    ultimately show thesis using failed d by metis
  next
    case (Inr u)
    have "ps_partial_backup (pers ?C ts) = new_state" using fctl.finish_change_Inr [OF f [unfolded Inr]] by simp
    moreover have "x = Inr () \<and> (\<exists>t a b v. s' = (self\<lparr>pbk_state := new_state\<rparr>, tli\<lparr>tl_shared := t\<lparr>sh_sk := Loaded (sk\<lparr>sk_state := ts\<rparr>)\<rparr>,
        tl_term_flush_lsn_watch := a, tl_commit_lsn_watch := b, tl_state_version := v\<rparr>, r))"
      using assms(1) by (auto simp: commit_state_def map_control_file_def with_guard_def on_sk_def on_ssk_state_def sk f Inr
          abind_def guard_drop_def ssk_last_log_term_def monad_simps areturn_def)
    ultimately show thesis using stored d by metis
  qed
qed

lemma commit_state_inv:
  assumes "commit_state (file_ctrl cc) W new_state (self, tli, r) = (x, s')" "pb_inv (file_ctrl cc) R (self, tli, r)"
    and "segments_ok (rm_has R r) (pbk_remote_timeline_path self) new_state"
  shows "pb_inv (file_ctrl cc) R s' \<and>
    (x = Inr () \<longrightarrow> (\<exists>tli'. s' = (self\<lparr>pbk_state := new_state\<rparr>, tli', r)))"
  using assms(2,3) by (cases rule: commit_state_cases [OF assms(1)]) (auto simp: pb_inv_def)

lemma gc_plan_ok:
  assumes "segments_ok has base segs"
  obtains new del where "gc_plan segs = Inr (new, del)"
    "\<And>has'. (\<And>q. has q \<Longrightarrow> q \<notin> path_join base ` set del \<Longrightarrow> has' q) \<Longrightarrow>
       segments_ok has' base segs \<and> segments_ok has' base new"
proof -
  let ?up = "filter (\<lambda>seg. prs_status seg = Uploaded) segs"
  let ?del = "map prs_name (filter (\<lambda>seg. prs_status seg \<noteq> Uploaded) segs)"
  have rel: "\<forall>seg \<in> set segs. relative_name (prs_name seg)" using assms by (simp add: segments_ok_def)
  consider "?up = []" | s where "?up = [s]"
    using assms by (cases ?up) (auto simp: segments_ok_def)
  then show thesis
  proof cases
    case 1
    then show thesis using that [of ?up ?del] assms by (auto simp: gc_plan_def filter_empty_conv segments_ok_def)
  next
    case 2
    have "set ?up = {s}" by (simp only: 2 set_simps)
    then have s: "s \<in> set segs" "prs_status s = Uploaded"
      "seg \<in> set segs \<Longrightarrow> prs_status seg = Uploaded \<Longrightarrow> seg = s" for seg by auto
    have "relative_name (prs_name s)" using rel s by blast
    then have p1: "prs_remote_path s base \<notin> path_join base ` set (filter (\<lambda>n. n \<noteq> prs_name s) ?del)"
      using rel by (auto simp: prs_remote_path_def path_join_relative_inj)
    have p2: "has (prs_remote_path s base)" using assms s(1,2) by (auto simp: segments_ok_def)
    have ok: "segments_ok has' base segs \<and> segments_ok has' base ?up"
      if "\<And>q. has q \<Longrightarrow> q \<notin> path_join base ` set (filter (\<lambda>n. n \<noteq> prs_name s) ?del) \<Longrightarrow> has' q" for has'
    proof -
      have h: "has' (prs_remote_path s base)" using that [OF p2 p1] .
      then have "\<forall>seg \<in> set segs. relative_name (prs_name seg) \<and> (prs_status seg = Uploaded \<longrightarrow> has' (prs_remote_path seg base))"
        using rel s(3) by blast
      then show ?thesis using h rel s(1) by (simp add: segments_ok_def 2)
    qed
    have "gc_plan segs = Inr (?up, filter (\<lambda>n. n \<noteq> prs_name s) ?del)" by (simp add: gc_plan_def 2)
    then show thesis using that ok by blast
  qed
qed

lemma delete_segments_inv:
  assumes "remote_ok C R" "delete_segments R del (self, tli, r) = (x, s')" "disk_segments C tli = d"
  obtains tli' r' where "s' = (self, tli', r')" "disk_segments C tli' = d"
    "\<And>q. rm_has R r q \<Longrightarrow> q \<notin> path_join (pbk_remote_timeline_path self) ` set del \<Longrightarrow> rm_has R r' q"
proof -
  obtain y tli' r' where d: "rm_delete R (map (path_join (pbk_remote_timeline_path self)) del) (tli, r) = (y, (tli', r'))"
    by (metis prod.exhaust)
  then show thesis
    using that [of tli' r'] assms by (auto simp: remote_ok_def delete_segments_def)
qed

lemma gc_inv:
  assumes "remote_ok (file_ctrl cc) R" "pb_inv (file_ctrl cc) R s" "gc (file_ctrl cc) W R s = (x, s')"
  shows "pb_inv (file_ctrl cc) R s'"
proof -
  obtain self tli r where s: "s = (self, tli, r)" by (cases s) auto
  let ?base = "pbk_remote_timeline_path self"
  have ok: "segments_ok (rm_has R r) ?base (pbk_state self)" and disk: "disk_segments (file_ctrl cc) tli = Some (pbk_state self)"
    using assms(2) by (simp_all add: s pb_inv_def)
  obtain new del where p: "gc_plan (pbk_state self) = Inr (new, del)"
    "\<And>has'. (\<And>q. rm_has R r q \<Longrightarrow> q \<notin> path_join ?base ` set del \<Longrightarrow> has' q) \<Longrightarrow>
       segments_ok has' ?base (pbk_state self) \<and> segments_ok has' ?base new"
    using gc_plan_ok [OF ok] by blast
  obtain y s1 where d: "delete_segments R del (self, tli, r) = (y, s1)" by (cases "delete_segments R del (self, tli, r)")
  obtain tli1 r1 where s1: "s1 = (self, tli1, r1)" "disk_segments (file_ctrl cc) tli1 = Some (pbk_state self)"
    "segments_ok (rm_has R r1) ?base (pbk_state self)" "segments_ok (rm_has R r1) ?base new"
    using delete_segments_inv [OF assms(1) d disk] p(2) by metis
  then have i: "pb_inv (file_ctrl cc) R (self, tli1, r1)" by (simp add: pb_inv_def)
  show ?thesis
  proof (cases y)
    case Inl
    then show ?thesis using assms(3) d i s1(1) by (simp add: s gc_def p(1) abind_def)
  next
    case Inr
    then have "commit_state (file_ctrl cc) W new (self, tli1, r1) = (x, s')"
      using assms(3) d s1(1) by (simp add: s gc_def p(1) abind_def)
    from commit_state_inv [OF this i s1(4)] show ?thesis by blast
  qed
qed

lemma upload_segment_inv:
  assumes "remote_ok C R" "upload_segment C W R prepared (self, tli, r) = (x, s')" "pb_inv C R (self, tli, r)"
  obtains tli' r' where "s' = (self, tli', r')" "pb_inv C R s'" "\<And>q. rm_has R r q \<Longrightarrow> rm_has R r' q"
    "x = Inr () \<Longrightarrow> rm_has R r' (prs_remote_path prepared (pbk_remote_timeline_path self))"
proof (cases "rbind (pbk_segno self (prs_flush_lsn prepared)) (local_segment_name self)")
  case Inl
  then show thesis using that [of tli r] assms by (auto simp: upload_segment_def)
next
  case (Inr l)
  obtain y tli' r' where u: "rm_upload R l (prs_remote_path prepared (pbk_remote_timeline_path self))
      (unat (segment_offset (prs_flush_lsn prepared) (pbk_wal_seg_size self))) (tli, r) = (y, (tli', r'))"
    by (metis prod.exhaust)
  have R: "disk_segments C tli' = disk_segments C tli" "\<And>q. rm_has R r q \<Longrightarrow> rm_has R r' q"
    "y = Inr () \<Longrightarrow> rm_has R r' (prs_remote_path prepared (pbk_remote_timeline_path self))"
    using assms(1) u unfolding remote_ok_def by blast+
  have "pb_inv C R (self, tli', r')" using assms(3) R(1,2) segments_ok_mono by (auto simp: pb_inv_def)
  moreover have "s' = (self, tli', r')" "x = Inr () \<Longrightarrow> y = Inr ()"
    using assms(2) Inr u by (auto simp: upload_segment_def split: sum.splits)
  ultimately show thesis using that R by blast
qed

lemma do_upload_inv:
  assumes R: "remote_ok (file_ctrl cc) R" and i: "pb_inv (file_ctrl cc) R s"
    and p: "relative_name (prs_name prepared)" "prs_status prepared = InProgress"
    and u: "do_upload (file_ctrl cc) W R prepared s = (x, s')"
  shows "pb_inv (file_ctrl cc) R s'"
proof -
  let ?C = "file_ctrl cc"
  obtain self tli r where s: "s = (self, tli, r)" by (cases s) auto
  let ?s1 = "pbk_state self @ [prepared]" and ?base = "pbk_remote_timeline_path self"
  let ?s2 = "map (\<lambda>seg. seg\<lparr>prs_status := Deleting\<rparr>) (pbk_state self) @ [prepared\<lparr>prs_status := Uploaded\<rparr>]"
  have ok: "segments_ok (rm_has R r) ?base (pbk_state self)" using i by (simp add: s pb_inv_def)
  obtain y1 w1 where c1: "commit_state ?C W ?s1 (self, tli, r) = (y1, w1)" by (cases "commit_state ?C W ?s1 (self, tli, r)")
  have "segments_ok (rm_has R r) ?base ?s1" using ok p by (auto simp: segments_ok_def)
  from commit_state_inv [OF c1 i [unfolded s] this] have i1: "pb_inv ?C R w1"
    "y1 = Inr () \<Longrightarrow> \<exists>tli'. w1 = (self\<lparr>pbk_state := ?s1\<rparr>, tli', r)" by blast+
  show ?thesis
  proof (cases "y1 = Inr ()")
    case False
    then show ?thesis using u i1(1) c1 by (cases y1) (simp_all add: s do_upload_def abind_def)
  next
    case True
    then obtain tli1 where w1: "w1 = (self\<lparr>pbk_state := ?s1\<rparr>, tli1, r)" using i1(2) by blast
    obtain y2 w2 where u2: "upload_segment ?C W R prepared w1 = (y2, w2)" by (cases "upload_segment ?C W R prepared w1")
    obtain tli2 r2 where w2: "w2 = (self\<lparr>pbk_state := ?s1\<rparr>, tli2, r2)" "pb_inv ?C R w2"
      "y2 = Inr () \<Longrightarrow> rm_has R r2 (prs_remote_path prepared ?base)"
      by (rule upload_segment_inv [OF R u2 [unfolded w1] i1(1) [unfolded w1]], rule that) simp_all
    show ?thesis
    proof (cases "y2 = Inr ()")
      case False
      then show ?thesis using u w2(2) c1 u2 True by (cases y2) (simp_all add: s do_upload_def abind_def)
    next
      case up: True
      obtain y3 w3 where c3: "commit_state ?C W ?s2 w2 = (y3, w3)" by (cases "commit_state ?C W ?s2 w2")
      have "segments_ok (rm_has R r2) ?base ?s2"
        using ok p(1) w2(3) [OF up] by (auto simp: segments_ok_def prs_remote_path_def filter_empty_conv)
      then have "pb_inv ?C R w3" using commit_state_inv [OF c3 [unfolded w2(1)] w2(2) [unfolded w2(1)]] by auto
      then show ?thesis
        using u c1 u2 c3 True up gc_inv [OF R, of w3 W x s'] by (cases y3) (auto simp: s do_upload_def abind_def)
    qed
  qed
qed

lemma prepare_upload_name:
  "prepare_upload C W self tli = Inr prepared \<Longrightarrow> relative_name (prs_name prepared) \<and> prs_status prepared = InProgress"
  by (auto simp: prepare_upload_def rbind_def relative_name_def split: sum.splits elim!: remote_segment_name_Inr)

lemma reset_inv:
  assumes R: "remote_ok (file_ctrl cc) R" and i: "pb_inv (file_ctrl cc) R s"
    and u: "pbk_reset (file_ctrl cc) W R s = (x, s')"
  shows "pb_inv (file_ctrl cc) R s'"
proof -
  let ?C = "file_ctrl cc"
  obtain self tli r where s: "s = (self, tli, r)" by (cases s) auto
  obtain y1 w1 where c1: "commit_state ?C W [] (self, tli, r) = (y1, w1)" by (cases "commit_state ?C W [] (self, tli, r)")
  have "segments_ok (rm_has R r) (pbk_remote_timeline_path self) []" by (simp add: segments_ok_def)
  from commit_state_inv [OF c1 i [unfolded s] this] have i1: "pb_inv ?C R w1"
    "y1 = Inr () \<Longrightarrow> \<exists>tli'. w1 = (self\<lparr>pbk_state := []\<rparr>, tli', r)" by blast+
  show ?thesis
  proof (cases y1)
    case Inl
    then show ?thesis using u i1(1) c1 by (simp add: s pbk_reset_def abind_def)
  next
    case Inr
    then obtain tli1 where w1: "w1 = (self\<lparr>pbk_state := []\<rparr>, tli1, r)" using i1(2) by auto
    obtain y2 w2 where d: "delete_segments R (map prs_name (pbk_state self)) w1 = (y2, w2)"
      by (cases "delete_segments R (map prs_name (pbk_state self)) w1")
    have "disk_segments ?C tli1 = Some []" using i1(1) by (simp add: w1 pb_inv_def)
    then have "pb_inv ?C R w2"
      by (rule delete_segments_inv [OF R d [unfolded w1]]) (simp add: pb_inv_def segments_ok_def)
    then show ?thesis using u c1 d Inr by (cases y2) (simp_all add: s pbk_reset_def abind_def areturn_def)
  qed
qed

text \<open>C9: The partial backup never loses the segment it relies on. From a state in which at most one segment is
  marked as uploaded, its object can be read and memory agrees with the control file, the same holds after a
  round of the backup task, a garbage collection and a reset, whatever fails in between; and garbage collection
  never finds more than one uploaded segment.\<close>

theorem partial_backup_safe:
  assumes "remote_ok (file_ctrl cc) R" "pb_inv (file_ctrl cc) R s"
    and "\<And>tli. disk_segments (file_ctrl cc) (meanwhile tli) = disk_segments (file_ctrl cc) tli"
  shows "pb_inv (file_ctrl cc) R (snd (main_task_round (file_ctrl cc) W R meanwhile outcome s)) \<and>
    pb_inv (file_ctrl cc) R (snd (gc (file_ctrl cc) W R s)) \<and>
    pb_inv (file_ctrl cc) R (snd (pbk_reset (file_ctrl cc) W R s)) \<and>
    (\<exists>p. gc_plan (pbk_state (fst s)) = Inr p)"
proof (intro conjI)
  let ?C = "file_ctrl cc"
  show g: "pb_inv ?C R (snd (gc ?C W R s))" by (rule gc_inv [OF assms(1,2) prod.collapse [symmetric]])
  show "pb_inv ?C R (snd (pbk_reset ?C W R s))" by (rule reset_inv [OF assms(1,2) prod.collapse [symmetric]])
  show "\<exists>p. gc_plan (pbk_state (fst s)) = Inr p"
  proof -
    have "segments_ok (rm_has R (snd (snd s))) (pbk_remote_timeline_path (fst s)) (pbk_state (fst s))"
      using assms(2) by (auto simp: pb_inv_def)
    then show ?thesis by (rule gc_plan_ok) blast
  qed
  obtain self w where s: "s = (self, w)" by (cases s)
  obtain x self1 tli1 r1 where 1:
    "(if length (pbk_state self) > MAX_SIMULTANEOUS_SEGMENTS then gc ?C W R (self, w) else (Inr (), (self, w))) = (x, (self1, tli1, r1))"
    by (metis prod.exhaust)
  have i1: "pb_inv ?C R (self1, tli1, r1)" using 1 g assms(2) by (auto simp: s split: if_splits)
  then have i2: "pb_inv ?C R (self1, meanwhile tli1, r1)" by (simp add: pb_inv_def assms(3))
  have d: "pb_inv ?C R (snd (do_upload ?C W R prepared (self1, meanwhile tli1, r1)))"
    if "prepare_upload ?C W self1 (meanwhile tli1) = Inr prepared" for prepared
    using do_upload_inv [OF assms(1) i2 _ _ prod.collapse [symmetric]] prepare_upload_name [OF that] by blast
  show "pb_inv ?C R (snd (main_task_round ?C W R meanwhile outcome s))"
  proof (cases "\<exists>p. x = Inl (Panic p)")
    case True
    then show ?thesis using i1 by (auto simp: s main_task_round_def 1)
  next
    case False
    then have "main_task_round ?C W R meanwhile outcome s =
        (let uploaded = uploaded_segment (pbk_state self1)
         in if (case uploaded of Some seg \<Rightarrow> uploaded_is_current tli1 seg | None \<Rightarrow> False)
            then (Inr (Some uploaded), (self1, tli1, r1))
            else let tli = meanwhile tli1 in case outcome of
              Canceled \<Rightarrow> (Inr (Some None), (self1, tli, r1))
            | Segno_changed \<Rightarrow> (Inr None, (self1, tli, r1))
            | Timeout_expired \<Rightarrow>
                (case prepare_upload ?C W self1 tli of
                   Inl e \<Rightarrow> (Inl e, (self1, tli, r1))
                 | Inr prepared \<Rightarrow>
                     if (case uploaded of Some seg \<Rightarrow> eq_without_status seg prepared | None \<Rightarrow> False)
                     then (Inr None, (self1, tli, r1))
                     else (case do_upload ?C W R prepared (self1, tli, r1) of
                             (Inl (Panic p), s) \<Rightarrow> (Inl (Panic p), s) | (_, s) \<Rightarrow> (Inr None, s))))"
      by (cases x; cases "projl x") (simp_all add: s main_task_round_def 1)
    moreover have "pb_inv ?C R (snd (case do_upload ?C W R prepared (self1, meanwhile tli1, r1) of
        (Inl (Panic p), s) \<Rightarrow> (Inl (Panic p), s) | (_, s) \<Rightarrow> (Inr None, s)))"
      if "prepare_upload ?C W self1 (meanwhile tli1) = Inr prepared" for prepared
      using d [OF that] by (auto split: prod.splits sum.splits failure.splits)
    ultimately show ?thesis
      using i1 i2 by (auto simp: Let_def split: wait_outcome.split sum.split)
  qed
qed

subsection \<open>Instances\<close>

text \<open>A remote storage that holds a list of object paths.\<close>

definition object_list :: "('t, string list) remote" where
  "object_list = \<lparr>rm_upload = (\<lambda>_ p _ (t, r). (Inr (), (t, p # r))),
     rm_delete = (\<lambda>ps (t, r). (Inr (), (t, filter (\<lambda>q. q \<notin> set ps) r))), rm_has = (\<lambda>r p. p \<in> set r)\<rparr>"

lemma object_list_ok: "remote_ok C object_list"
  by (auto simp: remote_ok_def object_list_def)

definition demo_backup :: partial_backup where
  "demo_backup = \<lparr>pbk_wal_seg_size = 0x1000000, pbk_conf = \<lparr>cf_my_id = 1, cf_advertise_pg_addr = None,
     cf_listen_pg_addr = ''127.0.0.1:5454'', cf_listen_http_addr = ''127.0.0.1:7676'', cf_listen_https_addr = None\<rparr>,
     pbk_remote_timeline_path = ''tenant/timeline'', pbk_state = []\<rparr>"

theorem partial_backup_safe_witness:
  "pb_inv (file_ctrl (demo_codec example_state)) object_list (demo_backup, demo_timeline, []) \<and>
   pb_inv (file_ctrl (demo_codec example_state)) object_list
     (snd (main_task_round (file_ctrl (demo_codec example_state)) demo_wal object_list id Timeout_expired (demo_backup, demo_timeline, [])))"
proof
  show i: "pb_inv (file_ctrl (demo_codec example_state)) object_list (demo_backup, demo_timeline, [])"
    by (simp add: pb_inv_def segments_ok_def disk_segments_def demo_timeline_def shared_state_new_def demo_backup_def
        demo_sk_def file_ctrl_def demo_store_def example_state_def)
  show "pb_inv (file_ctrl (demo_codec example_state)) object_list
     (snd (main_task_round (file_ctrl (demo_codec example_state)) demo_wal object_list id Timeout_expired (demo_backup, demo_timeline, [])))"
    using partial_backup_safe [OF object_list_ok i, of id] by simp
qed

theorem replace_uploaded_segment_renames_witness:
  "\<exists>name name'. remote_segment_name demo_backup 3 7 0x3000100 0x3000200 = Inr name \<and>
     remote_segment_name (demo_backup\<lparr>pbk_conf := (pbk_conf demo_backup)\<lparr>cf_my_id := 2\<rparr>\<rparr>) 3 7 0x3000100 0x3000200 = Inr name' \<and>
     replace_uploaded_segment 1 2 [\<lparr>prs_status = Uploaded, prs_name = name, prs_commit_lsn = 0x3000100,
         prs_flush_lsn = 0x3000200, prs_term = 7\<rparr>] =
       Inr (Some (\<lparr>prs_status = Uploaded, prs_name = name, prs_commit_lsn = 0x3000100, prs_flush_lsn = 0x3000200, prs_term = 7\<rparr>,
           \<lparr>prs_status = Uploaded, prs_name = name', prs_commit_lsn = 0x3000100, prs_flush_lsn = 0x3000200, prs_term = 7\<rparr>),
         [\<lparr>prs_status = Uploaded, prs_name = name', prs_commit_lsn = 0x3000100, prs_flush_lsn = 0x3000200, prs_term = 7\<rparr>])"
proof -
  obtain name where n: "remote_segment_name demo_backup 3 7 0x3000100 0x3000200 = Inr name"
    by (simp add: remote_segment_name_def pbk_segment_name_def XLogFileName_def XLogSegmentsPerXLogId_def demo_backup_def)
  let ?seg = "\<lparr>prs_status = Uploaded, prs_name = name, prs_commit_lsn = 0x3000100, prs_flush_lsn = 0x3000200, prs_term = 7\<rparr>"
  have "cf_my_id (pbk_conf demo_backup) = 1" by (simp add: demo_backup_def)
  moreover have "remote_segment_name demo_backup 3 7 0x3000100 0x3000200 = Inr (prs_name ?seg)" using n by simp
  ultimately show ?thesis
    using replace_uploaded_segment_renames [of demo_backup 3 7 "0x3000100" "0x3000200" ?seg 1 "[]" 2 "[]"] n by auto
qed

end
