(* ===== verification/WalBackup.thy ===== *)
theory WalBackup
  imports PartialBackup "HOL-Library.Multiset"
begin

text \<open>
  What the background tasks of a timeline decide and do with whole segments: the snapshot of the state the manager works on
  (safekeeper/src/timeline_manager.rs), the horizon up to which local WAL may be removed (remove_wal.rs), the election
  of the safekeeper that offloads and the offloading of a range of segments (wal_backup.rs). The upload of a
  segment is an argument that gives its outcome.
\<close>

subsection \<open>The snapshot\<close>

record state_snapshot =
  sn_commit_lsn :: lsn
  sn_backup_lsn :: lsn
  sn_remote_consistent_lsn :: lsn
  sn_cfile_commit_lsn :: lsn
  sn_cfile_remote_consistent_lsn :: lsn
  sn_cfile_backup_lsn :: lsn
  sn_flush_lsn :: lsn
  sn_last_log_term :: term_no
  sn_cfile_last_persist_at :: nat
  sn_inmem_flush_pending :: bool
  sn_wal_removal_on_hold :: bool
  sn_peers :: "peer_info list"

definition has_unflushed_inmem_state :: "'c ctrl_storage \<Rightarrow> 'c timeline_state \<Rightarrow> bool" where
  "has_unflushed_inmem_state C s \<longleftrightarrow>
     im_commit_lsn (ts_inmem s) > ps_commit_lsn (pers C s) \<or> im_backup_lsn (ts_inmem s) > ps_backup_lsn (pers C s) \<or>
     im_peer_horizon_lsn (ts_inmem s) > ps_peer_horizon_lsn (pers C s) \<or>
     im_remote_consistent_lsn (ts_inmem s) > ps_remote_consistent_lsn (pers C s)"

definition state_snapshot_new ::
  "'c ctrl_storage \<Rightarrow> 'w wal_storage \<Rightarrow> nat \<Rightarrow> nat \<Rightarrow> nat \<Rightarrow> ('c, 'w) shared_state \<Rightarrow> state_snapshot res" where
  "state_snapshot_new C W last_persist_at now heartbeat_timeout sh =
     rbind (ssk_state (sh_sk sh)) (\<lambda>s.
     rbind (ssk_flush_lsn C W (sh_sk sh)) (\<lambda>flush_lsn.
     rbind (ssk_last_log_term C W (sh_sk sh)) (\<lambda>last_log_term.
     Inr \<lparr>sn_commit_lsn = im_commit_lsn (ts_inmem s), sn_backup_lsn = im_backup_lsn (ts_inmem s),
       sn_remote_consistent_lsn = im_remote_consistent_lsn (ts_inmem s), sn_cfile_commit_lsn = ps_commit_lsn (pers C s),
       sn_cfile_remote_consistent_lsn = ps_remote_consistent_lsn (pers C s), sn_cfile_backup_lsn = ps_backup_lsn (pers C s),
       sn_flush_lsn = flush_lsn, sn_last_log_term = last_log_term, sn_cfile_last_persist_at = last_persist_at,
       sn_inmem_flush_pending = has_unflushed_inmem_state C s, sn_wal_removal_on_hold = sh_wal_removal_on_hold sh,
       sn_peers = get_peers now heartbeat_timeout sh\<rparr>)))"

subsection \<open>Decisions\<close>

definition calc_horizon_lsn :: "state_snapshot \<Rightarrow> lsn option \<Rightarrow> lsn" where
  "calc_horizon_lsn state extra_horizon_lsn =
     (let horizon_lsn = sn_cfile_remote_consistent_lsn state;
          horizon_lsn = min horizon_lsn (sn_cfile_backup_lsn state);
          horizon_lsn = min horizon_lsn (sn_cfile_commit_lsn state);
          horizon_lsn = min horizon_lsn (sn_flush_lsn state)
      in case extra_horizon_lsn of Some e \<Rightarrow> min horizon_lsn e | None \<Rightarrow> horizon_lsn)"

definition is_wal_backup_required :: "u64 \<Rightarrow> nat \<Rightarrow> state_snapshot \<Rightarrow> bool" where
  "is_wal_backup_required wal_seg_size num_computes state \<longleftrightarrow>
     num_computes > 0 \<or> segment_number (sn_commit_lsn state) wal_seg_size > segment_number (sn_backup_lsn state) wal_seg_size"

definition needs_uploading :: "state_snapshot \<Rightarrow> partial_remote_segment option \<Rightarrow> bool" where
  "needs_uploading state uploaded = (case uploaded of
     Some u \<Rightarrow> prs_status u \<noteq> Uploaded \<or> prs_flush_lsn u \<noteq> sn_flush_lsn state \<or>
       prs_commit_lsn u \<noteq> sn_commit_lsn state \<or> prs_term u \<noteq> sn_last_log_term state
   | None \<Rightarrow> True)"

text \<open>The election; the explanation string for the log is left out. Sorting is stable.\<close>

definition determine_offloader :: "peer_info list \<Rightarrow> lsn \<Rightarrow> id \<Rightarrow> u64 \<Rightarrow> node_id option res" where
  "determine_offloader alive_peers wal_backup_lsn timeline_id max_offloader_lag_bytes =
     (let capable_peers = filter (\<lambda>p. pi_local_start_lsn p \<le> wal_backup_lsn) alive_peers
      in case map pi_commit_lsn capable_peers of
           [] \<Rightarrow> Inr None
         | c # cs \<Rightarrow>
             let max_commit_lsn = foldl max c cs;
                 threshold = (case checked_sub max_commit_lsn max_offloader_lag_bytes of Some t \<Rightarrow> t | None \<Rightarrow> 0);
                 caughtup_peers = sort_key pi_sk_id (filter (\<lambda>p. pi_commit_lsn p \<ge> threshold) capable_peers)
             in rbind (rassert (caughtup_peers \<noteq> []) ''attempt to calculate the remainder with a divisor of zero'') (\<lambda>_.
                Inr (Some (pi_sk_id (caughtup_peers ! (unat (id_to_u128 timeline_id) mod length caughtup_peers))))))"

subsection \<open>Offloading a range\<close>

record wal_segment =
  sg_seg_no :: seg_no
  sg_start_lsn :: lsn
  sg_end_lsn :: lsn

definition segment_size :: "wal_segment \<Rightarrow> u64" where
  "segment_size self = sg_end_lsn self - sg_start_lsn self"

definition object_name :: "wal_segment \<Rightarrow> string res" where
  "object_name self = XLogFileName PG_TLI (sg_seg_no self) (segment_size self)"

definition segment_remote_path :: "wal_segment \<Rightarrow> string \<Rightarrow> string res" where
  "segment_remote_path self base = rbind (object_name self) (\<lambda>name. Inr (path_join base name))"

definition get_segments :: "lsn \<Rightarrow> lsn \<Rightarrow> u64 \<Rightarrow> wal_segment list" where
  "get_segments start end_lsn seg_size =
     map (\<lambda>s. \<lparr>sg_seg_no = of_nat s, sg_start_lsn = XLogSegNoOffsetToRecPtr (of_nat s) 0 seg_size,
            sg_end_lsn = XLogSegNoOffsetToRecPtr (of_nat s + 1) 0 seg_size\<rparr>)
       [unat (segment_number start seg_size) ..< unat (segment_number end_lsn seg_size)]"

text \<open>The loop with its pool of uploads, which finish in the order they were added. The state is the
  local \<open>backup_lsn\<close> and the timeline. A finished upload is recorded before the next one is looked at.\<close>

definition upload_finished ::
  "'c ctrl_storage \<Rightarrow> 'w wal_storage \<Rightarrow> (wal_segment \<Rightarrow> unit res) \<Rightarrow> wal_segment \<Rightarrow> (lsn \<times> ('c, 'w, 's, 'h) timeline, unit) act" where
  "upload_finished C W upload segment = (\<lambda>(backup_lsn, tli).
     case upload segment of
       Inl e \<Rightarrow> (Inl e, (backup_lsn, tli))
     | Inr _ \<Rightarrow> (case set_wal_backup_lsn C W (sg_end_lsn segment) tli of
         (Inl e, tli) \<Rightarrow> (Inl e, (backup_lsn, tli))
       | (Inr _, tli) \<Rightarrow> (Inr (), (sg_end_lsn segment, tli))))"

function backup_loop ::
  "'c ctrl_storage \<Rightarrow> 'w wal_storage \<Rightarrow> (wal_segment \<Rightarrow> unit res) \<Rightarrow> nat \<Rightarrow> wal_segment list \<Rightarrow> wal_segment list \<Rightarrow>
     (lsn \<times> ('c, 'w, 's, 'h) timeline, unit) act" where
  "backup_loop C W upload parallel_jobs iter uploads s =
     (let added_task = (iter \<noteq> []);
          (iter, uploads) = (case iter of seg # rest \<Rightarrow> (rest, uploads @ [seg]) | [] \<Rightarrow> ([], uploads))
      in if \<not> added_task \<or> length uploads \<ge> parallel_jobs then
           case uploads of
             [] \<Rightarrow> (Inr (), s)
           | seg # uploads \<Rightarrow> abind (upload_finished C W upload seg) (\<lambda>_. backup_loop C W upload parallel_jobs iter uploads) s
         else backup_loop C W upload parallel_jobs iter uploads s)"
  by pat_completeness auto
termination
  by (relation "measure (\<lambda>(_, _, _, _, iter, uploads, _). 2 * length iter + length uploads)")
    (auto split: list.splits dest: arg_cong [where f = length])

declare backup_loop.simps [simp del]

definition backup_lsn_range ::
  "'c ctrl_storage \<Rightarrow> 'w wal_storage \<Rightarrow> (wal_segment \<Rightarrow> unit res) \<Rightarrow> lsn \<Rightarrow> u64 \<Rightarrow> nat \<Rightarrow>
     (lsn \<times> ('c, 'w, 's, 'h) timeline, unit) act" where
  "backup_lsn_range C W upload end_lsn wal_seg_size parallel_jobs = (\<lambda>(backup_lsn, tli).
     if parallel_jobs < 1 then (Inl (Bail ''parallel_jobs must be >= 1''), (backup_lsn, tli))
     else if wal_seg_size = 0 then (Inl (Panic ''attempt to divide by zero''), (backup_lsn, tli))
     else backup_loop C W upload parallel_jobs (get_segments backup_lsn end_lsn wal_seg_size) [] (backup_lsn, tli))"

text \<open>One round of the offload task after a wait: nothing to do, or the range up to the commit position.
  The result tells whether the next wait is a retry.\<close>

definition backup_round ::
  "'c ctrl_storage \<Rightarrow> 'w wal_storage \<Rightarrow> (wal_segment \<Rightarrow> unit res) \<Rightarrow> lsn \<Rightarrow> u64 \<Rightarrow> nat \<Rightarrow>
     (lsn \<times> ('c, 'w, 's, 'h) timeline, bool) act" where
  "backup_round C W upload commit_lsn wal_seg_size parallel_jobs = (\<lambda>(backup_lsn, tli).
     if segment_number backup_lsn wal_seg_size \<ge> segment_number commit_lsn wal_seg_size then (Inr False, (backup_lsn, tli))
     else case ssk_state (sh_sk (tl_shared tli)) of
       Inl e \<Rightarrow> (Inl e, (backup_lsn, tli))
     | Inr s \<Rightarrow>
         let backup_lsn = im_backup_lsn (ts_inmem s)
         in if segment_number backup_lsn wal_seg_size \<ge> segment_number commit_lsn wal_seg_size
            then (Inr False, (backup_lsn, tli))
            else case backup_lsn_range C W upload commit_lsn wal_seg_size parallel_jobs (backup_lsn, tli) of
              (Inl (Panic p), s) \<Rightarrow> (Inl (Panic p), s)
            | (Inl _, s) \<Rightarrow> (Inr True, s)
            | (Inr _, s) \<Rightarrow> (Inr False, s))"

subsection \<open>The pool of uploads does not change the outcome\<close>

text \<open>The reference: one segment after the other, until the first error.\<close>

fun backup_seq ::
  "'c ctrl_storage \<Rightarrow> 'w wal_storage \<Rightarrow> (wal_segment \<Rightarrow> unit res) \<Rightarrow> wal_segment list \<Rightarrow>
     (lsn \<times> ('c, 'w, 's, 'h) timeline, unit) act" where
  "backup_seq C W upload [] = areturn ()"
| "backup_seq C W upload (seg # segs) = abind (upload_finished C W upload seg) (\<lambda>_. backup_seq C W upload segs)"

lemma backup_loop_seq:
  "backup_loop C W upload jobs iter uploads s = backup_seq C W upload (uploads @ iter) s"
proof (induction C W upload jobs iter uploads s rule: backup_loop.induct)
  case (1 C W upload jobs iter uploads s)
  have c: "abind m f t = abind m g t" if "\<And>x t'. m t = (Inr x, t') \<Longrightarrow> f x t' = g x t'"
    for m :: "(lsn \<times> ('a, 'b, 'c, 'd) timeline, unit) act" and f g :: "unit \<Rightarrow> (lsn \<times> ('a, 'b, 'c, 'd) timeline, unit) act" and t
    using that by (auto simp: abind_def split: prod.splits sum.splits)
  show ?case
  proof (cases "iter = []")
    case True
    then show ?thesis
      using 1(1) [OF refl refl] by (cases uploads) (auto simp: backup_loop.simps [of _ _ _ _ "[]"] areturn_def intro!: c)
  next
    case False
    then obtain seg rest where i: "iter = seg # rest" by (cases iter) auto
    show ?thesis
    proof (cases "length (uploads @ [seg]) \<ge> jobs")
      case True
      obtain seg1 more where u: "uploads @ [seg] = seg1 # more" by (cases "uploads @ [seg]") auto
      have "uploads @ iter = seg1 # more @ rest" using u by (metis append.assoc append_Cons append_Nil i)
      moreover have "backup_loop C W upload jobs iter uploads s = backup_seq C W upload (seg1 # more @ rest) s"
        using 1(1) [OF refl refl, of rest "uploads @ [seg]" seg1 more] True u
        by (subst backup_loop.simps) (auto simp: i intro!: c)
      ultimately show ?thesis by simp
    next
      case False
      then show ?thesis
        using 1(2) [OF refl refl] by (subst backup_loop.simps) (simp add: i)
    qed
  qed
qed

lemma upload_finished_cases:
  assumes "upload_finished C W upload seg (b, tli) = (x, (b', tli'))"
  shows "(x = Inr () \<and> b' = sg_end_lsn seg \<and> upload seg = Inr ()) \<or> (\<exists>e. x = Inl e \<and> b' = b)"
proof (cases "upload seg")
  case (Inl e)
  have "x = Inl e \<and> b' = b" using assms unfolding upload_finished_def prod.case Inl sum.case by simp
  then show ?thesis by blast
next
  case (Inr u)
  then show ?thesis using assms by (auto simp: upload_finished_def split: sum.splits prod.splits)
qed

lemma backup_seq_prefix:
  assumes "backup_seq C W upload segs (b, tli) = (x, (b', tli'))"
  shows "\<exists>k \<le> length segs. (\<forall>seg \<in> set (take k segs). upload seg = Inr ()) \<and>
    b' = (if k = 0 then b else sg_end_lsn (segs ! (k - 1))) \<and> (x = Inr () \<longrightarrow> k = length segs)"
  using assms
proof (induction segs arbitrary: b tli)
  case (Cons seg segs)
  obtain y b1 tli1 where u: "upload_finished C W upload seg (b, tli) = (y, (b1, tli1))" by (metis prod.exhaust)
  show ?case
  proof (cases y)
    case Inl
    then show ?thesis using Cons.prems u upload_finished_cases [OF u] by (auto simp: abind_def intro!: exI [of _ 0])
  next
    case Inr
    then have "backup_seq C W upload segs (b1, tli1) = (x, (b', tli'))" using Cons.prems u by (simp add: abind_def)
    from Cons.IH [OF this] obtain k where k: "k \<le> length segs" "\<forall>seg \<in> set (take k segs). upload seg = Inr ()"
      "b' = (if k = 0 then b1 else sg_end_lsn (segs ! (k - 1)))" "x = Inr () \<longrightarrow> k = length segs" by blast
    have "b1 = sg_end_lsn seg" "upload seg = Inr ()" using upload_finished_cases [OF u] Inr by auto
    with k show ?thesis by (intro exI [of _ "Suc k"]) (auto simp: nth_Cons')
  qed
qed (auto simp: areturn_def)

lemma unat_of_nat64: "n < 2 ^ 64 \<Longrightarrow> unat (of_nat n :: u64) = n"
  by (simp add: unat_of_nat take_bit_eq_mod)

lemma get_segments_nth:
  assumes "sz \<noteq> 0" "i < length (get_segments b e sz)"
  shows "unat (sg_start_lsn (get_segments b e sz ! i)) = (unat (segment_number b sz) + i) * unat sz \<and>
    unat (sg_end_lsn (get_segments b e sz ! i)) = (unat (segment_number b sz) + i + 1) * unat sz \<and>
    unat (sg_seg_no (get_segments b e sz ! i)) = unat (segment_number b sz) + i \<and>
    (unat (segment_number b sz) + i + 1) * unat sz \<le> unat e"
proof -
  let ?a = "unat (segment_number b sz)" and ?n = "unat (segment_number b sz) + i"
  have n: "?n + 1 \<le> unat (segment_number e sz)" using assms(2) by (simp add: get_segments_def)
  have "unat (segment_number e sz) * unat sz \<le> unat e"
    by (simp add: segment_number_def unat_div)
  then have e: "(?n + 1) * unat sz \<le> unat e" using n mult_le_mono1 order_trans by blast
  have e64: "unat e < 2 ^ 64" and s64: "unat (segment_number e sz) < 2 ^ 64"
    using unat_lt_2p [of e] unat_lt_2p [of "segment_number e sz"] by simp_all
  have lt: "(?n + 1) * unat sz < 2 ^ 64" by (rule le_less_trans [OF e e64])
  have lt': "?n * unat sz < 2 ^ 64" by (rule le_less_trans [OF _ lt]) simp
  have "?n + 1 < 2 ^ 64" by (rule le_less_trans [OF n s64])
  then have "unat (of_nat ?n :: u64) = ?n" "unat (of_nat (?n + 1) :: u64) = ?n + 1"
    by (intro unat_of_nat64; linarith)+
  then have w: "unat (of_nat ?n :: u64) = ?n" "unat (of_nat ?n + 1 :: u64) = ?n + 1" by (simp_all add: add.commute)
  have m: "unat (x * sz) = unat x * unat sz" if "unat x * unat sz < 2 ^ 64" for x :: u64
    using that by (simp add: unat_word_ariths)
  have "get_segments b e sz ! i = \<lparr>sg_seg_no = of_nat ?n, sg_start_lsn = of_nat ?n * sz, sg_end_lsn = (of_nat ?n + 1) * sz\<rparr>"
    using assms(2) by (simp add: get_segments_def XLogSegNoOffsetToRecPtr_def)
  then show ?thesis using m [of "of_nat ?n"] m [of "of_nat ?n + 1"] w lt lt' e by simp
qed

text \<open>C20: Offloading with any number of parallel uploads gives the same result, the same backup position and the same
  timeline as offloading the segments of the range one after the other until the first error.\<close>

theorem backup_range_sequential:
  assumes "0 < jobs" "sz \<noteq> 0"
  shows "backup_lsn_range C W upload e sz jobs (b, tli) = backup_seq C W upload (get_segments b e sz) (b, tli)"
  using assms by (simp add: backup_lsn_range_def backup_loop_seq)

lemma backup_range_cases:
  assumes "backup_lsn_range C W upload e sz jobs (b, tli) = (x, (b', tli'))" "sz \<noteq> 0"
  shows "(x = Inl (Bail ''parallel_jobs must be >= 1'') \<and> b' = b) \<or>
    (\<exists>k \<le> length (get_segments b e sz). (\<forall>seg \<in> set (take k (get_segments b e sz)). upload seg = Inr ()) \<and>
      b' = (if k = 0 then b else sg_end_lsn (get_segments b e sz ! (k - 1))) \<and>
      (x = Inr () \<longrightarrow> k = length (get_segments b e sz)))"
proof (cases "jobs < 1")
  case True
  then show ?thesis using assms by (auto simp: backup_lsn_range_def)
next
  case False
  then show ?thesis
    using assms backup_seq_prefix [of C W upload "get_segments b e sz" b tli x b' tli']
    by (simp add: backup_lsn_range_def backup_loop_seq)
qed

lemma segment_holds: "sz \<noteq> 0 \<Longrightarrow> unat (segment_number l sz) * unat sz \<le> unat l \<and> unat l < (unat (segment_number l sz) + 1) * unat sz"
proof -
  assume "sz \<noteq> 0"
  then have "unat l mod unat sz < unat sz" by (simp add: unat_gt_0)
  moreover have "unat l = unat l div unat sz * unat sz + unat l mod unat sz" by simp
  ultimately show ?thesis unfolding segment_number_def unat_div distrib_right mult_1 by linarith
qed

text \<open>C13: The backup position moves only over uploaded WAL. Whatever uploads fail, every position between the old and
  the new backup position lies in a segment of the range whose upload succeeded, and the new
  position is at most the end of the range; when the call succeeds, it is in the segment of the end.\<close>

theorem backup_range_uploaded:
  assumes r: "backup_lsn_range C W upload e sz jobs (b, tli) = (x, (b', tli'))" and sz: "sz \<noteq> 0"
  shows "(\<forall>l. b \<le> l \<and> l < b' \<longrightarrow> (\<exists>seg \<in> set (get_segments b e sz).
      sg_start_lsn seg \<le> l \<and> l < sg_end_lsn seg \<and> upload seg = Inr ())) \<and>
    (b' = b \<or> b' \<le> e) \<and>
    (x = Inr () \<and> segment_number b sz < segment_number e sz \<longrightarrow> segment_number b' sz = segment_number e sz)"
  using backup_range_cases [OF r sz]
proof (elim disjE exE conjE)
  fix k let ?segs = "get_segments b e sz" and ?a = "unat (segment_number b sz)"
  assume k: "k \<le> length ?segs" "\<forall>seg \<in> set (take k ?segs). upload seg = Inr ()"
    "b' = (if k = 0 then b else sg_end_lsn (?segs ! (k - 1)))" "x = Inr () \<longrightarrow> k = length ?segs"
  note nth = get_segments_nth [OF sz, of _ b e]
  have b': "unat b' = (?a + k) * unat sz" "unat b' \<le> unat e" if "0 < k"
    using nth [of "k - 1"] k(1,3) that by auto
  have "\<exists>seg \<in> set ?segs. sg_start_lsn seg \<le> l \<and> l < sg_end_lsn seg \<and> upload seg = Inr ()" if l: "b \<le> l" "l < b'" for l
  proof -
    have pos: "0 < k" using l k(3) by (cases k) auto
    define i where "i = unat (segment_number l sz) - ?a"
    have ge: "?a \<le> unat (segment_number l sz)"
      using l(1) by (simp add: segment_number_def unat_div word_le_nat_alt div_le_mono)
    have "unat (segment_number l sz) * unat sz < (?a + k) * unat sz"
      using segment_holds [OF sz, of l] l(2) b'(1) [OF pos] by (metis le_less_trans word_less_nat_alt)
    then have "unat (segment_number l sz) < ?a + k" by simp
    then have i: "i < k" "unat (segment_number l sz) = ?a + i" using ge unfolding i_def by linarith+
    then have "?segs ! i \<in> set (take k ?segs)" using k(1) by (auto simp: in_set_conv_nth intro!: exI [of _ i])
    moreover have "sg_start_lsn (?segs ! i) \<le> l \<and> l < sg_end_lsn (?segs ! i)"
      using nth [of i] segment_holds [OF sz, of l] i k(1) by (simp add: word_le_nat_alt word_less_nat_alt)
    ultimately show ?thesis using k(2) by (meson in_set_takeD)
  qed
  moreover have "b' = b \<or> b' \<le> e" using b'(2) k(3) by (cases k) (auto simp: word_le_nat_alt)
  moreover have "segment_number b' sz = segment_number e sz" if "x = Inr ()" "segment_number b sz < segment_number e sz"
  proof -
    have "k = unat (segment_number e sz) - ?a" "0 < k"
      using that k(4) by (auto simp: get_segments_def word_less_nat_alt)
    then have "unat b' = unat (segment_number e sz) * unat sz" using b'(1) by auto
    moreover have "0 < unat sz" using sz by (simp add: unat_gt_0)
    ultimately have "unat (segment_number b' sz) = unat (segment_number e sz)"
      unfolding segment_number_def [of b'] unat_div by simp
    then show ?thesis by (simp only: word_unat_eq_iff)
  qed
  ultimately show ?thesis by blast
qed auto

theorem backup_range_sequential_witness:
  "0 < (3 :: nat) \<and> (16 :: u64) \<noteq> 0 \<and>
   backup_lsn_range (file_ctrl (demo_codec example_state)) demo_wal (\<lambda>_. Inr ()) 40 16 3 (5, demo_timeline) =
   backup_seq (file_ctrl (demo_codec example_state)) demo_wal (\<lambda>_. Inr ()) (get_segments 5 40 16) (5, demo_timeline)"
  by (simp add: backup_range_sequential)

theorem backup_range_uploaded_witness:
  "\<exists>x b' tli'. backup_lsn_range (file_ctrl (demo_codec example_state)) demo_wal
       (\<lambda>seg. if sg_seg_no seg = 0 then Inr () else Inl (Bail ''timeout'')) 40 16 2 (5, demo_timeline) = (x, (b', tli')) \<and>
     (\<forall>l. 5 \<le> l \<and> l < b' \<longrightarrow> (\<exists>seg \<in> set (get_segments 5 40 16). sg_start_lsn seg \<le> l \<and> l < sg_end_lsn seg \<and>
        (if sg_seg_no seg = 0 then Inr () else Inl (Bail ''timeout'')) = Inr ())) \<and> (b' = 5 \<or> b' \<le> 40)"
proof -
  obtain x b' tli' where r: "backup_lsn_range (file_ctrl (demo_codec example_state)) demo_wal
      (\<lambda>seg. if sg_seg_no seg = 0 then Inr () else Inl (Bail ''timeout'')) 40 16 2 (5, demo_timeline) = (x, (b', tli'))"
    by (metis prod.exhaust)
  have "(16 :: u64) \<noteq> 0" by simp
  from backup_range_uploaded [OF r this] r show ?thesis by blast
qed

subsection \<open>The election of the offloader\<close>

lemma foldl_max: "foldl max c cs = Max (set (c # cs))" for c :: "'a::linorder"
proof (induction cs arbitrary: c)
  case (Cons d cs)
  have "foldl max c (d # cs) = Max (set (max c d # cs))" using Cons.IH [of "max c d"] by simp
  also have "\<dots> = Max (insert c (insert d (set cs)))" by (cases "cs = []") (simp_all add: max.assoc)
  finally show ?case by simp
qed simp

lemma sort_key_unique:
  assumes "distinct (map f xs)" "distinct (map f ys)" "set xs = set ys"
  shows "sort_key f xs = sort_key f ys"
proof (rule map_sorted_distinct_set_unique [where f = f])
  have "inj_on f (set xs)" "inj_on f (set ys)" using assms by (simp_all add: distinct_map)
  then show "inj_on f (set (sort_key f xs) \<union> set (sort_key f ys))" using assms(3) by simp
  have d: "distinct (map f (sort_key f zs)) = distinct (map f zs)" for zs
    by (metis distinct_map distinct_sort set_sort)
  show "distinct (map f (sort_key f xs))" "distinct (map f (sort_key f ys))" using assms d by blast+
qed (use assms in simp_all)

definition capable :: "lsn \<Rightarrow> peer_info list \<Rightarrow> peer_info list" where
  "capable backup_lsn peers = filter (\<lambda>p. pi_local_start_lsn p \<le> backup_lsn) peers"

lemma determine_offloader_nonempty:
  assumes "capable l peers \<noteq> []"
  shows "\<exists>p \<in> set (capable l peers). determine_offloader peers l t lag = Inr (Some (pi_sk_id p)) \<and>
    (\<forall>q \<in> set (capable l peers). unat (pi_commit_lsn q) \<le> unat (pi_commit_lsn p) + unat lag)"
proof -
  obtain c cs where cs: "map pi_commit_lsn (capable l peers) = c # cs"
    using assms by (cases "map pi_commit_lsn (capable l peers)") auto
  define m where "m = foldl max c cs"
  have m: "m = Max (pi_commit_lsn ` set (capable l peers))"
    unfolding m_def foldl_max cs [symmetric] by simp
  define th where "th = (case checked_sub m lag of Some t \<Rightarrow> t | None \<Rightarrow> 0)"
  define caught where "caught = sort_key pi_sk_id (filter (\<lambda>p. pi_commit_lsn p \<ge> th) (capable l peers))"
  have th: "unat m \<le> unat th + unat lag" "th \<le> m"
    by (auto simp: th_def checked_sub_def unat_sub word_le_nat_alt split: if_splits)
  have "m \<in> pi_commit_lsn ` set (capable l peers)" unfolding m by (rule Max_in) (use assms in auto)
  then have ne: "caught \<noteq> []" using th(2) by (auto simp: caught_def filter_empty_conv simp flip: set_empty)
  let ?p = "caught ! (unat (id_to_u128 t) mod length caught)"
  have "?p \<in> set caught" using ne by simp
  then have p: "?p \<in> set (capable l peers)" "th \<le> pi_commit_lsn ?p" by (auto simp: caught_def)
  have "unat (pi_commit_lsn q) \<le> unat m" if "q \<in> set (capable l peers)" for q
    unfolding m word_le_nat_alt [symmetric] using that by simp
  then have "\<forall>q \<in> set (capable l peers). unat (pi_commit_lsn q) \<le> unat (pi_commit_lsn ?p) + unat lag"
    using th(1) p(2) by (fastforce simp: word_le_nat_alt)
  moreover have "length (filter (\<lambda>p. th \<le> pi_commit_lsn p) (capable l peers)) = length caught" by (simp add: caught_def)
  then have "determine_offloader peers l t lag = Inr (Some (pi_sk_id ?p))"
    using ne cs by (simp add: determine_offloader_def capable_def [symmetric] m_def [symmetric] th_def [symmetric]
        caught_def [symmetric] Let_def)
  ultimately show ?thesis using p(1) by blast
qed

lemma determine_offloader_set:
  assumes "distinct (map pi_sk_id peers)" "distinct (map pi_sk_id peers')" "set peers = set peers'"
  shows "determine_offloader peers l t lag = determine_offloader peers' l t lag"
proof (cases "capable l peers = []")
  case True
  then have "capable l peers' = []" using assms(3) by (auto simp: capable_def filter_empty_conv)
  with True show ?thesis by (simp add: determine_offloader_def capable_def [symmetric])
next
  case False
  have s: "set (capable l peers) = set (capable l peers')" using assms(3) by (simp add: capable_def)
  obtain c cs c' cs' where c: "map pi_commit_lsn (capable l peers) = c # cs" "map pi_commit_lsn (capable l peers') = c' # cs'"
    using False s by (cases "map pi_commit_lsn (capable l peers)"; cases "map pi_commit_lsn (capable l peers')") auto
  have m: "foldl max c cs = foldl max c' cs'"
    unfolding foldl_max c [symmetric] using s by simp
  have "sort_key pi_sk_id (filter P (capable l peers)) = sort_key pi_sk_id (filter P (capable l peers'))" for P
    by (rule sort_key_unique) (use assms s in \<open>simp_all add: capable_def distinct_map_filter\<close>)
  then show ?thesis using c m by (simp add: determine_offloader_def capable_def [symmetric] Let_def)
qed

text \<open>C24: Safekeepers with the same view elect the same offloader: for peers with distinct identities the result
  does not depend on their order. It never fails; there is none exactly when no peer has the
  WAL from the backup position on, and the elected one has it and lags behind the most advanced of these
  by at most the configured number of bytes.\<close>

theorem offloader_agreed:
  assumes "distinct (map pi_sk_id peers)" "mset peers = mset peers'"
  shows "determine_offloader peers l t lag = determine_offloader peers' l t lag \<and>
    (if \<forall>p \<in> set peers. l < pi_local_start_lsn p then determine_offloader peers l t lag = Inr None
     else \<exists>p \<in> set peers. determine_offloader peers l t lag = Inr (Some (pi_sk_id p)) \<and> pi_local_start_lsn p \<le> l \<and>
       (\<forall>q \<in> set peers. pi_local_start_lsn q \<le> l \<longrightarrow> unat (pi_commit_lsn q) \<le> unat (pi_commit_lsn p) + unat lag))"
proof
  have "distinct (map pi_sk_id peers')" using assms by (metis mset_eq_imp_distinct_iff mset_map)
  with assms show "determine_offloader peers l t lag = determine_offloader peers' l t lag"
    by (intro determine_offloader_set) (auto dest: mset_eq_setD)
  show "if \<forall>p \<in> set peers. l < pi_local_start_lsn p then determine_offloader peers l t lag = Inr None
     else \<exists>p \<in> set peers. determine_offloader peers l t lag = Inr (Some (pi_sk_id p)) \<and> pi_local_start_lsn p \<le> l \<and>
       (\<forall>q \<in> set peers. pi_local_start_lsn q \<le> l \<longrightarrow> unat (pi_commit_lsn q) \<le> unat (pi_commit_lsn p) + unat lag)"
  proof (cases "capable l peers = []")
    case True
    then show ?thesis
      by (simp add: determine_offloader_def capable_def [symmetric]) (simp add: capable_def filter_empty_conv not_le)
  next
    case False
    with determine_offloader_nonempty [OF False, of t lag] show ?thesis
      by (auto simp: capable_def filter_empty_conv not_le)
  qed
qed

theorem offloader_agreed_witness:
  "\<exists>p q. pi_sk_id p \<noteq> pi_sk_id q \<and> determine_offloader [p, q] 10 (replicate 16 2) 5 = determine_offloader [q, p] 10 (replicate 16 2) 5"
proof -
  define mk where "mk i c = \<lparr>pi_sk_id = i, pi_term = 1, pi_last_log_term = 1, pi_flush_lsn = c, pi_commit_lsn = c,
    pi_local_start_lsn = 8, pi_ts = 0, pi_pg_connstr = '''', pi_http_connstr = '''', pi_https_connstr = None\<rparr>" for i c
  have "distinct (map pi_sk_id [mk 1 20, mk 2 22])" "mset [mk 1 20, mk 2 22] = mset [mk 2 22, mk 1 20]"
    by (simp_all add: mk_def)
  from offloader_agreed [OF this, of 10 "replicate 16 2" 5] show ?thesis
    by (intro exI [of _ "mk 1 20"] exI [of _ "mk 2 22"]) (simp add: mk_def)
qed

end
