(* ===== verification/Manager.thy ===== *)
theory Manager
  imports WalBackup
begin

text \<open>
  The manager of a timeline (safekeeper/src/timeline_manager.rs), the guards that keep a timeline resident
  (timeline_guard.rs) and eviction (timeline_eviction.rs). The manager is the record \<open>manager\<close>; a background task is
  the flag that it runs. Clocks, the outcome of file comparisons and downloads, the gate of the timeline and the rate limiter
  are the record \<open>mgr_env\<close> of arguments. An operation that starts a task or answers a request returns the
  identifiers of the guards it issued.
\<close>

subsection \<open>Residence guards\<close>

record access_service =
  ac_next_guard_id :: u64
  ac_guards :: "u64 set"

definition access_service_new :: access_service where
  "access_service_new = \<lparr>ac_next_guard_id = 0, ac_guards = {}\<rparr>"

definition ac_is_empty :: "access_service \<Rightarrow> bool" where
  "ac_is_empty self \<longleftrightarrow> ac_guards self = {}"

definition create_guard :: "access_service \<Rightarrow> u64 \<times> access_service" where
  "create_guard self = (ac_next_guard_id self,
     \<lparr>ac_next_guard_id = ac_next_guard_id self + 1, ac_guards = insert (ac_next_guard_id self) (ac_guards self)\<rparr>)"

definition drop_guard :: "u64 \<Rightarrow> (access_service, unit) act" where
  "drop_guard guard_id self =
     (if guard_id \<in> ac_guards self then (Inr (), self\<lparr>ac_guards := ac_guards self - {guard_id}\<rparr>)
      else (Inl (Panic ''assertion failed: self.guards.remove(&guard_id.0)''), self))"

subsection \<open>The manager\<close>

record mgr_conf =
  mc_conf :: sk_conf
  mc_remote_storage :: bool
  mc_wal_backup_enabled :: bool
  mc_max_offloader_lag_bytes :: u64
  mc_walsenders_keep_horizon :: bool
  mc_control_file_save_interval :: nat
  mc_heartbeat_timeout :: nat
  mc_enable_offload :: bool
  mc_delete_offloaded_wal :: bool

definition is_wal_backup_enabled :: "mgr_conf \<Rightarrow> bool" where
  "is_wal_backup_enabled self \<longleftrightarrow> mc_remote_storage self \<and> mc_wal_backup_enabled self"

record manager =
  mg_conf :: mgr_conf
  mg_timeline_id :: id
  mg_wal_seg_size :: u64
  mg_tli_broker_active :: bool
  mg_last_removed_segno :: seg_no
  mg_is_offloaded :: bool
  mg_backup_task :: bool
  mg_recovery_task :: bool
  mg_wal_removal_task :: "seg_no option"
  mg_partial_backup_task :: bool
  mg_partial_backup_uploaded :: "partial_remote_segment option"
  mg_access_service :: access_service
  mg_evict_not_before :: nat

record mgr_env =
  me_now :: nat
  me_last_persist_at :: nat
  me_gate_open :: bool
  me_permit :: bool
  me_evict_again_at :: nat
  me_compare :: "unit res"
  me_delete :: "unit res"

definition manager_new ::
  "'c ctrl_storage \<Rightarrow> mgr_conf \<Rightarrow> nat \<Rightarrow> bool \<Rightarrow> ('c, 'w, 's, 'h) timeline \<Rightarrow> manager res" where
  "manager_new C conf evict_not_before broker_active tli =
     rbind (bootstrap_mgr C (tl_shared tli)) (\<lambda>(is_offloaded, partial_backup_uploaded).
     rbind (ssk_state (sh_sk (tl_shared tli))) (\<lambda>s.
     Inr \<lparr>mg_conf = conf, mg_timeline_id = ps_timeline_id (pers C s),
       mg_wal_seg_size = ucast (si_wal_seg_size (ps_server (pers C s))), mg_tli_broker_active = broker_active,
       mg_last_removed_segno = 0, mg_is_offloaded = is_offloaded, mg_backup_task = False, mg_recovery_task = False,
       mg_wal_removal_task = None, mg_partial_backup_task = False, mg_partial_backup_uploaded = partial_backup_uploaded,
       mg_access_service = access_service_new, mg_evict_not_before = evict_not_before\<rparr>))"

text \<open>\<open>wal_resident_timeline\<close> gives the guard of the resident timeline.\<close>

definition wal_resident_timeline :: "bool \<Rightarrow> (manager, u64) act" where
  "wal_resident_timeline gate_open self =
     (if mg_is_offloaded self then (Inl (Panic ''assertion failed: !self.is_offloaded''), self)
      else if \<not> gate_open then (Inl (Bail ''Timeline shutting down''), self)
      else case create_guard (mg_access_service self) of (g, ac) \<Rightarrow> (Inr g, self\<lparr>mg_access_service := ac\<rparr>))"

text \<open>Start of a task with a resident timeline: when the timeline is shutting down, nothing happens.\<close>

definition spawn_resident :: "bool \<Rightarrow> (manager \<Rightarrow> manager) \<Rightarrow> (manager, u64 list) act" where
  "spawn_resident gate_open f self = (case wal_resident_timeline gate_open self of
     (Inl (Panic p), self) \<Rightarrow> (Inl (Panic p), self)
   | (Inl _, self) \<Rightarrow> (Inr [], self)
   | (Inr g, self) \<Rightarrow> (Inr [g], f self))"

definition update_task :: "bool \<Rightarrow> bool \<Rightarrow> state_snapshot \<Rightarrow> (manager, u64 list) act" where
  "update_task gate_open need_backup state self =
     (case determine_offloader (sn_peers state) (sn_backup_lsn state) (mg_timeline_id self)
         (mc_max_offloader_lag_bytes (mg_conf self)) of
        Inl e \<Rightarrow> (Inl e, self)
      | Inr offloader \<Rightarrow>
          let elected_me = (offloader = Some (cf_my_id (mc_conf (mg_conf self))));
              should_task_run = (need_backup \<and> elected_me)
          in if should_task_run = mg_backup_task self then (Inr [], self)
             else if should_task_run then spawn_resident gate_open (\<lambda>self. self\<lparr>mg_backup_task := True\<rparr>) self
             else (Inr [], self\<lparr>mg_backup_task := False\<rparr>))"

definition update_backup :: "bool \<Rightarrow> nat \<Rightarrow> state_snapshot \<Rightarrow> (manager, bool \<times> u64 list) act" where
  "update_backup gate_open num_computes state self =
     (if num_computes = 0 \<and> mg_wal_seg_size self = 0 then (Inl (Panic ''attempt to divide by zero''), self)
      else
        let required = is_wal_backup_required (mg_wal_seg_size self) num_computes state
        in if is_wal_backup_enabled (mg_conf self)
           then abind (update_task gate_open required state) (\<lambda>gs. areturn (required, gs)) self
           else (Inr (required, []), self))"

definition update_is_active :: "bool \<Rightarrow> nat \<Rightarrow> state_snapshot \<Rightarrow> manager \<Rightarrow> manager" where
  "update_is_active required num_computes state self =
     self\<lparr>mg_tli_broker_active := (required \<or> num_computes > 0 \<or> sn_remote_consistent_lsn state < sn_commit_lsn state)\<rparr>"

definition update_next_event :: "nat \<Rightarrow> nat option \<Rightarrow> nat option" where
  "update_next_event candidate next_event = (case next_event of
     Some next \<Rightarrow> Some (if candidate < next then candidate else next) | None \<Rightarrow> Some candidate)"

text \<open>Saving the control file: the next event and what happens to the timeline. An error of the flush is
  only logged.\<close>

definition update_control_file_save ::
  "'c ctrl_storage \<Rightarrow> 'w wal_storage \<Rightarrow> nat \<Rightarrow> state_snapshot \<Rightarrow> manager \<Rightarrow> nat option \<Rightarrow>
     (('c, 'w, 's, 'h) timeline, nat option) act" where
  "update_control_file_save C W now state self next_event tli =
     (if \<not> sn_inmem_flush_pending state then (Inr next_event, tli)
      else if now - sn_cfile_last_persist_at state > mc_control_file_save_interval (mg_conf self)
         \<or> lsn_saturating_sub (sn_commit_lsn state) (sn_cfile_commit_lsn state) \<ge> mg_wal_seg_size self
      then case with_guard C W (on_sk (on_ssk_state (ts_flush C))) tli of
          (Inl (Panic p), tli) \<Rightarrow> (Inl (Panic p), tli)
        | (_, tli) \<Rightarrow> (Inr next_event, tli)
      else (Inr (update_next_event (sn_cfile_last_persist_at state + mc_control_file_save_interval (mg_conf self)) next_event),
            tli))"

text \<open>The removal task is started with the last segment it removes, and reports it at its end.\<close>

definition update_wal_removal ::
  "bool \<Rightarrow> state_snapshot \<Rightarrow> ('c, 'w, 's, 'h) timeline \<Rightarrow> (manager, unit) act" where
  "update_wal_removal gate_open state tli self =
     (if mg_wal_removal_task self \<noteq> None \<or> sn_wal_removal_on_hold state then (Inr (), self)
      else if mg_wal_seg_size self = 0 then (Inl (Panic ''attempt to divide by zero''), self)
      else
        let replication_horizon_lsn =
              (if mc_walsenders_keep_horizon (mg_conf self) then laggard_lsn (tl_walsenders tli) else None);
            removal_horizon_lsn = calc_horizon_lsn state replication_horizon_lsn;
            removal_horizon_segno = saturating_sub (segment_number removal_horizon_lsn (mg_wal_seg_size self)) 1
        in if removal_horizon_segno > mg_last_removed_segno self then
             if \<not> gate_open then (Inr (), self)
             else case sh_sk (tl_shared tli) of
               Loaded sk \<Rightarrow> (Inr (), self\<lparr>mg_wal_removal_task := Some removal_horizon_segno\<rparr>)
             | Evicted _ \<Rightarrow> (Inr (), self)
             | Empty_sk \<Rightarrow> (unreachable, self)
           else (Inr (), self))"

definition update_wal_removal_end :: "seg_no res \<Rightarrow> manager \<Rightarrow> manager" where
  "update_wal_removal_end res self =
     (case res of Inr segno \<Rightarrow> self\<lparr>mg_last_removed_segno := segno\<rparr> | Inl _ \<Rightarrow> self)"

definition update_partial_backup :: "bool \<Rightarrow> state_snapshot \<Rightarrow> (manager, u64 list) act" where
  "update_partial_backup gate_open state self =
     (if \<not> is_wal_backup_enabled (mg_conf self) \<or> mg_partial_backup_task self
         \<or> \<not> needs_uploading state (mg_partial_backup_uploaded self) then (Inr [], self)
      else spawn_resident gate_open (\<lambda>self. self\<lparr>mg_partial_backup_task := True\<rparr>) self)"

definition update_partial_backup_end :: "partial_remote_segment option res \<Rightarrow> manager \<Rightarrow> manager" where
  "update_partial_backup_end res self =
     (case res of Inr u \<Rightarrow> self\<lparr>mg_partial_backup_uploaded := u\<rparr> | Inl _ \<Rightarrow> self)"

subsection \<open>Eviction\<close>

definition ready_for_eviction :: "nat option \<Rightarrow> state_snapshot \<Rightarrow> manager \<Rightarrow> bool res" where
  "ready_for_eviction next_event state self =
     (if mg_backup_task self \<or> mg_recovery_task self \<or> mg_wal_removal_task self \<noteq> None \<or> mg_partial_backup_task self
         \<or> next_event \<noteq> None \<or> \<not> ac_is_empty (mg_access_service self) \<or> mg_tli_broker_active self
         \<or> needs_uploading state (mg_partial_backup_uploaded self) then Inr False
      else case mg_partial_backup_uploaded self of
        None \<Rightarrow> Inl (Panic ''called Option::unwrap() on a None value'')
      | Some u \<Rightarrow>
          rbind (rassert (mg_wal_seg_size self \<noteq> 0) ''attempt to divide by zero'') (\<lambda>_.
          Inr (segment_number (prs_flush_lsn u) (mg_wal_seg_size self) = mg_last_removed_segno self + 1)))"

text \<open>\<open>evict_timeline\<close> and \<open>unevict_timeline\<close>; the comparison of the local with the remote segment, the
  download and the deletion of the local file are outcomes. A failure after the switch leaves the manager
  in the new state.\<close>

definition evict_timeline ::
  "'c ctrl_storage \<Rightarrow> 'w wal_storage \<Rightarrow> mgr_env \<Rightarrow> (manager \<times> ('c, 'w, 's, 'h) timeline, bool) act" where
  "evict_timeline C W env = (\<lambda>(self, tli).
     if mg_is_offloaded self then (Inl (Panic ''assertion failed: !self.is_offloaded''), (self, tli))
     else case mg_partial_backup_uploaded self of
       None \<Rightarrow> (Inr False, (self, tli))
     | Some partial \<Rightarrow>
         (case me_compare env of
            Inl _ \<Rightarrow> (Inr False, (self, tli))
          | Inr _ \<Rightarrow>
              (case switch_to_offloaded C W partial tli of
                 (Inl (Panic p), tli) \<Rightarrow> (Inl (Panic p), (self, tli))
               | (Inl _, tli) \<Rightarrow> (Inr False, (self, tli))
               | (Inr _, tli) \<Rightarrow>
                   (Inr (if mc_delete_offloaded_wal (mg_conf self) then me_delete env = Inr () else True),
                    (self\<lparr>mg_is_offloaded := True\<rparr>, tli)))))"

definition unevict_timeline ::
  "'c ctrl_storage \<Rightarrow> 'w wal_storage \<Rightarrow> (timeline_persistent_state \<Rightarrow> 'w res) \<Rightarrow> unit res \<Rightarrow> unit res \<Rightarrow> nat \<Rightarrow>
     (manager \<times> ('c, 'w, 's, 'h) timeline, unit) act" where
  "unevict_timeline C W open_wal compare download evict_not_before = (\<lambda>(self, tli).
     if \<not> mg_is_offloaded self then (Inl (Panic ''assertion failed: self.is_offloaded''), (self, tli))
     else if mg_partial_backup_uploaded self = None \<or> compare \<noteq> Inr () \<or> download \<noteq> Inr () then (Inr (), (self, tli))
     else case switch_to_present C W open_wal (cf_my_id (mc_conf (mg_conf self))) tli of
         (Inl (Panic p), tli) \<Rightarrow> (Inl (Panic p), (self, tli))
       | (Inl _, tli) \<Rightarrow> (Inr (), (self, tli))
       | (Inr _, tli) \<Rightarrow> (Inr (), (self\<lparr>mg_is_offloaded := False, mg_evict_not_before := evict_not_before\<rparr>, tli)))"

text \<open>The last part of a round: eviction when it is enabled, due and possible.\<close>

definition try_evict ::
  "'c ctrl_storage \<Rightarrow> 'w wal_storage \<Rightarrow> mgr_env \<Rightarrow> state_snapshot \<Rightarrow> nat option \<Rightarrow>
     (manager \<times> ('c, 'w, 's, 'h) timeline, nat option) act" where
  "try_evict C W env state next_event = (\<lambda>(self, tli).
     let next_event = (if mg_evict_not_before self > me_now env
           then update_next_event (mg_evict_not_before self) next_event else next_event)
     in if \<not> mc_enable_offload (mg_conf self) \<or> mg_evict_not_before self > me_now env then (Inr next_event, (self, tli))
        else case ready_for_eviction next_event state self of
          Inl e \<Rightarrow> (Inl e, (self, tli))
        | Inr False \<Rightarrow> (Inr next_event, (self, tli))
        | Inr True \<Rightarrow>
            abind (if me_permit env then evict_timeline C W env else areturn False) (\<lambda>evicted (self, tli).
              if evicted then (Inr next_event, (self, tli))
              else (Inr (update_next_event (me_evict_again_at env) next_event),
                    (self\<lparr>mg_evict_not_before := me_evict_again_at env\<rparr>, tli))) (self, tli))"

text \<open>A round of the main loop up to the wait; the result is the time of the next event and the guards.\<close>

definition mgr_round ::
  "'c ctrl_storage \<Rightarrow> 'w wal_storage \<Rightarrow> mgr_env \<Rightarrow> (manager \<times> ('c, 'w, 's, 'h) timeline, nat option \<times> u64 list) act" where
  "mgr_round C W env = (\<lambda>(self, tli).
     case state_snapshot_new C W (me_last_persist_at env) (me_now env) (mc_heartbeat_timeout (mg_conf self)) (tl_shared tli) of
       Inl e \<Rightarrow> (Inl e, (self, tli))
     | Inr state \<Rightarrow>
         if mg_is_offloaded self then (Inr (None, []), (self, tli))
         else
           let num_computes = wrv_num_computes (tl_walreceivers tli)
           in case update_backup (me_gate_open env) num_computes state self of
             (Inl e, self) \<Rightarrow> (Inl e, (self, tli))
           | (Inr (required, gs), self) \<Rightarrow>
             let self = update_is_active required num_computes state self
             in (case update_control_file_save C W (me_now env) state self None tli of
             (Inl e, tli) \<Rightarrow> (Inl e, (self, tli))
           | (Inr next_event, tli) \<Rightarrow> (case update_wal_removal (me_gate_open env) state tli self of
             (Inl e, self) \<Rightarrow> (Inl e, (self, tli))
           | (Inr _, self) \<Rightarrow> (case update_partial_backup (me_gate_open env) state self of
             (Inl e, self) \<Rightarrow> (Inl e, (self, tli))
           | (Inr gs', self) \<Rightarrow>
               abind (try_evict C W env state next_event) (\<lambda>next_event. areturn (next_event, gs @ gs')) (self, tli)))))"

subsection \<open>Messages\<close>

text \<open>The state is the manager, the timeline and the remote storage.\<close>

type_synonym ('c, 'w, 's, 'h, 'r) mgr_world = "manager \<times> ('c, 'w, 's, 'h) timeline \<times> 'r"

text \<open>A reset of the partial backup: cancelling and awaiting the backup task is the end of that task. The
  result is the guard of the timeline that the reset works on, which is dropped after it, and the outcome
  of the reset.\<close>

definition backup_partial_reset ::
  "'c ctrl_storage \<Rightarrow> 'w wal_storage \<Rightarrow> (('c, 'w, 's, 'h) timeline, 'r) remote \<Rightarrow> string \<Rightarrow>
     (timeline_persistent_state \<Rightarrow> 'w res) \<Rightarrow> mgr_env \<Rightarrow> (('c, 'w, 's, 'h, 'r) mgr_world, u64 list \<times> string list res) act" where
  "backup_partial_reset C W R remote_path open_wal env = (\<lambda>(self, tli, r).
     case (if mg_is_offloaded self
           then switch_to_present C W open_wal (cf_my_id (mc_conf (mg_conf self))) tli else (Inr (), tli)) of
       (Inl (Panic p), tli) \<Rightarrow> (Inl (Panic p), (self, tli, r))
     | (Inl e, tli) \<Rightarrow> (Inr ([], Inl e), (self, tli, r))
     | (Inr _, tli) \<Rightarrow>
         (case wal_resident_timeline (me_gate_open env) (self\<lparr>mg_is_offloaded := False, mg_partial_backup_task := False\<rparr>) of
            (Inl (Panic p), self) \<Rightarrow> (Inl (Panic p), (self, tli, r))
          | (Inl e, self) \<Rightarrow> (Inr ([], Inl e), (self, tli, r))
          | (Inr g, self) \<Rightarrow>
              (case partial_backup_new C remote_path (mc_conf (mg_conf self)) tli of
                 Inl e \<Rightarrow> (Inl e, (self, tli, r))
               | Inr partial_backup \<Rightarrow>
                   (case pbk_reset C W R (partial_backup, tli, r) of
                      (Inl (Panic p), (_, tli, r)) \<Rightarrow> (Inl (Panic p), (self, tli, r))
                    | (x, (_, tli, r)) \<Rightarrow> (Inr ([g], x), (self\<lparr>mg_partial_backup_uploaded := None\<rparr>, tli, r))))))"

datatype mgr_ctl_message = GuardRequest | TryGuardRequest | GuardDrop u64 | BackupPartialReset

text \<open>The guards that were issued are the result.\<close>

definition issue_guard :: "mgr_env \<Rightarrow> (manager, u64 list) act" where
  "issue_guard env self =
     (if mg_is_offloaded self \<or> \<not> me_gate_open env then (Inr [], self)
      else case create_guard (mg_access_service self) of (g, ac) \<Rightarrow> (Inr [g], self\<lparr>mg_access_service := ac\<rparr>))"

definition handle_message ::
  "'c ctrl_storage \<Rightarrow> 'w wal_storage \<Rightarrow> (('c, 'w, 's, 'h) timeline, 'r) remote \<Rightarrow> string \<Rightarrow>
     (timeline_persistent_state \<Rightarrow> 'w res) \<Rightarrow> mgr_env \<Rightarrow> unit res \<Rightarrow> mgr_ctl_message \<Rightarrow>
     (('c, 'w, 's, 'h, 'r) mgr_world, u64 list) act" where
  "handle_message C W R remote_path open_wal env download msg = (case msg of
     GuardRequest \<Rightarrow> (\<lambda>(self, tli, r).
       case (if mg_is_offloaded self
             then unevict_timeline C W open_wal (me_compare env) download (me_evict_again_at env) (self, tli)
             else (Inr (), (self, tli))) of
         (Inl e, (self, tli)) \<Rightarrow> (Inl e, (self, tli, r))
       | (Inr _, (self, tli)) \<Rightarrow> (case issue_guard env self of (x, self) \<Rightarrow> (x, (self, tli, r))))
   | TryGuardRequest \<Rightarrow> (\<lambda>(self, tli, r). case issue_guard env self of (x, self) \<Rightarrow> (x, (self, tli, r)))
   | GuardDrop g \<Rightarrow> (\<lambda>(self, w). case drop_guard g (mg_access_service self) of
       (Inl e, ac) \<Rightarrow> (Inl e, (self, w)) | (Inr _, ac) \<Rightarrow> (Inr [], (self\<lparr>mg_access_service := ac\<rparr>, w)))
   | BackupPartialReset \<Rightarrow> abind (backup_partial_reset C W R remote_path open_wal env) (\<lambda>(gs, _). areturn gs))"

subsection \<open>A guard keeps the timeline resident\<close>

definition is_loaded :: "('c, 'w, 's, 'h) timeline \<Rightarrow> bool" where
  "is_loaded tli \<longleftrightarrow> (case sh_sk (tl_shared tli) of Loaded _ \<Rightarrow> True | _ \<Rightarrow> False)"

text \<open>What can happen to a manager, with the guards that are held or whose drop was not handled yet. Other tasks work on
  the timeline meanwhile, but only the manager evicts it or loads it again. Guard identifiers have 64 bits;
  the runs are those that do not use them up.\<close>

definition guards_left :: "nat \<Rightarrow> manager \<Rightarrow> bool" where
  "guards_left n m \<longleftrightarrow> unat (ac_next_guard_id (mg_access_service m)) + n < 2 ^ 64"

inductive mgr_run ::
  "cf_codec \<Rightarrow> 'w wal_storage \<Rightarrow> ((file_storage, 'w, 's, 'h) timeline, 'r) remote \<Rightarrow> string \<Rightarrow>
     (timeline_persistent_state \<Rightarrow> 'w res) \<Rightarrow> (file_storage, 'w, 's, 'h, 'r) mgr_world \<Rightarrow> u64 set \<Rightarrow> bool"
  for cc W R rp ow where
  start: "shared_state_restore (file_ctrl cc) cs ow my_id = Inr (tl_shared tli) \<Longrightarrow>
     manager_new (file_ctrl cc) conf t ba tli = Inr m \<Longrightarrow> mgr_run cc W R rp ow (m, tli, r) {}"
| round: "mgr_run cc W R rp ow (m, tli, r) live \<Longrightarrow>
     mgr_round (file_ctrl cc) W env (m, tli) = (Inr (ev, gs), (m', tli')) \<Longrightarrow>
     guards_left 2 m \<Longrightarrow> mgr_run cc W R rp ow (m', tli', r) (live \<union> set gs)"
| message: "mgr_run cc W R rp ow (m, w) live \<Longrightarrow> (\<And>g. msg = GuardDrop g \<Longrightarrow> g \<in> live) \<Longrightarrow>
     handle_message (file_ctrl cc) W R rp ow env dl msg (m, w) = (Inr gs, (m', w')) \<Longrightarrow>
     guards_left 1 m \<Longrightarrow> mgr_run cc W R rp ow (m', w') (live - {g. msg = GuardDrop g} \<union> set gs)"
| recovery: "mgr_run cc W R rp ow (m, w) live \<Longrightarrow> \<not> mg_is_offloaded m \<Longrightarrow>
     spawn_resident gate (\<lambda>m. m\<lparr>mg_recovery_task := True\<rparr>) m = (Inr gs, m') \<Longrightarrow>
     guards_left 1 m \<Longrightarrow> mgr_run cc W R rp ow (m', w) (live \<union> set gs)"
| removed: "mgr_run cc W R rp ow (m, w) live \<Longrightarrow>
     mgr_run cc W R rp ow (update_wal_removal_end res (m\<lparr>mg_wal_removal_task := None\<rparr>), w) live"
| uploaded: "mgr_run cc W R rp ow (m, w) live \<Longrightarrow>
     mgr_run cc W R rp ow (update_partial_backup_end pres (m\<lparr>mg_partial_backup_task := False\<rparr>), w) live"
| others: "mgr_run cc W R rp ow (m, tli, r) live \<Longrightarrow> is_loaded tli' = is_loaded tli \<Longrightarrow> mgr_run cc W R rp ow (m, tli', r') live"

text \<open>The invariant of the manager.\<close>

definition mgr_inv :: "manager \<Rightarrow> bool \<Rightarrow> u64 set \<Rightarrow> bool" where
  "mgr_inv m loaded live \<longleftrightarrow> ac_guards (mg_access_service m) = live \<and> (\<forall>g \<in> live. g < ac_next_guard_id (mg_access_service m)) \<and>
     (if mg_is_offloaded m then live = {} else loaded)"

lemma mgr_inv_same:
  "mgr_inv m l live \<Longrightarrow> mg_access_service m' = mg_access_service m \<Longrightarrow> mg_is_offloaded m' = mg_is_offloaded m \<Longrightarrow> mgr_inv m' l live"
  by (simp add: mgr_inv_def)

lemma mgr_inv_guard:
  assumes "mgr_inv m l live" "\<not> mg_is_offloaded m" "create_guard (mg_access_service m) = (g, ac)" "guards_left (Suc n) m"
    and "mg_access_service m' = ac" "\<not> mg_is_offloaded m'"
  shows "mgr_inv m' l (live \<union> {g}) \<and> guards_left n m'"
proof -
  let ?n = "ac_next_guard_id (mg_access_service m)"
  have ac: "g = ?n" "ac = \<lparr>ac_next_guard_id = ?n + 1, ac_guards = insert ?n (ac_guards (mg_access_service m))\<rparr>"
    using assms(3) by (auto simp: create_guard_def)
  have u: "unat (?n + 1) = unat ?n + 1"
    using assms(4) unat_add_if [of ?n 1] by (simp add: guards_left_def)
  then have "x < ?n + 1" if "x \<le> ?n" for x using that by (simp add: word_less_nat_alt word_le_nat_alt)
  then show ?thesis using assms u by (auto simp: mgr_inv_def ac guards_left_def)
qed

lemma spawn_resident_inv:
  assumes "mgr_inv m l live" "\<not> mg_is_offloaded m" "guards_left (Suc n) m" "spawn_resident gate f m = (Inr gs, m')"
    and "\<And>m. mg_access_service (f m) = mg_access_service m \<and> mg_is_offloaded (f m) = mg_is_offloaded m"
  shows "mgr_inv m' l (live \<union> set gs) \<and> \<not> mg_is_offloaded m' \<and> guards_left n m'"
proof (cases gate)
  case True
  obtain g ac where g: "create_guard (mg_access_service m) = (g, ac)" by fastforce
  then have "gs = [g]" "m' = f (m\<lparr>mg_access_service := ac\<rparr>)"
    using assms(2,4) True by (auto simp: spawn_resident_def wal_resident_timeline_def)
  then show ?thesis
    using mgr_inv_guard [OF assms(1,2) g assms(3), of m'] assms(2,5) by simp
next
  case False
  then show ?thesis
    using assms by (auto simp: spawn_resident_def wal_resident_timeline_def guards_left_def)
qed

lemma update_backup_inv:
  assumes "mgr_inv m l live" "\<not> mg_is_offloaded m" "guards_left (Suc n) m"
    and "update_backup gate k st m = (Inr (req, gs), m')"
  shows "mgr_inv m' l (live \<union> set gs) \<and> \<not> mg_is_offloaded m' \<and> guards_left n m'"
proof -
  have l: "guards_left n m" using assms(3) by (simp add: guards_left_def)
  consider (spawn) "spawn_resident gate (\<lambda>self. self\<lparr>mg_backup_task := True\<rparr>) m = (Inr gs, m')"
    | (same) "gs = []" "mg_access_service m' = mg_access_service m" "mg_is_offloaded m' = mg_is_offloaded m"
    using assms(4) by (auto simp: update_backup_def update_task_def abind_def areturn_def Let_def
        split: if_splits sum.splits prod.splits)
  then show ?thesis
  proof cases
    case spawn
    from spawn_resident_inv [OF assms(1-3) this] show ?thesis by simp
  next
    case same
    with assms l show ?thesis by (simp add: mgr_inv_def guards_left_def)
  qed
qed

lemma update_partial_backup_inv:
  assumes "mgr_inv m l live" "\<not> mg_is_offloaded m" "guards_left (Suc n) m"
    and "update_partial_backup gate st m = (Inr gs, m')"
  shows "mgr_inv m' l (live \<union> set gs) \<and> \<not> mg_is_offloaded m'"
  using assms spawn_resident_inv [OF assms(1-3)] by (auto simp: update_partial_backup_def split: if_splits)

lemma update_wal_removal_same:
  "update_wal_removal gate st tli m = (x, m') \<Longrightarrow>
     mg_access_service m' = mg_access_service m \<and> mg_is_offloaded m' = mg_is_offloaded m"
  by (auto simp: update_wal_removal_def Let_def split: if_splits state_sk.splits)

subsection \<open>Which operations change the residence\<close>

lemma guard_drop_panics: "guard_drop C W tli = (Inl e, tli') \<Longrightarrow> \<exists>p. e = Panic p"
  by (cases "sh_sk (tl_shared tli)")
    (auto simp: guard_drop_def ssk_last_log_term_def Let_def rbind_def split: sum.splits eviction_state.splits)

lemma with_guard_cases:
  assumes "with_guard C W m tli = (x, tli')"
  obtains (panic) p where "x = Inl (Panic p)"
    | (finished) sh where "m (tl_shared tli) = (x, sh)" "tl_shared tli' = sh"
proof -
  obtain r sh where m: "m (tl_shared tli) = (r, sh)" by fastforce
  obtain y t where g: "guard_drop C W (tli\<lparr>tl_shared := sh\<rparr>) = (y, t)" by fastforce
  show thesis
  proof (cases y)
    case (Inl e)
    then obtain p where "e = Panic p" using guard_drop_panics g by blast
    then show thesis using panic assms m g Inl by (auto simp: with_guard_def)
  next
    case Inr
    then have "tl_shared t = sh" using g by (auto simp: guard_drop_def Let_def split: sum.splits prod.splits)
    then show thesis using finished assms m g Inr by (auto simp: with_guard_def)
  qed
qed

lemma on_ssk_state_loaded:
  "on_ssk_state m sk = (x, sk') \<Longrightarrow> (\<exists>k. sk' = Loaded k) \<longleftrightarrow> (\<exists>k. sk = Loaded k)"
  by (cases sk) (auto simp: on_ssk_state_def split: sum.splits prod.splits)

lemma is_loaded_iff: "is_loaded tli \<longleftrightarrow> (\<exists>k. sh_sk (tl_shared tli) = Loaded k)"
  by (simp add: is_loaded_def split: state_sk.splits)

lemma on_sk_result: "on_sk m sh = (x, sh') \<Longrightarrow> m (sh_sk sh) = (x, sh_sk sh')"
  by (auto simp: on_sk_def split: prod.splits)

lemma switch_to_offloaded_loaded:
  assumes "switch_to_offloaded C W p tli = (Inl e, tli')" "\<And>q. e \<noteq> Panic q"
  shows "is_loaded tli' = is_loaded tli"
  using assms(1) unfolding switch_to_offloaded_def
proof (cases rule: with_guard_cases)
  case (finished sh)
  have "(\<exists>k. sk' = Loaded k) \<longleftrightarrow> (\<exists>k. sk = Loaded k)"
    if s: "switch_to_offloaded_sk C W p sk = (Inl e, sk')" for sk sk'
  proof (cases "sk' = sk")
    case False
    then obtain ps where f: "abind (on_ssk_state (finish_change C ps)) (\<lambda>_ self.
        case ssk_state self of Inl e \<Rightarrow> (Inl e, Empty_sk) | Inr cfile_state \<Rightarrow> (Inr (), Evicted cfile_state)) sk = (Inl e, sk')"
      using s by (auto simp: switch_to_offloaded_sk_def split: sum.splits)
    obtain y sk1 where o: "on_ssk_state (finish_change C ps) sk = (y, sk1)" by fastforce
    show ?thesis
    proof (cases y)
      case Inl
      then show ?thesis using f o on_ssk_state_loaded [OF o] by (simp add: abind_def)
    next
      case Inr
      then have "ssk_state sk1 = Inl e" using f o by (auto simp: abind_def split: sum.splits)
      then show ?thesis using assms(2) by (cases sk1) auto
    qed
  qed simp
  from this [OF on_sk_result [OF finished(1)]] show ?thesis using finished(2) by (simp add: is_loaded_iff)
qed (use assms(2) in auto)

lemma switch_to_present_loaded:
  assumes "switch_to_present C W ow n tli = (Inr u, tli')"
  shows "is_loaded tli'"
  using assms unfolding switch_to_present_def
proof (cases rule: with_guard_cases)
  case (finished sh)
  then show ?thesis
    by (auto simp: is_loaded_iff on_sk_def switch_to_present_sk_def abind_def
        split: prod.splits sum.splits)
qed simp

lemma flush_loaded:
  assumes "update_control_file_save C W now st m ev tli = (Inr ev', tli')"
  shows "is_loaded tli' = is_loaded tli"
proof -
  have "is_loaded t = is_loaded tli" if "with_guard C W (on_sk (on_ssk_state (ts_flush C))) tli = (x, t)" "\<And>p. x \<noteq> Inl (Panic p)" for x t
    using that(1)
  proof (cases rule: with_guard_cases)
    case (finished sh)
    from on_ssk_state_loaded [OF on_sk_result [OF this(1)]] show ?thesis using finished(2) by (simp add: is_loaded_iff)
  qed (use that(2) in auto)
  then show ?thesis
    using assms by (auto simp: update_control_file_save_def split: if_splits prod.splits sum.splits failure.splits)
qed

lemma try_evict_inv:
  assumes "mgr_inv m (is_loaded tli) live" "try_evict C W env st ev (m, tli) = (Inr x, (m', tli'))"
    and "\<not> mg_is_offloaded m"
  shows "mgr_inv m' (is_loaded tli') live"
proof -
  have e: "mgr_inv m1 (is_loaded t1) live"
    if "evict_timeline C W env (m, tli) = (Inr y, (m1, t1))" "live = {}" for y m1 t1
    using that assms(1,3) switch_to_offloaded_loaded [of C W _ tli]
    by (auto simp: evict_timeline_def mgr_inv_def split: option.splits sum.splits prod.splits failure.splits)
  have "live = {}" if "ready_for_eviction ev' st m = Inr True" for ev'
    using that assms(1) by (auto simp: ready_for_eviction_def mgr_inv_def ac_is_empty_def split: if_splits)
  then consider "m' = m" "tli' = tli"
    | y m1 where "evict_timeline C W env (m, tli) = (Inr y, (m1, tli'))" "live = {}"
        "mg_access_service m' = mg_access_service m1" "mg_is_offloaded m' = mg_is_offloaded m1"
    | "tli' = tli" "mg_access_service m' = mg_access_service m" "mg_is_offloaded m' = mg_is_offloaded m"
    using assms(2) by (auto simp: try_evict_def Let_def abind_def areturn_def
        split: if_splits sum.splits prod.splits bool.splits)
  then show ?thesis
  proof cases
    case 2
    from e [OF this(1,2)] show ?thesis by (rule mgr_inv_same) (use 2 in simp_all)
  qed (use assms mgr_inv_same in auto)
qed

lemma is_loaded_disk: "is_loaded tli \<longleftrightarrow> disk_segments C tli \<noteq> None"
  by (simp add: is_loaded_def disk_segments_def split: state_sk.splits)

lemma pbk_reset_loaded:
  assumes R: "remote_ok (file_ctrl cc) R" and d: "disk_segments (file_ctrl cc) tli = Some (pbk_state pb)"
    and r: "pbk_reset (file_ctrl cc) W R (pb, tli, r) = (x, (pb', tli', r'))"
  shows "is_loaded tli'"
proof -
  let ?C = "file_ctrl cc"
  obtain y w where c: "commit_state ?C W [] (pb, tli, r) = (y, w)" by (cases "commit_state ?C W [] (pb, tli, r)")
  from c d show ?thesis
  proof (cases rule: commit_state_cases)
    case (stored tli1)
    obtain z w2 where del: "delete_segments R (map prs_name (pbk_state pb)) (pb\<lparr>pbk_state := []\<rparr>, tli1, r) = (z, w2)"
      by (cases "delete_segments R (map prs_name (pbk_state pb)) (pb\<lparr>pbk_state := []\<rparr>, tli1, r)")
    from delete_segments_inv [OF R del stored(3)] have "is_loaded (fst (snd w2))"
      by (simp add: is_loaded_disk [of _ ?C]) (metis fst_conv option.distinct(1) snd_conv)
    moreover have "tli' = fst (snd w2)"
      using r c stored(1,2) del by (cases z) (auto simp: pbk_reset_def abind_def areturn_def)
    ultimately show ?thesis by simp
  next
    case (failed e tli1)
    then show ?thesis using r c by (simp add: pbk_reset_def abind_def is_loaded_disk [of _ ?C])
  qed
qed

lemma mgr_round_inv:
  assumes "mgr_inv m (is_loaded tli) live" "guards_left 2 m" "mgr_round C W env (m, tli) = (Inr (ev, gs), (m', tli'))"
  shows "mgr_inv m' (is_loaded tli') (live \<union> set gs)"
proof (cases "mg_is_offloaded m")
  case True
  then show ?thesis using assms by (auto simp: mgr_round_def split: sum.splits)
next
  case False
  obtain st req gs1 m1 ev1 t2 m3 gs2 m4 ev2 where
    1: "update_backup (me_gate_open env) (wrv_num_computes (tl_walreceivers tli)) st m = (Inr (req, gs1), m1)" and
    2: "update_control_file_save C W (me_now env) st (update_is_active req (wrv_num_computes (tl_walreceivers tli)) st m1) None tli = (Inr ev1, t2)" and
    3: "update_wal_removal (me_gate_open env) st t2 (update_is_active req (wrv_num_computes (tl_walreceivers tli)) st m1) = (Inr (), m3)" and
    4: "update_partial_backup (me_gate_open env) st m3 = (Inr gs2, m4)" and
    5: "try_evict C W env st ev1 (m4, t2) = (Inr ev2, (m', tli'))" and gs: "gs = gs1 @ gs2"
    using assms(3) False by (auto simp: mgr_round_def abind_def areturn_def Let_def split: sum.splits prod.splits)
  have "mgr_inv m1 (is_loaded tli) (live \<union> set gs1) \<and> \<not> mg_is_offloaded m1 \<and> guards_left 1 m1"
    using update_backup_inv [OF assms(1) False, of 1] assms(2) 1 by (simp add: numeral_2_eq_2)
  then have "mgr_inv m3 (is_loaded tli) (live \<union> set gs1) \<and> \<not> mg_is_offloaded m3 \<and> guards_left 1 m3"
    using update_wal_removal_same [OF 3] by (simp add: update_is_active_def mgr_inv_def guards_left_def)
  then have "mgr_inv m4 (is_loaded tli) (live \<union> set gs1 \<union> set gs2) \<and> \<not> mg_is_offloaded m4"
    using update_partial_backup_inv [of m3 "is_loaded tli" "live \<union> set gs1" 0, OF _ _ _ 4] by simp
  then show ?thesis
    using try_evict_inv [OF _ 5] flush_loaded [OF 2] by (simp add: gs Un_assoc)
qed

lemma issue_guard_inv:
  assumes "mgr_inv m l live" "guards_left 1 m" "issue_guard env m = (Inr gs, m')"
  shows "mgr_inv m' l (live \<union> set gs)"
proof (cases "mg_is_offloaded m \<or> \<not> me_gate_open env")
  case False
  obtain g ac where g: "create_guard (mg_access_service m) = (g, ac)" by fastforce
  then show ?thesis
    using mgr_inv_guard [OF assms(1) _ g, of 0 m'] assms(2,3) False by (auto simp: issue_guard_def)
qed (use assms in \<open>auto simp: issue_guard_def\<close>)

lemma unevict_inv:
  assumes "mgr_inv m (is_loaded tli) live" "unevict_timeline C W ow cmp dl t (m, tli) = (Inr u, (m1, tli1))"
  shows "mgr_inv m1 (is_loaded tli1) live \<and> (guards_left n m1 \<longleftrightarrow> guards_left n m)"
  using assms switch_to_present_loaded [of C W ow "cf_my_id (mc_conf (mg_conf m))" tli]
  by (auto simp: unevict_timeline_def mgr_inv_def guards_left_def split: if_splits sum.splits prod.splits failure.splits)

lemma reset_message_inv:
  assumes R: "remote_ok (file_ctrl cc) R" and i: "mgr_inv m (is_loaded tli) live" "guards_left 1 m"
    and b: "backup_partial_reset (file_ctrl cc) W R rp ow env (m, tli, r) = (Inr (gs, x), (m', tli', r'))"
  shows "mgr_inv m' (is_loaded tli') (live \<union> set gs)"
proof -
  let ?C = "file_ctrl cc"
  obtain y tli1 where s: "(if mg_is_offloaded m
      then switch_to_present ?C W ow (cf_my_id (mc_conf (mg_conf m))) tli else (Inr (), tli)) = (y, tli1)" by fastforce
  show ?thesis
  proof (cases y)
    case (Inl e)
    then have "mg_is_offloaded m" using s by (auto split: if_splits)
    then show ?thesis using b s Inl i(1) by (cases e) (auto simp: backup_partial_reset_def mgr_inv_def)
  next
    case (Inr u)
    let ?m = "m\<lparr>mg_is_offloaded := False, mg_partial_backup_task := False\<rparr>"
    have l1: "is_loaded tli1"
      using s Inr i(1) switch_to_present_loaded by (fastforce simp: mgr_inv_def split: if_splits)
    then have i1: "mgr_inv ?m True live" "guards_left (Suc 0) ?m"
      using i by (auto simp: mgr_inv_def guards_left_def)
    show ?thesis
    proof (cases "me_gate_open env")
      case False
      then show ?thesis using b s Inr i1 l1 by (auto simp: backup_partial_reset_def wal_resident_timeline_def mgr_inv_def)
    next
      case True
      obtain g ac where g: "create_guard (mg_access_service ?m) = (g, ac)" by fastforce
      obtain sk where sk: "sh_sk (tl_shared tli1) = Loaded sk" using l1 by (auto simp: is_loaded_iff)
      define pb where "pb = \<lparr>pbk_wal_seg_size = ucast (si_wal_seg_size (ps_server (pers ?C (sk_state sk)))),
        pbk_conf = mc_conf (mg_conf m), pbk_remote_timeline_path = rp, pbk_state = ps_partial_backup (pers ?C (sk_state sk))\<rparr>"
      obtain z pb2 tli2 r2 where z: "pbk_reset ?C W R (pb, tli1, r) = (z, (pb2, tli2, r2))" by (metis prod.exhaust)
      have "is_loaded tli2" by (rule pbk_reset_loaded [OF R _ z]) (simp add: disk_segments_def sk pb_def)
      moreover have "tli' = tli2" "gs = [g]" "mg_access_service m' = ac" "\<not> mg_is_offloaded m'"
        using b s Inr True g z by (auto simp: backup_partial_reset_def wal_resident_timeline_def partial_backup_new_def sk
            pb_def [symmetric] split: sum.splits failure.splits)
      ultimately show ?thesis using mgr_inv_guard [OF i1(1) _ g i1(2), of m'] by simp
    qed
  qed
qed

lemma handle_message_inv:
  assumes R: "remote_ok (file_ctrl cc) R" and i: "mgr_inv m (is_loaded tli) live" "guards_left 1 m"
    and h: "handle_message (file_ctrl cc) W R rp ow env dl msg (m, tli, r) = (Inr gs, (m', tli', r'))"
  shows "mgr_inv m' (is_loaded tli') (live - {g. msg = GuardDrop g} \<union> set gs)"
proof (cases msg)
  case GuardRequest
  obtain y m1 tli1 where u: "(if mg_is_offloaded m
      then unevict_timeline (file_ctrl cc) W ow (me_compare env) dl (me_evict_again_at env) (m, tli) else (Inr (), (m, tli))) = (y, (m1, tli1))"
    by (metis prod.exhaust)
  have y: "y = Inr ()" and g: "issue_guard env m1 = (Inr gs, m')" "tli' = tli1"
    using h u by (auto simp: handle_message_def GuardRequest split: sum.splits prod.splits)
  have "mgr_inv m1 (is_loaded tli1) live \<and> guards_left 1 m1"
  proof (cases "mg_is_offloaded m")
    case True
    then show ?thesis using unevict_inv [OF i(1)] u y i(2) by simp
  qed (use u i in auto)
  then show ?thesis using issue_guard_inv [OF _ _ g(1)] g(2) by (simp add: GuardRequest)
next
  case TryGuardRequest
  then show ?thesis
    using h issue_guard_inv [OF i] by (auto simp: handle_message_def split: prod.splits)
next
  case (GuardDrop g)
  then show ?thesis
    using h i(1) by (auto simp: handle_message_def drop_guard_def mgr_inv_def split: prod.splits if_splits)
next
  case BackupPartialReset
  then obtain x where "backup_partial_reset (file_ctrl cc) W R rp ow env (m, tli, r) = (Inr (gs, x), (m', tli', r'))"
    using h by (auto simp: handle_message_def abind_def areturn_def split: sum.splits prod.splits)
  from reset_message_inv [OF R i this] show ?thesis by (simp add: BackupPartialReset)
qed

lemma shared_state_restore_variant:
  assumes "shared_state_restore C cs ow my_id = Inr sh"
  obtains s where "ssk_state (sh_sk sh) = Inr s" "(\<exists>k. sh_sk sh = Loaded k) \<longleftrightarrow> ps_eviction_state (pers C s) = Present"
  using assms that by (auto simp: shared_state_restore_def rbind_def shared_state_new_def safekeeper_new_def
      timeline_state_new_def split: sum.splits if_splits eviction_state.splits)

lemma start_inv:
  assumes "shared_state_restore (file_ctrl cc) cs ow my_id = Inr (tl_shared tli)" "manager_new (file_ctrl cc) conf t ba tli = Inr m"
  shows "mgr_inv m (is_loaded tli) {}"
  by (rule shared_state_restore_variant [OF assms(1)])
    (use assms(2) in \<open>auto simp: manager_new_def bootstrap_mgr_def mgr_inv_def access_service_new_def is_loaded_iff\<close>)

lemma mgr_run_inv:
  assumes "remote_ok (file_ctrl cc) R" "mgr_run cc W R rp ow s live"
  shows "mgr_inv (fst s) (is_loaded (fst (snd s))) live"
  using assms(2)
proof (induction rule: mgr_run.induct)
  case (start cs my_id tli conf t ba m r)
  then show ?case using start_inv by simp
next
  case (round m tli r live env ev gs m' tli')
  then show ?case using mgr_round_inv by simp
next
  case (message m w live msg env dl gs m' w')
  then show ?case using handle_message_inv [OF assms(1), of m "fst w" live W rp ow env dl msg "snd w" gs m' "fst w'" "snd w'"] by simp
next
  case (recovery m w live gate gs m')
  then show ?case using spawn_resident_inv [of m _ live 0 gate _ gs m'] by simp
next
  case (removed m w live res)
  then show ?case by (simp add: mgr_inv_def update_wal_removal_end_def split: sum.splits)
next
  case (uploaded m w live pres)
  then show ?case by (simp add: mgr_inv_def update_partial_backup_end_def split: sum.splits)
qed simp

text \<open>C8: A residence guard keeps the timeline resident. In every run of a manager, with rounds of its loop,
  requests and drops of guards, resets, ends of tasks and the work of other tasks in any order, the timeline
  is loaded as long as a guard is held; and dropping a guard that is held never fails.\<close>

theorem guard_keeps_resident:
  assumes "remote_ok (file_ctrl cc) R" "mgr_run cc W R rp ow (m, tli, r) live"
  shows "(live \<noteq> {} \<longrightarrow> is_loaded tli \<and> \<not> mg_is_offloaded m) \<and>
    (\<forall>g \<in> live. fst (handle_message (file_ctrl cc) W R rp ow env dl (GuardDrop g) (m, tli, r)) = Inr [])"
  using mgr_run_inv [OF assms] by (auto simp: mgr_inv_def handle_message_def drop_guard_def split: if_splits)

subsection \<open>Removal of WAL\<close>

definition same_entry :: "string \<Rightarrow> fs \<Rightarrow> fs \<Rightarrow> bool" where
  "same_entry n fs fs' \<longleftrightarrow> map_of (fs_dir fs') n = map_of (fs_dir fs) n \<and> fs_inodes fs' = fs_inodes fs"

lemma same_entry_transp: "transp (same_entry n)"
  by (simp add: transp_def same_entry_def)

lemma keeps_io_entry:
  assumes "\<And>fs. same_entry n fs (snd (m fs))"
  shows "keeps (same_entry n) (io m)"
proof (rule keepsI)
  fix fs x fs' assume r: "io m fs = (x, fs')"
  obtain f fs1 where n: "next_fault fs = (f, fs1)" by fastforce
  then have "same_entry n fs fs1" by (auto simp: next_fault_def same_entry_def split: list.splits)
  moreover have "fs' = fs1 \<or> fs' = snd (m fs1)" using r n by (auto simp: io_def split: option.splits)
  ultimately show "same_entry n fs fs'" using assms [of fs1] by (auto simp: same_entry_def)
qed

lemma lift_res_bind: "abind (lift_res (Inl e)) f = afail e" "abind (lift_res (Inr v)) f = f v"
  by (rule ext, simp add: abind_def lift_res_def afail_def)+

lemma keeps_next_entry: "keeps (same_entry n) fs_next_entry"
  unfolding fs_next_entry_def by (rule keeps_io_entry) (simp add: same_entry_def)

lemma keeps_remove_loop:
  assumes "\<And>s t. XLogFromFileName n sz = Inr (s, t) \<Longrightarrow> \<not> P s"
  shows "keeps (same_entry n) (remove_loop sz P names)"
proof (induction names)
  case Nil
  have "remove_loop sz P [] = fs_next_entry" by (rule ext) simp
  then show ?case by (simp only: keeps_next_entry)
next
  case (Cons name names)
  let ?rm = "if \<not> IsXLogFileName name \<and> \<not> IsPartialXLogFileName name then areturn ()
     else abind (lift_res (XLogFromFileName name sz)) (\<lambda>(segno, _). if P segno then fs_remove name else areturn ())"
  have same: "keeps (same_entry n) (areturn u)" "keeps (same_entry n) (afail e)" for u :: unit and e
    by (rule keepsI, simp add: areturn_def afail_def same_entry_def)+
  have "keeps (same_entry n) (fs_remove name)" if "name \<noteq> n"
    unfolding fs_remove_def using that by (intro keeps_io_entry) (auto simp: same_entry_def delete_conv split: option.splits)
  then have "keeps (same_entry n) (fs_remove name)" if "XLogFromFileName name sz = Inr (s, t)" "P s" for s t
    using that assms by blast
  then have "keeps (same_entry n) ?rm"
    using assms same by (cases "XLogFromFileName name sz") (auto simp: lift_res_bind)
  moreover have "remove_loop sz P (name # names) = abind fs_next_entry (\<lambda>_. abind ?rm (\<lambda>_. remove_loop sz P names))"
    by (rule ext) simp
  ultimately show ?case using Cons by (simp only:) (intro keeps_abind same_entry_transp keeps_next_entry)
qed

lemma removal_task_horizon:
  assumes "update_wal_removal gate st tli m = (x, m')" "mg_wal_removal_task m = None" "mg_wal_removal_task m' = Some k"
  shows "mg_wal_seg_size m \<noteq> 0 \<and> (\<exists>h. (h = None \<or> mc_walsenders_keep_horizon (mg_conf m) \<and> h = laggard_lsn (tl_walsenders tli)) \<and>
    k = saturating_sub (segment_number (calc_horizon_lsn st
      (if mc_walsenders_keep_horizon (mg_conf m) then laggard_lsn (tl_walsenders tli) else None)) (mg_wal_seg_size m)) 1 \<and>
    mg_last_removed_segno m < k)"
  using assms by (auto simp: update_wal_removal_def Let_def split: if_splits state_sk.splits)

lemma below_horizon_segment:
  assumes "sz \<noteq> 0" "k = saturating_sub (segment_number h sz) 1" "0 < k" "h \<le> l"
  shows "k < segment_number l sz"
proof -
  have "segment_number h sz \<le> segment_number l sz"
    using assms(4) by (simp add: segment_number_def word_le_nat_alt unat_div div_le_mono)
  moreover have "1 \<le> segment_number h sz" "k = segment_number h sz - 1"
    using assms(2,3) by (auto simp: saturating_sub_def split: if_splits)
  then have "k < segment_number h sz" by (simp add: word_less_nat_alt word_le_nat_alt unat_sub)
  ultimately show ?thesis by simp
qed

lemma calc_horizon_le:
  "calc_horizon_lsn st e \<le> sn_cfile_remote_consistent_lsn st" "calc_horizon_lsn st e \<le> sn_cfile_backup_lsn st"
  "calc_horizon_lsn st e \<le> sn_cfile_commit_lsn st" "calc_horizon_lsn st e \<le> sn_flush_lsn st"
  "e = Some h \<Longrightarrow> calc_horizon_lsn st e \<le> h"
  by (auto simp: calc_horizon_lsn_def Let_def min_def split: option.splits)

text \<open>C6: Local WAL is removed only when nobody needs it. When a round starts a removal task, then whatever the task
  removes and whatever fails in it, the files of every segment that reaches the pageservers' consistent position,
  the offloaded position, the commit position of the control file, the flushed position or, where configured, the
  position of the most lagging walsender are still there, unchanged.\<close>

theorem wal_removal_safe:
  assumes "update_wal_removal gate st tli m = (x, m')" "mg_wal_removal_task m = None" "mg_wal_removal_task m' = Some k"
    and "unat (mg_wal_seg_size m) dvd 2 ^ 32" "ph_wal_seg_size ph = mg_wal_seg_size m" "remove_up_to k ph fs = (y, fs')"
    and "sn_cfile_remote_consistent_lsn st \<le> l \<or> sn_cfile_backup_lsn st \<le> l \<or> sn_cfile_commit_lsn st \<le> l \<or> sn_flush_lsn st \<le> l \<or>
      (mc_walsenders_keep_horizon (mg_conf m) \<and> (\<exists>h \<le> l. laggard_lsn (tl_walsenders tli) = Some h))"
    and "wal_file_paths (segment_number l (mg_wal_seg_size m)) (mg_wal_seg_size m) = Inr (path, partial_path)"
  shows "map_of (fs_dir fs') path = map_of (fs_dir fs) path \<and> map_of (fs_dir fs') partial_path = map_of (fs_dir fs) partial_path \<and>
    fs_inodes fs' = fs_inodes fs"
proof -
  let ?sz = "mg_wal_seg_size m"
  let ?e = "if mc_walsenders_keep_horizon (mg_conf m) then laggard_lsn (tl_walsenders tli) else None"
  from removal_task_horizon [OF assms(1-3)] have sz: "?sz \<noteq> 0" and k: "k = saturating_sub (segment_number (calc_horizon_lsn st ?e) ?sz) 1"
    and pos: "mg_last_removed_segno m < k" by blast+
  have "calc_horizon_lsn st ?e \<le> l"
    using assms(7) calc_horizon_le(1-4) [of st ?e] calc_horizon_le(5) [of ?e _ st] by (auto intro: order_trans)
  moreover have "0 < k" using pos by (metis le_less_trans word_zero_le)
  ultimately have lt: "k < segment_number l ?sz" using below_horizon_segment [OF sz k] by blast
  obtain name where n: "XLogFileName PG_TLI (segment_number l ?sz) ?sz = Inr name"
    "XLogFromFileName name ?sz = Inr (segment_number l ?sz, PG_TLI)"
    "XLogFromFileName (name @ ''.partial'') ?sz = Inr (segment_number l ?sz, PG_TLI)"
    using segment_name_parts [OF assms(4) sz, of PG_TLI l] by blast
  have names: "path = name" "partial_path = name @ ''.partial''"
    using assms(8) n(1) by (auto simp: wal_file_paths_def)
  have "same_entry nm fs fs'" if "XLogFromFileName nm ?sz = Inr (segment_number l ?sz, PG_TLI)" for nm
  proof -
    have "keeps (same_entry nm) (remove_up_to k ph)"
      unfolding remove_up_to_def remove_segments_from_disk_def assms(5) fs_read_dir_def
      by (intro keeps_abind same_entry_transp keeps_remove_loop keeps_io_entry) (use that lt in \<open>auto simp: same_entry_def\<close>)
    from keepsD [OF this assms(6)] show ?thesis .
  qed
  from this [OF n(2)] this [OF n(3)] show ?thesis by (simp add: names same_entry_def)
qed

subsection \<open>Instances\<close>

definition demo_conf :: mgr_conf where
  "demo_conf = \<lparr>mc_conf = pbk_conf demo_backup, mc_remote_storage = True, mc_wal_backup_enabled = True,
     mc_max_offloader_lag_bytes = 0x8000000, mc_walsenders_keep_horizon = False, mc_control_file_save_interval = 300,
     mc_heartbeat_timeout = 5, mc_enable_offload = True, mc_delete_offloaded_wal = True\<rparr>"

definition demo_manager :: manager where
  "demo_manager = \<lparr>mg_conf = demo_conf, mg_timeline_id = replicate 16 2, mg_wal_seg_size = 16777216,
     mg_tli_broker_active = False, mg_last_removed_segno = 0, mg_is_offloaded = False, mg_backup_task = False,
     mg_recovery_task = False, mg_wal_removal_task = None, mg_partial_backup_task = False,
     mg_partial_backup_uploaded = None, mg_access_service = access_service_new, mg_evict_not_before = 7\<rparr>"

definition demo_env :: mgr_env where
  "demo_env = \<lparr>me_now = 5, me_last_persist_at = 1, me_gate_open = True, me_permit = True, me_evict_again_at = 9,
     me_compare = Inr (), me_delete = Inr ()\<rparr>"

definition demo_snapshot :: "lsn \<Rightarrow> state_snapshot" where
  "demo_snapshot l = \<lparr>sn_commit_lsn = l, sn_backup_lsn = l, sn_remote_consistent_lsn = l, sn_cfile_commit_lsn = l,
     sn_cfile_remote_consistent_lsn = l, sn_cfile_backup_lsn = l, sn_flush_lsn = l, sn_last_log_term = 1,
     sn_cfile_last_persist_at = 0, sn_inmem_flush_pending = False, sn_wal_removal_on_hold = False, sn_peers = []\<rparr>"

lemma demo_start:
  "mgr_run (demo_codec example_state) demo_wal object_list ''tenant/timeline'' (\<lambda>_. Inr idle_storage) (demo_manager, demo_timeline, []) {}"
proof (rule mgr_run.start [where cs = "Inr (demo_store example_state [])" and my_id = 1 and conf = demo_conf and t = 7 and ba = False])
  show "shared_state_restore (file_ctrl (demo_codec example_state)) (Inr (demo_store example_state [])) (\<lambda>_. Inr idle_storage) 1 =
      Inr (tl_shared demo_timeline)"
  proof -
    have "ps_tenant_id example_state \<noteq> id_zero" "ps_timeline_id example_state \<noteq> id_zero"
      by (simp_all add: example_state_def id_zero_def numeral_eq_Suc)
    moreover have "si_wal_seg_size (ps_server example_state) \<noteq> 0" "ps_eviction_state example_state = Present"
      by (simp_all add: example_state_def)
    ultimately show ?thesis
      by (simp add: shared_state_restore_def safekeeper_new_def timeline_state_new_def file_ctrl_def demo_store_def
          demo_timeline_def demo_sk_def shared_state_new_def)
  qed
  show "manager_new (file_ctrl (demo_codec example_state)) demo_conf 7 False demo_timeline = Inr demo_manager"
    by (simp add: manager_new_def bootstrap_mgr_def demo_timeline_def demo_sk_def shared_state_new_def demo_manager_def
        file_ctrl_def demo_store_def example_state_def uploaded_segment_def)
qed

theorem guard_keeps_resident_witness:
  "\<exists>m. handle_message (file_ctrl (demo_codec example_state)) demo_wal object_list ''tenant/timeline'' (\<lambda>_. Inr idle_storage)
      demo_env (Inr ()) GuardRequest (demo_manager, demo_timeline, []) = (Inr [0], (m, demo_timeline, [])) \<and>
    is_loaded demo_timeline \<and> \<not> mg_is_offloaded m"
proof -
  let ?h = "handle_message (file_ctrl (demo_codec example_state)) demo_wal object_list ''tenant/timeline'' (\<lambda>_. Inr idle_storage) demo_env (Inr ())"
  define m where "m = demo_manager\<lparr>mg_access_service := \<lparr>ac_next_guard_id = 1, ac_guards = {0}\<rparr>\<rparr>"
  have h: "?h GuardRequest (demo_manager, demo_timeline, []) = (Inr [0], (m, demo_timeline, []))"
    by (simp add: handle_message_def issue_guard_def create_guard_def demo_manager_def demo_env_def access_service_new_def m_def)
  have "guards_left 1 demo_manager" by (simp add: guards_left_def demo_manager_def access_service_new_def)
  from mgr_run.message [OF demo_start _ h this]
  have "mgr_run (demo_codec example_state) demo_wal object_list ''tenant/timeline'' (\<lambda>_. Inr idle_storage) (m, demo_timeline, []) {0}"
    by simp
  from guard_keeps_resident [OF object_list_ok this] h show ?thesis by blast
qed

theorem wal_removal_safe_witness:
  "\<exists>m' y fs' path pp. update_wal_removal True (demo_snapshot 0x3000000) demo_timeline demo_manager = (Inr (), m') \<and>
     mg_wal_removal_task m' = Some 2 \<and> wal_file_paths (segment_number 0x3000000 16777216) 16777216 = Inr (path, pp) \<and>
     remove_up_to 2 idle_storage \<lparr>fs_dir = [(path, 0)], fs_dir_synced = [], fs_inodes = [], fs_faults = []\<rparr> = (y, fs') \<and>
     map_of (fs_dir fs') path = Some 0"
proof -
  define m' where "m' = demo_manager\<lparr>mg_wal_removal_task := Some 2\<rparr>"
  have u: "update_wal_removal True (demo_snapshot 0x3000000) demo_timeline demo_manager = (Inr (), m')"
    by (simp add: update_wal_removal_def demo_manager_def demo_snapshot_def calc_horizon_lsn_def demo_conf_def segment_number_def
        saturating_sub_def demo_timeline_def shared_state_new_def m'_def)
  obtain path pp where p: "wal_file_paths (segment_number 0x3000000 16777216) 16777216 = Inr (path, pp)"
    by (simp add: wal_file_paths_def XLogFileName_def XLogSegmentsPerXLogId_def segment_number_def)
  let ?fs = "\<lparr>fs_dir = [(path, 0)], fs_dir_synced = [], fs_inodes = [], fs_faults = []\<rparr>"
  obtain y fs' where r: "remove_up_to 2 idle_storage ?fs = (y, fs')" by fastforce
  have "map_of (fs_dir fs') path = map_of (fs_dir ?fs) path"
    by (rule wal_removal_safe [OF u _ _ _ _ r, where l = "0x3000000", THEN conjunct1])
      (use p in \<open>simp_all add: demo_manager_def m'_def idle_storage_def demo_snapshot_def\<close>)
  then show ?thesis using u p r by (auto simp: m'_def)
qed

end
