(* ===== verification/Eviction.thy ===== *)
theory Eviction
  imports Manager
begin

text \<open>
  The files of an evicted timeline (safekeeper/src/timeline_eviction.rs): the comparison of the local segment with
  its copy in the remote storage, and the download of that copy. A reader is the sequence of the results of
  its underlying reads: chunks of bytes, or an error.
\<close>

subsection \<open>Readers\<close>

type_synonym reader = "bytes res list"

text \<open>\<open>read\<close> into a buffer of a given size: the next chunk, or the part of it that fits. No bytes means the end.\<close>

fun rd_read :: "nat \<Rightarrow> reader \<Rightarrow> bytes res \<times> reader" where
  "rd_read n [] = (Inr [], [])"
| "rd_read n (Inl e # rest) = (Inl e, rest)"
| "rd_read n (Inr c # rest) = (if length c \<le> n then (Inr c, rest) else (Inr (take n c), Inr (drop n c) # rest))"

fun rd_read_exact :: "nat \<Rightarrow> reader \<Rightarrow> bytes res \<times> reader" where
  "rd_read_exact n [] = (if n = 0 then Inr [] else Inl (Io ''UnexpectedEof''), [])"
| "rd_read_exact n (Inl e # rest) = (if n = 0 then (Inr [], Inl e # rest) else (Inl e, rest))"
| "rd_read_exact n (Inr c # rest) =
     (if n = 0 then (Inr [], Inr c # rest)
      else if c = [] then (Inl (Io ''UnexpectedEof''), rest)
      else if length c \<le> n then
        (case rd_read_exact (n - length c) rest of (Inl e, r) \<Rightarrow> (Inl e, r) | (Inr bs, r) \<Rightarrow> (Inr (c @ bs), r))
      else (Inr (take n c), Inr (drop n c) # rest))"

definition BUF_SIZE :: nat where "BUF_SIZE = 32 * 1024"

lemma rd_read_le: "rd_read n r = (Inr bs, r') \<Longrightarrow> length bs \<le> n"
  by (induction n r rule: rd_read.induct) (auto split: if_splits)

text \<open>The loop over the first bytes of two readers; the argument counts what is left.\<close>

function compare_n_bytes :: "nat \<Rightarrow> reader \<Rightarrow> reader \<Rightarrow> (reader \<times> reader) res" where
  "compare_n_bytes n reader1 reader2 =
     (if n = 0 then Inr (reader1, reader2)
      else case rd_read (min BUF_SIZE n) reader1 of
        (Inl e, _) \<Rightarrow> Inl e
      | (Inr b1, reader1) \<Rightarrow>
          if b1 = [] then Inl (Bail ''unexpected EOF from reader1'')
          else (case rd_read_exact (length b1) reader2 of
            (Inl e, _) \<Rightarrow> Inl e
          | (Inr b2, reader2) \<Rightarrow>
              if b1 \<noteq> b2 then Inl (Bail ''mismatch'') else compare_n_bytes (n - length b1) reader1 reader2))"
  by pat_completeness auto
termination by (relation "measure (\<lambda>(n, _, _). n)") auto

declare compare_n_bytes.simps [simp del]

definition check_end :: "reader \<Rightarrow> unit res" where
  "check_end r = (case rd_read 1 r of
     (Inl e, _) \<Rightarrow> Inl e | (Inr bs, _) \<Rightarrow> if bs \<noteq> [] then Inl (Bail ''expected EOF, found bytes'') else Inr ())"

function read_n_zeroes :: "nat \<Rightarrow> reader \<Rightarrow> reader res" where
  "read_n_zeroes n r =
     (if n = 0 then Inr r
      else case rd_read (min BUF_SIZE n) r of
        (Inl e, _) \<Rightarrow> Inl e
      | (Inr bs, r) \<Rightarrow>
          if bs = [] then Inl (Bail ''expected zeroes, got EOF'')
          else if list_all (\<lambda>b. b = 0) bs then read_n_zeroes (n - length bs) r
          else Inl (Bail ''non-zero byte found''))"
  by pat_completeness auto
termination by (relation "measure (\<lambda>(n, _). n)") auto

declare read_n_zeroes.simps [simp del]

text \<open>\<open>do_validation\<close>, with the size from the metadata of the local file and the result of opening the remote object.\<close>

definition do_validation :: "u64 \<Rightarrow> partial_remote_segment \<Rightarrow> nat \<Rightarrow> reader \<Rightarrow> reader res \<Rightarrow> unit res" where
  "do_validation wal_seg_size partial local_size local remote =
     (if local_size \<noteq> unat wal_seg_size then Inl (Bail ''local segment size is invalid'')
      else
        rbind remote (\<lambda>remote_reader.
        rbind (rassert (wal_seg_size \<noteq> 0) ''attempt to calculate the remainder with a divisor of zero'') (\<lambda>_.
        let expected_remote_size = unat (segment_offset (prs_flush_lsn partial) wal_seg_size)
        in rbind (compare_n_bytes expected_remote_size remote_reader local) (\<lambda>(remote_reader, local).
           rbind (check_end remote_reader) (\<lambda>_.
           rbind (read_n_zeroes (unat wal_seg_size - expected_remote_size) local) (\<lambda>local.
           check_end local))))))"

subsection \<open>What a successful comparison means\<close>

text \<open>A reader without errors, and all its bytes.\<close>

definition rd_ok :: "reader \<Rightarrow> bool" where
  "rd_ok r \<longleftrightarrow> (\<forall>x \<in> set r. \<exists>c. x = Inr c \<and> c \<noteq> [])"

fun rd_bytes :: "reader \<Rightarrow> bytes" where
  "rd_bytes [] = []"
| "rd_bytes (Inl e # rest) = []"
| "rd_bytes (Inr c # rest) = c @ rd_bytes rest"

lemma rd_ok_simps [simp]: "rd_ok []" "rd_ok (Inr c # r) \<longleftrightarrow> c \<noteq> [] \<and> rd_ok r" "\<not> rd_ok (Inl e # r)"
  by (auto simp: rd_ok_def)

lemma rd_ok_cases:
  assumes "rd_ok r" obtains "r = []" | c r' where "r = Inr c # r'" "c \<noteq> []" "rd_ok r'"
proof (cases r)
  case (Cons x r')
  then show thesis using assms that(2) by (cases x) auto
qed (use that in simp)

lemma rd_read_ok:
  assumes "rd_ok r" "0 < n"
  obtains bs r' where "rd_read n r = (Inr bs, r')" "rd_ok r'" "rd_bytes r = bs @ rd_bytes r'" "length bs \<le> n"
    "bs = [] \<longleftrightarrow> rd_bytes r = []"
  using assms(1)
proof (cases rule: rd_ok_cases)
  case (2 c r')
  then show thesis
    using assms that [of "take n c" "if length c \<le> n then r' else Inr (drop n c) # r'"] by auto
qed (use that [of "[]" "[]"] in simp)

lemma rd_read_exact_ok:
  "rd_ok r \<Longrightarrow> (case rd_read_exact n r of
     (Inl e, _) \<Rightarrow> length (rd_bytes r) < n
   | (Inr bs, r') \<Rightarrow> rd_ok r' \<and> length bs = n \<and> rd_bytes r = bs @ rd_bytes r')"
  by (induction n r rule: rd_read_exact.induct) (auto split: prod.splits sum.splits)

lemma rd_bytes_empty: "rd_ok r \<Longrightarrow> rd_bytes r = [] \<longleftrightarrow> r = []"
  by (erule rd_ok_cases) auto

lemma check_end_ok: "rd_ok r \<Longrightarrow> check_end r = Inr () \<longleftrightarrow> rd_bytes r = []"
  by (erule rd_ok_cases) (auto simp: check_end_def)

lemma compare_n_bytes_ok:
  "rd_ok r1 \<Longrightarrow> rd_ok r2 \<Longrightarrow>
   (case compare_n_bytes n r1 r2 of
      Inl e \<Rightarrow> \<not> (n \<le> length (rd_bytes r1) \<and> take n (rd_bytes r1) = take n (rd_bytes r2) \<and> n \<le> length (rd_bytes r2))
    | Inr (r1', r2') \<Rightarrow> rd_ok r1' \<and> rd_ok r2' \<and> n \<le> length (rd_bytes r1) \<and> n \<le> length (rd_bytes r2) \<and>
        take n (rd_bytes r1) = take n (rd_bytes r2) \<and>
        rd_bytes r1' = drop n (rd_bytes r1) \<and> rd_bytes r2' = drop n (rd_bytes r2))"
proof (induction n r1 r2 rule: compare_n_bytes.induct)
  case (1 n r1 r2)
  show ?case
  proof (cases "n = 0")
    case True
    then show ?thesis using 1(2,3) by (simp add: compare_n_bytes.simps)
  next
    case False
    then have pos: "0 < min BUF_SIZE n" by (simp add: BUF_SIZE_def)
    obtain b1 r1' where r1: "rd_read (min BUF_SIZE n) r1 = (Inr b1, r1')" "rd_ok r1'" "rd_bytes r1 = b1 @ rd_bytes r1'"
      "length b1 \<le> min BUF_SIZE n" "b1 = [] \<longleftrightarrow> rd_bytes r1 = []"
      using rd_read_ok [OF 1(2) pos] by blast
    obtain x r2' where r2: "rd_read_exact (length b1) r2 = (x, r2')" by fastforce
    note ex = rd_read_exact_ok [OF 1(3), of "length b1", unfolded r2]
    consider (eof) "b1 = []" | (short) e where "b1 \<noteq> []" "x = Inl e" | (diff) b2 where "b1 \<noteq> []" "x = Inr b2" "b1 \<noteq> b2"
      | (same) "b1 \<noteq> []" "x = Inr b1" by (cases x) auto
    then show ?thesis
    proof cases
      case eof
      then have "compare_n_bytes n r1 r2 = Inl (Bail ''unexpected EOF from reader1'')"
        using False r1(1) by (subst compare_n_bytes.simps) simp
      moreover have "rd_bytes r1 = []" using eof r1(5) by simp
      ultimately show ?thesis using False by simp
    next
      case short
      then have "compare_n_bytes n r1 r2 = Inl e"
        using False r1(1) r2 by (subst compare_n_bytes.simps) simp
      then show ?thesis using short ex r1(4) by simp
    next
      case diff
      have "take n (rd_bytes r1) \<noteq> take n (rd_bytes r2)"
      proof
        assume "take n (rd_bytes r1) = take n (rd_bytes r2)"
        then have "take (length b1) (take n (rd_bytes r1)) = take (length b1) (take n (rd_bytes r2))" by simp
        moreover have "min (length b1) n = length b1" using r1(4) by simp
        ultimately have t: "take (length b1) (rd_bytes r1) = take (length b1) (rd_bytes r2)" by simp
        have "length b2 = length b1" "rd_bytes r2 = b2 @ rd_bytes r2'" using ex diff(2) by simp_all
        then show False using t diff(3) unfolding r1(3) by simp
      qed
      moreover have "compare_n_bytes n r1 r2 = Inl (Bail ''mismatch'')"
        using False r1(1) r2 diff by (subst compare_n_bytes.simps) simp
      ultimately show ?thesis by simp
    next
      case same
      have n: "n = length b1 + (n - length b1)" using r1(4) by simp
      have eq: "compare_n_bytes n r1 r2 = compare_n_bytes (n - length b1) r1' r2'"
        using False r1(1) r2 same by (subst compare_n_bytes.simps) simp
      have "rd_ok r2'" "rd_bytes r2 = b1 @ rd_bytes r2'" using ex same by simp_all
      moreover note 1(1) [OF False r1(1) [symmetric] refl same(1) r2 [symmetric, unfolded same(2)] refl _ r1(2)]
      ultimately show ?thesis unfolding eq using r1(3,4) n
        by (auto split: sum.splits)
    qed
  qed
qed

lemma read_n_zeroes_ok:
  "rd_ok r \<Longrightarrow>
   (case read_n_zeroes n r of
      Inl e \<Rightarrow> take n (rd_bytes r) \<noteq> replicate n 0
    | Inr r' \<Rightarrow> rd_ok r' \<and> rd_bytes r = replicate n 0 @ rd_bytes r')"
proof (induction n r rule: read_n_zeroes.induct)
  case (1 n r)
  show ?case
  proof (cases "n = 0")
    case True
    then show ?thesis using 1(2) by (simp add: read_n_zeroes.simps)
  next
    case False
    then have pos: "0 < min BUF_SIZE n" by (simp add: BUF_SIZE_def)
    obtain bs r' where r: "rd_read (min BUF_SIZE n) r = (Inr bs, r')" "rd_ok r'" "rd_bytes r = bs @ rd_bytes r'"
      "length bs \<le> min BUF_SIZE n" "bs = [] \<longleftrightarrow> rd_bytes r = []"
      using rd_read_ok [OF 1(2) pos] by blast
    have n: "replicate n (0 :: u8) = replicate (length bs) 0 @ replicate (n - length bs) 0"
      using r(4) by (simp flip: replicate_add)
    consider (eof) "bs = []" | (bad) "bs \<noteq> []" "\<not> list_all (\<lambda>b. b = 0) bs" | (zero) "bs \<noteq> []" "list_all (\<lambda>b. b = 0) bs" by blast
    then show ?thesis
    proof cases
      case eof
      then have "read_n_zeroes n r = Inl (Bail ''expected zeroes, got EOF'')"
        using False r(1) by (subst read_n_zeroes.simps) simp
      moreover have "rd_bytes r = []" using eof r(5) by simp
      ultimately show ?thesis using False by simp
    next
      case bad
      then have "read_n_zeroes n r = Inl (Bail ''non-zero byte found'')"
        using False r(1) by (subst read_n_zeroes.simps) simp
      moreover have "bs \<noteq> replicate (length bs) 0" using bad(2) by (metis (full_types) in_set_replicate list_all_iff)
      then have "take n (rd_bytes r) \<noteq> replicate n 0" unfolding n r(3) using r(4) by (simp add: take_append)
      ultimately show ?thesis by simp
    next
      case zero
      have eq: "read_n_zeroes n r = read_n_zeroes (n - length bs) r'"
        using False r(1) zero by (subst read_n_zeroes.simps) simp
      have b: "bs = replicate (length bs) 0" using zero(2) by (simp add: list_all_iff replicate_eqI)
      note ih = 1(1) [OF False r(1) [symmetric] refl zero r(2)]
      show ?thesis
      proof (cases "read_n_zeroes (n - length bs) r'")
        case (Inl e)
        then have "take (n - length bs) (rd_bytes r') \<noteq> replicate (n - length bs) 0" using ih by simp
        then have "take n (rd_bytes r) \<noteq> replicate n 0" unfolding n r(3) using r(4) by (simp add: take_append)
        then show ?thesis using eq Inl by simp
      next
        case (Inr r2)
        then have "rd_ok r2" "rd_bytes r' = replicate (n - length bs) 0 @ rd_bytes r2" using ih by simp_all
        then have "rd_bytes r = replicate n 0 @ rd_bytes r2" unfolding n r(3) using b by (metis append.assoc)
        then show ?thesis using eq Inr \<open>rd_ok r2\<close> by simp
      qed
    qed
  qed
qed

text \<open>C21: A local segment passes the validation exactly when it is the remote copy continued with zeroes: it has
  the size of a segment, the copy ends at the offset of the flush position, and the local bytes are those of the
  copy followed by zeroes to the end. This does not depend on how the bytes arrive in chunks.\<close>

theorem validation_exact:
  assumes "rd_ok local" "rd_ok remote" "sz \<noteq> 0"
  shows "do_validation sz partial (length (rd_bytes local)) local (Inr remote) = Inr () \<longleftrightarrow>
    length (rd_bytes local) = unat sz \<and> length (rd_bytes remote) = unat (segment_offset (prs_flush_lsn partial) sz) \<and>
    rd_bytes local = rd_bytes remote @ replicate (unat sz - length (rd_bytes remote)) 0"
proof (cases "length (rd_bytes local) = unat sz")
  case len: True
  let ?n = "unat (segment_offset (prs_flush_lsn partial) sz)"
  have lt: "?n < unat sz" by (rule segment_offset_less [OF assms(3)])
  have eq: "do_validation sz partial (length (rd_bytes local)) local (Inr remote) =
      rbind (compare_n_bytes ?n remote local) (\<lambda>(remote_reader, local).
        rbind (check_end remote_reader) (\<lambda>_. rbind (read_n_zeroes (unat sz - ?n) local) check_end))"
    using len assms(3) by (simp add: do_validation_def Let_def)
  show ?thesis
  proof (cases "compare_n_bytes ?n remote local")
    case (Inl e)
    then have "\<not> (?n \<le> length (rd_bytes remote) \<and> take ?n (rd_bytes remote) = take ?n (rd_bytes local) \<and> ?n \<le> length (rd_bytes local))"
      using compare_n_bytes_ok [OF assms(2,1), of ?n] by simp
    then show ?thesis unfolding eq using Inl lt len by auto
  next
    case (Inr rs)
    obtain r1 r2 where rs: "rs = (r1, r2)" by (cases rs)
    have r: "rd_ok r1" "rd_ok r2" "?n \<le> length (rd_bytes remote)" "take ?n (rd_bytes remote) = take ?n (rd_bytes local)"
      "rd_bytes r1 = drop ?n (rd_bytes remote)" "rd_bytes r2 = drop ?n (rd_bytes local)"
      using compare_n_bytes_ok [OF assms(2,1), of ?n] Inr rs by simp_all
    have l: "length (rd_bytes remote) = ?n \<longleftrightarrow> rd_bytes r1 = []" using r(3) by (auto simp: r(5))
    have split: "rd_bytes local = take ?n (rd_bytes remote) @ rd_bytes r2"
      unfolding r(4,6) by simp
    have len2: "length (rd_bytes r2) = unat sz - ?n" using len by (simp add: r(6))
    have v: "do_validation sz partial (length (rd_bytes local)) local (Inr remote) = Inr () \<longleftrightarrow>
        rd_bytes r1 = [] \<and> rd_bytes r2 = replicate (unat sz - ?n) 0"
    proof (cases "read_n_zeroes (unat sz - ?n) r2")
      case (Inl e)
      then show ?thesis unfolding eq Inr rs
        using read_n_zeroes_ok [OF r(2), of "unat sz - ?n"] len2 check_end_ok [OF r(1)] by (auto simp: rbind_def split: sum.splits)
    next
      case z: (Inr r3)
      then have "rd_ok r3" "rd_bytes r2 = replicate (unat sz - ?n) 0 @ rd_bytes r3"
        using read_n_zeroes_ok [OF r(2), of "unat sz - ?n"] by simp_all
      then show ?thesis unfolding eq Inr rs
        using check_end_ok [OF r(1)] check_end_ok [of r3] z len2 by (auto simp: rbind_def split: sum.splits)
    qed
    show ?thesis unfolding v using l len split by (auto simp: r(5))
  qed
qed (auto simp: do_validation_def)

theorem validation_exact_witness:
  "do_validation 4 \<lparr>prs_status = Uploaded, prs_name = ''x'', prs_commit_lsn = 6, prs_flush_lsn = 6, prs_term = 1\<rparr> 4
     [Inr [7], Inr [8, 0, 0]] (Inr [Inr [7, 8]]) = Inr ()"
proof -
  let ?p = "\<lparr>prs_status = Uploaded, prs_name = ''x'', prs_commit_lsn = 6, prs_flush_lsn = 6, prs_term = 1\<rparr>"
  have "rd_ok [Inr [7], Inr [8, 0, 0]]" "rd_ok [Inr [7, 8]]" "(4 :: u64) \<noteq> 0" by simp_all
  from validation_exact [OF this, of ?p] have "do_validation 4 ?p (length (rd_bytes [Inr [7], Inr [8, 0, 0]]))
      [Inr [7], Inr [8, 0, 0]] (Inr [Inr [7, 8]]) = Inr ()"
    by (simp add: segment_offset_def) (simp add: numeral_2_eq_2)
  moreover have "length (rd_bytes [Inr [7], Inr [8, 0, 0]]) = 4" by simp
  ultimately show ?thesis by metis
qed

subsection \<open>Download\<close>

definition local_segment_path :: "u64 \<Rightarrow> partial_remote_segment \<Rightarrow> string res" where
  "local_segment_path wal_seg_size partial =
     rbind (rassert (wal_seg_size \<noteq> 0) ''attempt to divide by zero'') (\<lambda>_.
     rbind (wal_file_paths (segment_number (prs_flush_lsn partial) wal_seg_size) wal_seg_size) (\<lambda>(_, partial_path).
     Inr partial_path))"

text \<open>Opening the local file can fail for any reason; it is then taken as absent.\<close>

definition compare_local_segment_with_remote ::
  "u64 \<Rightarrow> partial_remote_segment \<Rightarrow> (nat \<times> reader) res \<Rightarrow> reader res \<Rightarrow> unit res" where
  "compare_local_segment_with_remote wal_seg_size partial local_file remote =
     rbind (local_segment_path wal_seg_size partial) (\<lambda>_.
     case local_file of
       Inr (local_size, local) \<Rightarrow> do_validation wal_seg_size partial local_size local remote
     | Inl _ \<Rightarrow> Inr ())"

text \<open>\<open>tokio::io::copy\<close> into a file; the result is the number of bytes.\<close>

fun rd_copy :: "nat \<Rightarrow> nat \<Rightarrow> reader \<Rightarrow> (fs, nat) act" where
  "rd_copy i pos [] = areturn pos"
| "rd_copy i pos (Inl e # rest) = afail e"
| "rd_copy i pos (Inr c # rest) =
     (if c = [] then areturn pos else abind (fs_write_all i pos c) (\<lambda>_. rd_copy i (pos + length c) rest))"

definition TMP_FILE :: string where "TMP_FILE = ''remote_partial.tmp''"

definition redownload_partial_segment ::
  "bool \<Rightarrow> u64 \<Rightarrow> partial_remote_segment \<Rightarrow> reader res \<Rightarrow> (fs, unit) act" where
  "redownload_partial_segment no_sync wal_seg_size partial remote =
     abind (lift_res remote) (\<lambda>reader.
     abind (fs_create TMP_FILE) (\<lambda>file.
     abind (rd_copy file 0 reader) (\<lambda>actual_len.
     if wal_seg_size = 0 then afail (Panic ''attempt to calculate the remainder with a divisor of zero'')
     else if actual_len \<noteq> unat (segment_offset (prs_flush_lsn partial) wal_seg_size)
     then afail (Bail ''partial downloaded unexpected number of bytes'')
     else if actual_len > unat wal_seg_size then afail (Bail ''remote segment is too long'')
     else
       abind (fs_set_len file (unat wal_seg_size)) (\<lambda>_.
       abind (fs_flush file) (\<lambda>_.
       abind (lift_res (local_segment_path wal_seg_size partial)) (\<lambda>final_path fs.
       case durable_rename TMP_FILE final_path (\<not> no_sync) fs of
         (Inr _, fs) \<Rightarrow> (Inr (), fs)
       | (Inl e, fs) \<Rightarrow>
           (case fs_remove TMP_FILE fs of
              (Inl e', fs) \<Rightarrow> (Inl (if e' = Io ''NotFound'' then e else e'), fs)
            | (Inr _, fs) \<Rightarrow> (Inl e, fs))))))))"

text \<open>Where all operations up to a point succeed.\<close>

lemma io_None: "fs_faults fs = None # fts \<Longrightarrow> io m fs = m (fs\<lparr>fs_faults := fts\<rparr>)"
  by (simp add: io_def next_fault_def)

lemma write_all_None:
  "fs_faults fs = None # fts \<Longrightarrow>
     fs_write_all i pos bs fs = (Inr (), put_data i (write_at pos bs (ino_data (inode_of fs i))) (fs\<lparr>fs_faults := fts\<rparr>))"
  by (simp add: fs_write_all_def next_fault_def inode_of_def)

definition downloaded :: "nat \<Rightarrow> bytes \<Rightarrow> fs \<Rightarrow> bool" where
  "downloaded i bs fs \<longleftrightarrow> i < length (fs_inodes fs) \<and> ino_data (inode_of fs i) = bs"

lemma rd_copy_ok:
  assumes "rd_ok r" "fs_faults fs = replicate (length r) None @ fts" "downloaded i old fs"
  shows "\<exists>fs'. rd_copy i (length old) r fs = (Inr (length old + length (rd_bytes r)), fs') \<and>
    downloaded i (old @ rd_bytes r) fs' \<and> fs_dir fs' = fs_dir fs \<and> fs_faults fs' = fts"
  using assms
proof (induction r arbitrary: fs old)
  case (Cons x r)
  then obtain c where c: "x = Inr c" "c \<noteq> []" "rd_ok r" by (cases x) auto
  define fs1 where "fs1 = put_data i (write_at (length old) c (ino_data (inode_of fs i))) (fs\<lparr>fs_faults := replicate (length r) None @ fts\<rparr>)"
  have w: "fs_write_all i (length old) c fs = (Inr (), fs1)"
    using write_all_None [of fs "replicate (length r) None @ fts"] Cons.prems(2) by (simp add: fs1_def)
  have "write_at (length old) c old = old @ c" by (simp add: write_at_def pad_to_def)
  then have d: "downloaded i (old @ c) fs1" "fs_faults fs1 = replicate (length r) None @ fts" "fs_dir fs1 = fs_dir fs"
    using Cons.prems(3) by (auto simp: fs1_def downloaded_def put_data_def set_inode_def inode_of_def)
  from Cons.IH [OF c(3) d(2,1)] obtain fs' where "rd_copy i (length (old @ c)) r fs1 = (Inr (length (old @ c) + length (rd_bytes r)), fs')"
    "downloaded i ((old @ c) @ rd_bytes r) fs'" "fs_dir fs' = fs_dir fs1" "fs_faults fs' = fts" by blast
  then show ?case using w c d(3) by (simp add: abind_def add.assoc)
qed (simp add: areturn_def)

lemma final_path_not_tmp:
  assumes "local_segment_path sz partial = Inr final"
  shows "final \<noteq> TMP_FILE"
proof -
  obtain name where "final = name @ ''.partial''"
    using assms by (auto simp: local_segment_path_def wal_file_paths_def rbind_def rassert_def split: sum.splits if_splits)
  then have "last final = CHR ''l''" by simp
  moreover have "last TMP_FILE = CHR ''p''" by (simp add: TMP_FILE_def)
  ultimately show ?thesis by auto
qed

lemma rename_dir:
  assumes "map_of (fs_dir fs) a = Some i" "fs_faults fs = None # fts"
  shows "fs_rename a b fs = (Inr (), fs\<lparr>fs_faults := fts, fs_dir := AList.update b i (AList.delete a (fs_dir fs))\<rparr>)"
  using assms by (simp add: fs_rename_def io_None)

text \<open>The file after the download and before the rename.\<close>

lemma download_ready:
  assumes "rd_ok r" "sz \<noteq> 0" "length (rd_bytes r) = unat (segment_offset (prs_flush_lsn partial) sz)"
    and "local_segment_path sz partial = Inr final" "fs_faults fs = replicate (length r + 3) None @ fts"
    and "fs_ok fs"
  obtains fs1 i where "redownload_partial_segment no_sync sz partial (Inr r) fs =
      (case durable_rename TMP_FILE final (\<not> no_sync) fs1 of
         (Inr _, fs) \<Rightarrow> (Inr (), fs)
       | (Inl e, fs) \<Rightarrow> (case fs_remove TMP_FILE fs of
              (Inl e', fs) \<Rightarrow> (Inl (if e' = Io ''NotFound'' then e else e'), fs)
            | (Inr _, fs) \<Rightarrow> (Inl e, fs)))"
    "map_of (fs_dir fs1) TMP_FILE = Some i" "downloaded i (pad_to (unat sz) (rd_bytes r)) fs1" "fs_faults fs1 = fts"
proof -
  have f: "fs_faults fs = None # replicate (length r) None @ None # None # fts"
    unfolding assms(5) by (simp add: numeral_3_eq_3 replicate_app_Cons_same)
  obtain i fs2 where c: "fs_create TMP_FILE fs = (Inr i, fs2)" "map_of (fs_dir fs2) TMP_FILE = Some i" "downloaded i [] fs2"
    "fs_faults fs2 = replicate (length r) None @ None # None # fts"
  proof (cases "map_of (fs_dir fs) TMP_FILE")
    case None
    then show thesis using that by (simp add: fs_create_def io_None [OF f] downloaded_def inode_of_def update_conv)
  next
    case (Some i)
    then have "i < length (fs_inodes fs)" using assms(6) by (auto simp: fs_ok_def)
    then show thesis using that Some by (simp add: fs_create_def io_None [OF f] downloaded_def inode_of_def set_inode_def)
  qed
  obtain fs3 where d: "rd_copy i 0 r fs2 = (Inr (length (rd_bytes r)), fs3)" "downloaded i (rd_bytes r) fs3" "fs_dir fs3 = fs_dir fs2"
    "fs_faults fs3 = None # None # fts"
    using rd_copy_ok [OF assms(1) c(4,3)] by auto
  let ?n = "unat sz"
  have lt: "length (rd_bytes r) < ?n" unfolding assms(3) by (rule segment_offset_less [OF assms(2)])
  have ino: "i < length (fs_inodes fs3)" "ino_data (fs_inodes fs3 ! i) = rd_bytes r"
    using d(2) by (auto simp: downloaded_def inode_of_def)
  define fs4 where "fs4 = (put_data i (take ?n (pad_to ?n (rd_bytes r))) fs3)\<lparr>fs_faults := fts\<rparr>"
  have s: "abind (fs_set_len i ?n) (\<lambda>_. abind (fs_flush i) m) fs3 = m () fs4" for m :: "unit \<Rightarrow> (fs, unit) act"
    using ino d(4) by (simp add: abind_def fs_set_len_def fs_flush_def io_def next_fault_def fs4_def put_data_def set_inode_def
        inode_of_def)
  have "take ?n (pad_to ?n (rd_bytes r)) = pad_to ?n (rd_bytes r)" using lt by (simp add: pad_to_def)
  then have "downloaded i (pad_to ?n (rd_bytes r)) fs4" "fs_faults fs4 = fts" "map_of (fs_dir fs4) TMP_FILE = Some i"
    using d(2,3) c(2) by (simp_all add: fs4_def downloaded_def put_data_def set_inode_def inode_of_def)
  moreover have "\<not> length (rd_bytes r) > ?n" using lt by simp
  ultimately show thesis
    using that [of fs4 i] c(1) d(1) s assms(2,3,4)
    by (simp add: redownload_partial_segment_def abind_def [of "lift_res (Inr r)"] abind_def [of "fs_create TMP_FILE"]
        abind_def [of "rd_copy i 0 r"] lift_res_bind lift_res_def)
qed

lemma downloaded_cong: "fs_inodes fs' = fs_inodes fs \<Longrightarrow> downloaded i bs fs' = downloaded i bs fs"
  by (simp add: downloaded_def inode_of_def)

lemma durable_rename_upto_sync:
  assumes "map_of (fs_dir fs) a = Some i" "downloaded i bs fs" "fs_faults fs = None # None # None # f # fts"
  obtains fs' where "map_of (fs_dir fs') b = Some i" "a \<noteq> b \<Longrightarrow> map_of (fs_dir fs') a = None" "downloaded i bs fs'" "fs_faults fs' = fts"
    "durable_rename a b True fs = (if f = None then (Inr (), fs') else (Inl (Io ''input/output error''), fs'))"
proof -
  define ino where "ino = (fs_inodes fs)[i := (inode_of fs i)\<lparr>ino_synced := True\<rparr>]"
  let ?d = "AList.update b i (AList.delete a (fs_dir fs))"
  define fs' where "fs' = fs\<lparr>fs_inodes := ino, fs_dir := ?d, fs_faults := fts,
    fs_dir_synced := (if f = None then ?d else fs_dir_synced fs)\<rparr>"
  have "durable_rename a b True fs = (if f = None then (Inr (), fs') else (Inl (Io ''input/output error''), fs'))"
    using assms(1,3) by (cases f) (simp_all add: durable_rename_def fsync_opt_def fsync_dir_opt_def abind_def fs_open_def fs_sync_def
        fs_rename_def fs_sync_dir_def io_def next_fault_def set_inode_def inode_of_def fs'_def ino_def)
  moreover have "downloaded i bs fs'" using assms(2) by (auto simp: fs'_def ino_def downloaded_def inode_of_def)
  ultimately show thesis using that [of fs'] by (auto simp: fs'_def update_conv delete_conv)
qed

text \<open>C30: A download that succeeds gives back the evicted segment: when no operation fails and the object has
  the bytes up to the flush position, the partial segment file holds these bytes, followed by
  zeroes up to the size of a segment.\<close>

theorem redownload_restores_segment:
  assumes "rd_ok r" "sz \<noteq> 0" "length (rd_bytes r) = unat (segment_offset (prs_flush_lsn partial) sz)"
    and "local_segment_path sz partial = Inr final" "fs_ok fs" "fs_faults fs = replicate (length r + 7) None"
  shows "\<exists>fs' i. redownload_partial_segment False sz partial (Inr r) fs = (Inr (), fs') \<and>
    map_of (fs_dir fs') final = Some i \<and> ino_data (inode_of fs' i) = pad_to (unat sz) (rd_bytes r)"
proof -
  have f: "fs_faults fs = replicate (length r + 3) None @ [None, None, None, None]"
    unfolding assms(6) by (simp add: replicate_add [symmetric] numeral_eq_Suc replicate_app_Cons_same)
  obtain fs1 i where 1: "redownload_partial_segment False sz partial (Inr r) fs =
      (case durable_rename TMP_FILE final True fs1 of
         (Inr _, fs) \<Rightarrow> (Inr (), fs)
       | (Inl e, fs) \<Rightarrow> (case fs_remove TMP_FILE fs of
              (Inl e', fs) \<Rightarrow> (Inl (if e' = Io ''NotFound'' then e else e'), fs)
            | (Inr _, fs) \<Rightarrow> (Inl e, fs)))"
    "map_of (fs_dir fs1) TMP_FILE = Some i" "downloaded i (pad_to (unat sz) (rd_bytes r)) fs1"
    "fs_faults fs1 = [None, None, None, None]"
    by (rule download_ready [OF assms(1-4) f assms(5), of False]) simp
  obtain fs2 where "map_of (fs_dir fs2) final = Some i" "downloaded i (pad_to (unat sz) (rd_bytes r)) fs2"
    "durable_rename TMP_FILE final True fs1 = (Inr (), fs2)"
    by (rule durable_rename_upto_sync [OF 1(2,3,4), where b = final]) simp
  then show ?thesis using 1(1) by (auto simp: downloaded_def)
qed

text \<open>C38: When the sync of the directory after the rename fails, the download reports the error but the
  downloaded file stays in place: what is removed is the temporary name, which the rename has
  consumed already.\<close>

theorem failed_download_stays:
  assumes "rd_ok r" "sz \<noteq> 0" "length (rd_bytes r) = unat (segment_offset (prs_flush_lsn partial) sz)"
    and "local_segment_path sz partial = Inr final" "fs_ok fs" "fs_faults fs = replicate (length r + 6) None @ [Some k]"
  shows "\<exists>e fs' i. redownload_partial_segment False sz partial (Inr r) fs = (Inl e, fs') \<and>
    map_of (fs_dir fs') final = Some i \<and> ino_data (inode_of fs' i) = pad_to (unat sz) (rd_bytes r)"
proof -
  have f: "fs_faults fs = replicate (length r + 3) None @ [None, None, None, Some k]"
    unfolding assms(6) by (simp add: numeral_eq_Suc replicate_app_Cons_same)
  obtain fs1 i where 1: "redownload_partial_segment False sz partial (Inr r) fs =
      (case durable_rename TMP_FILE final True fs1 of
         (Inr _, fs) \<Rightarrow> (Inr (), fs)
       | (Inl e, fs) \<Rightarrow> (case fs_remove TMP_FILE fs of
              (Inl e', fs) \<Rightarrow> (Inl (if e' = Io ''NotFound'' then e else e'), fs)
            | (Inr _, fs) \<Rightarrow> (Inl e, fs)))"
    "map_of (fs_dir fs1) TMP_FILE = Some i" "downloaded i (pad_to (unat sz) (rd_bytes r)) fs1"
    "fs_faults fs1 = [None, None, None, Some k]"
    by (rule download_ready [OF assms(1-4) f assms(5), of False]) simp
  obtain fs2 where 2: "map_of (fs_dir fs2) final = Some i" "map_of (fs_dir fs2) TMP_FILE = None"
    "downloaded i (pad_to (unat sz) (rd_bytes r)) fs2" "fs_faults fs2 = []"
    "durable_rename TMP_FILE final True fs1 = (Inl (Io ''input/output error''), fs2)"
    by (rule durable_rename_upto_sync [OF 1(2,3,4), where b = final]) (use final_path_not_tmp [OF assms(4)] in auto)
  then have "fs_remove TMP_FILE fs2 = (Inl (Io ''NotFound''), fs2)" by (simp add: fs_remove_def io_def next_fault_def)
  then show ?thesis using 1(1) 2 by (auto simp: downloaded_def)
qed

abbreviation small_partial :: partial_remote_segment where
  "small_partial \<equiv> \<lparr>prs_status = Uploaded, prs_name = ''x'', prs_commit_lsn = 18, prs_flush_lsn = 18, prs_term = 1\<rparr>"

lemma small_download:
  "rd_ok [Inr [7], Inr [8]]" "(16 :: u64) \<noteq> 0" "length (rd_bytes [Inr [7], Inr [8]]) = unat (segment_offset (prs_flush_lsn small_partial) 16)"
  "fs_ok \<lparr>fs_dir = [], fs_dir_synced = [], fs_inodes = [], fs_faults = fts\<rparr>"
  "\<exists>final. local_segment_path 16 small_partial = Inr final"
  by (simp_all add: segment_offset_def fs_ok_def local_segment_path_def wal_file_paths_def XLogFileName_def
      XLogSegmentsPerXLogId_def segment_number_def)

theorem redownload_restores_segment_witness:
  "\<exists>final fs' i. local_segment_path 16 small_partial = Inr final \<and>
    redownload_partial_segment False 16 small_partial (Inr [Inr [7], Inr [8]])
      \<lparr>fs_dir = [], fs_dir_synced = [], fs_inodes = [], fs_faults = replicate (length [Inr [7], Inr [8 :: u8] :: bytes res] + 7) None\<rparr> = (Inr (), fs') \<and>
    map_of (fs_dir fs') final = Some i \<and> ino_data (inode_of fs' i) = pad_to (unat (16 :: u64)) (rd_bytes [Inr [7], Inr [8]])"
proof -
  obtain final where f: "local_segment_path 16 small_partial = Inr final" using small_download(5) by blast
  from redownload_restores_segment [OF small_download(1-3) f small_download(4)] f show ?thesis by fastforce
qed

theorem failed_download_stays_witness:
  "\<exists>final e fs' i. local_segment_path 16 small_partial = Inr final \<and>
    redownload_partial_segment False 16 small_partial (Inr [Inr [7], Inr [8]])
      \<lparr>fs_dir = [], fs_dir_synced = [], fs_inodes = [], fs_faults = replicate (length [Inr [7], Inr [8 :: u8] :: bytes res] + 6) None @ [Some 0]\<rparr> = (Inl e, fs') \<and>
    map_of (fs_dir fs') final = Some i"
proof -
  obtain final where f: "local_segment_path 16 small_partial = Inr final" using small_download(5) by blast
  from failed_download_stays [OF small_download(1-3) f small_download(4), of _ 0] f show ?thesis by fastforce
qed

end
