(* ===== verification/SendWal.thy ===== *)
theory SendWal
  imports Timeline WalReader
begin

text \<open>
  Streaming WAL out of a safekeeper (safekeeper/src/send_wal.rs): the watched end of the WAL, one
  turn of \<open>WalSender::run\<close> with its chunking, \<open>wait_wal\<close>, and the handling of the replies of the
  receiver. What the tasks of the sender see from outside - the values of the watch channel, the
  state of the timeline when it is locked, time-outs - are arguments. The decoders of the standby
  messages (serde over bincode) are parameters.
\<close>

subsection \<open>The end of the WAL\<close>

datatype end_watch = Commit_watch lsn | Flush_watch term_lsn

fun end_watch_get :: "end_watch \<Rightarrow> lsn" where
  "end_watch_get (Commit_watch l) = l"
| "end_watch_get (Flush_watch t) = tl_lsn t"

text \<open>The list holds the values of the channel, one for each wake-up; when it is exhausted the
  waiting has not ended (\<open>EndWatch::wait_for_lsn\<close>) or has timed out (\<open>WalSender::wait_for_lsn\<close>).\<close>

fun wait_for_lsn :: "lsn \<Rightarrow> term_no option \<Rightarrow> end_watch list \<Rightarrow> lsn option res" where
  "wait_for_lsn l client_term [] = Inr None"
| "wait_for_lsn l client_term (w # ws) =
     (if end_watch_get w > l then Inr (Some (end_watch_get w))
      else case (w, client_term) of
        (Flush_watch cur, Some t) \<Rightarrow>
          if tl_term cur \<noteq> t then Inl (Bail ''term changed'') else wait_for_lsn l client_term ws
      | _ \<Rightarrow> wait_for_lsn l client_term ws)"

subsection \<open>The sender\<close>

record wal_sender =
  wsd_start_pos :: lsn
  wsd_end_pos :: lsn
  wsd_term :: "term_no option"
  wsd_id :: nat
  wsd_reader :: wal_reader

record xlog_data =
  xd_wal_start :: lsn
  xd_wal_end :: lsn
  xd_data :: bytes

text \<open>One turn of the loop of \<open>wait_wal\<close>: the value of the channel, the wake-ups until the
  time-out, and the timeline afterwards. A turn that ends neither way sends a keepalive with the end
  of the WAL.\<close>

record ('c, 'w, 's, 'h) wait_turn =
  wt_first :: end_watch
  wt_updates :: "end_watch list"
  wt_timeline :: "('c, 'w, 's, 'h) timeline"

definition caught_up :: "nat \<Rightarrow> end_watch \<Rightarrow> ('c, 'w, 's, 'h) timeline \<Rightarrow> bool res" where
  "caught_up i w tm = (case w of
     Flush_watch _ \<Rightarrow> Inr False
   | Commit_watch _ \<Rightarrow> rbind (get_ws_remote_consistent_lsn i (tl_walsenders tm)) (\<lambda>l.
       case l of None \<Rightarrow> Inr False | Some l \<Rightarrow> should_walsender_stop l tm))"

fun wait_wal :: "('c, 'w, 's, 'h) wait_turn list \<Rightarrow> wal_sender \<Rightarrow> lsn list \<Rightarrow> (unit res option \<times> wal_sender) \<times> lsn list" where
  "wait_wal [] self keepalives = ((None, self), keepalives)"
| "wait_wal (t # ts) self keepalives =
     (let self = self\<lparr>wsd_end_pos := end_watch_get (wt_first t)\<rparr>
      in if wsd_end_pos self > wsd_start_pos self then ((Some (Inr ()), self), keepalives)
         else case wait_for_lsn (wsd_start_pos self) (wsd_term self) (wt_updates t) of
           Inl e \<Rightarrow> ((Some (Inl e), self), keepalives)
         | Inr (Some l) \<Rightarrow> ((Some (Inr ()), self\<lparr>wsd_end_pos := l\<rparr>), keepalives)
         | Inr None \<Rightarrow> (case caught_up (wsd_id self) (wt_first t) (wt_timeline t) of
             Inl e \<Rightarrow> ((Some (Inl e), self), keepalives)
           | Inr True \<Rightarrow> ((Some (Inl (Bail ''ending streaming, receiver is caughtup and there is no computes'')), self), keepalives)
           | Inr False \<Rightarrow> wait_wal ts self (keepalives @ [wsd_end_pos self])))"

definition chunk_end_pos :: "lsn \<Rightarrow> lsn \<Rightarrow> lsn res" where
  "chunk_end_pos start_pos end_pos =
     rbind (lsn_add start_pos (of_nat MAX_SEND_SIZE)) (\<lambda>chunk_end.
     if end_pos \<le> chunk_end then Inr end_pos
     else case checked_sub chunk_end (block_offset chunk_end) of
       None \<Rightarrow> Inl (Panic ''called Option::unwrap() on a None value'') | Some p \<Rightarrow> Inr p)"

definition send_chunk ::
  "'c ctrl_storage \<Rightarrow> (u32 \<Rightarrow> pg_bindings) \<Rightarrow> (u32 \<Rightarrow> phd_encoders) \<Rightarrow> remote_store \<Rightarrow> ('c, 'w, 's, 'h) timeline \<Rightarrow>
     (wal_sender \<times> fs, xlog_data) act" where
  "send_chunk C B E ro tm = (\<lambda>(self, fs).
     case rbind (rassert (wsd_end_pos self > wsd_start_pos self) ''nothing to send after waiting for WAL'') (\<lambda>_.
            rbind (chunk_end_pos (wsd_start_pos self) (wsd_end_pos self)) (\<lambda>c.
            let send_size = unat (c - wsd_start_pos self)
            in rbind (rassert (send_size \<le> MAX_SEND_SIZE) ''slice index out of range'') (\<lambda>_.
               rbind (case wsd_term self of None \<Rightarrow> Inr () | Some t \<Rightarrow> acquire_term C t tm) (\<lambda>_. Inr send_size)))) of
       Inl e \<Rightarrow> (Inl e, (self, fs))
     | Inr send_size \<Rightarrow>
         (case wal_reader_read B E ro send_size (wsd_reader self, fs) of
            (Inl e, (r, fs)) \<Rightarrow> (Inl e, (self\<lparr>wsd_reader := r\<rparr>, fs))
          | (Inr bs, (r, fs)) \<Rightarrow>
              (case lsn_add (wsd_start_pos self) (of_nat (length bs)) of
                 Inl e \<Rightarrow> (Inl e, (self\<lparr>wsd_reader := r\<rparr>, fs))
               | Inr p \<Rightarrow> (Inr \<lparr>xd_wal_start = wsd_start_pos self, xd_wal_end = wsd_end_pos self, xd_data = bs\<rparr>,
                   (self\<lparr>wsd_reader := r, wsd_start_pos := p\<rparr>, fs)))))"

text \<open>The loop of \<open>run\<close> while there is WAL to send, with the number of turns as a bound.\<close>

fun send_available ::
  "nat \<Rightarrow> 'c ctrl_storage \<Rightarrow> (u32 \<Rightarrow> pg_bindings) \<Rightarrow> (u32 \<Rightarrow> phd_encoders) \<Rightarrow> remote_store \<Rightarrow> ('c, 'w, 's, 'h) timeline \<Rightarrow>
     (wal_sender \<times> fs, xlog_data list) act" where
  "send_available 0 C B E ro tm st = (Inl (Bail ''bound exhausted''), st)"
| "send_available (Suc n) C B E ro tm st =
     (if wsd_start_pos (fst st) < wsd_end_pos (fst st)
      then abind (send_chunk C B E ro tm) (\<lambda>m. abind (send_available n C B E ro tm) (\<lambda>ms. areturn (m # ms))) st
      else (Inr [], st))"

subsection \<open>Replies of the receiver\<close>

definition on_senders :: "(('s, 'h) wal_senders, 'a) act \<Rightarrow> (('c, 'w, 's, 'h) timeline, 'a) act" where
  "on_senders m tm = (case m (tl_walsenders tm) of (r, ws) \<Rightarrow> (r, tm\<lparr>tl_walsenders := ws\<rparr>))"

definition HOT_STANDBY_FEEDBACK_TAG_BYTE :: u8 where "HOT_STANDBY_FEEDBACK_TAG_BYTE = 104"
definition STANDBY_STATUS_UPDATE_TAG_BYTE :: u8 where "STANDBY_STATUS_UPDATE_TAG_BYTE = 114"
definition NEON_STATUS_UPDATE_TAG_BYTE :: u8 where "NEON_STATUS_UPDATE_TAG_BYTE = 122"

definition handle_feedback ::
  "'c ctrl_storage \<Rightarrow> 'w wal_storage \<Rightarrow> (bytes \<Rightarrow> hot_standby_feedback option) \<Rightarrow> (bytes \<Rightarrow> standby_reply option) \<Rightarrow>
     nat \<Rightarrow> bytes \<Rightarrow> (('c, 'w, 's, 'h) timeline, unit) act" where
  "handle_feedback C W des_hs des_reply i msg =
     (case msg of
        [] \<Rightarrow> areturn ()
      | tag # body \<Rightarrow>
          if tag = HOT_STANDBY_FEEDBACK_TAG_BYTE then
            (case des_hs body of
               None \<Rightarrow> afail (Bail ''failed to deserialize HotStandbyFeedback'')
             | Some hs \<Rightarrow> on_senders (record_hs_feedback i (hs\<lparr>hsf_xmin := word_rotl 32 (hsf_xmin hs),
                 hsf_catalog_xmin := word_rotl 32 (hsf_catalog_xmin hs)\<rparr>)))
          else if tag = STANDBY_STATUS_UPDATE_TAG_BYTE then
            (case des_reply body of
               None \<Rightarrow> afail (Bail ''failed to deserialize StandbyReply'')
             | Some reply \<Rightarrow> on_senders (record_standby_reply i reply))
          else if tag = NEON_STATUS_UPDATE_TAG_BYTE then
            (if length msg < 9 then afail (Panic ''slice index out of range'')
             else case pf_parse (drop 9 msg) of
               Inl e \<Rightarrow> afail e
             | Inr ps_feedback \<Rightarrow> abind (on_senders (record_ps_feedback i ps_feedback)) (\<lambda>f.
                 update_remote_consistent_lsn C W (pf_remote_consistent_lsn f)))
          else areturn ())"

subsection \<open>Chunks\<close>

lemma chunk_end_bounds:
  assumes "start_pos < end_pos" "chunk_end_pos start_pos end_pos = Inr c"
  shows "start_pos < c" "c \<le> end_pos" "unat c - unat start_pos \<le> MAX_SEND_SIZE" "c = end_pos \<or> unat c mod 8192 = 0"
proof -
  obtain e where e: "lsn_add start_pos (of_nat MAX_SEND_SIZE) = Inr e" using assms(2) by (auto simp: chunk_end_pos_def monad_simps)
  have u: "unat e = unat start_pos + 131072" using lsn_add_unat [OF e] by (simp add: MAX_SEND_SIZE_def)
  have "start_pos < c \<and> c \<le> end_pos \<and> unat c - unat start_pos \<le> MAX_SEND_SIZE \<and> (c = end_pos \<or> unat c mod 8192 = 0)"
  proof (cases "end_pos \<le> e")
    case True
    then show ?thesis using assms e u by (simp add: chunk_end_pos_def MAX_SEND_SIZE_def word_le_nat_alt)
  next
    case False
    have "block_offset e \<le> e" by (simp add: word_le_nat_alt unat_block_offset)
    then have "c = e - block_offset e" using assms(2) e False by (simp add: chunk_end_pos_def checked_sub_def)
    then have c: "unat c = unat e - unat e mod 8192"
      using \<open>block_offset e \<le> e\<close> by (simp add: unat_sub unat_block_offset)
    then have "unat c mod 8192 = 0" by (simp add: minus_mod_eq_mult_div)
    moreover have "unat e mod 8192 < 8192" by simp
    then have "unat start_pos < unat c" "unat c \<le> unat start_pos + 131072" using c u by linarith+
    ultimately show ?thesis
      using False u by (auto simp: word_less_nat_alt word_le_nat_alt MAX_SEND_SIZE_def)
  qed
  then show "start_pos < c" "c \<le> end_pos" "unat c - unat start_pos \<le> MAX_SEND_SIZE" "c = end_pos \<or> unat c mod 8192 = 0"
    by simp_all
qed

lemma chunk_end_total:
  assumes "unat start_pos + MAX_SEND_SIZE < 2 ^ 64"
  shows "\<exists>c. chunk_end_pos start_pos end_pos = Inr c"
proof -
  have "unat (of_nat MAX_SEND_SIZE :: u64) = MAX_SEND_SIZE" by (simp add: MAX_SEND_SIZE_def)
  then have a: "lsn_add start_pos (of_nat MAX_SEND_SIZE) = Inr (start_pos + of_nat MAX_SEND_SIZE)"
    using assms by (simp only: lsn_add_Inr)
  have "block_offset e \<le> e" for e by (simp add: word_le_nat_alt unat_block_offset)
  then show ?thesis using a by (simp add: chunk_end_pos_def checked_sub_def)
qed

text \<open>C25: A chunk that is sent is not empty, does not reach beyond the end of the available WAL, fits the send
  buffer, and ends at the end of the available WAL or at a page boundary.\<close>

theorem chunk_bounds_ok:
  assumes "start_pos < end_pos" "unat start_pos + MAX_SEND_SIZE < 2 ^ 64"
  shows "\<exists>c. chunk_end_pos start_pos end_pos = Inr c \<and> start_pos < c \<and> c \<le> end_pos \<and>
    unat c - unat start_pos \<le> MAX_SEND_SIZE \<and> (c = end_pos \<or> block_offset c = 0)"
proof -
  obtain c where c: "chunk_end_pos start_pos end_pos = Inr c" using chunk_end_total [OF assms(2)] by blast
  have "block_offset c = 0 \<longleftrightarrow> unat c mod 8192 = 0" by (metis unat_block_offset unsigned_eq_0_iff)
  then show ?thesis using c chunk_end_bounds [OF assms(1) c] by (intro exI [of _ c]) simp
qed

theorem chunk_bounds_ok_witness:
  "chunk_end_pos 5000 200000 = Inr 131072 \<and> (131072 :: lsn) \<le> 200000"
proof -
  obtain c where "chunk_end_pos 5000 200000 = Inr c" "c \<le> 200000"
    using chunk_bounds_ok [of 5000 200000] by (auto simp: MAX_SEND_SIZE_def)
  moreover have "chunk_end_pos 5000 200000 = Inr 131072"
    by (simp add: chunk_end_pos_def lsn_add_def checked_add_def checked_sub_def MAX_SEND_SIZE_def block_offset_def XLOG_BLCKSZ_def)
  ultimately show ?thesis by simp
qed

subsection \<open>What is sent\<close>

text \<open>A sender whose reader stands at its position in a log that reaches to the end of the available WAL;
  a sender of uncommitted WAL is in the current term.\<close>

definition sender_ok :: "'c ctrl_storage \<Rightarrow> ('c, 'w, 's, 'h) timeline \<Rightarrow> u64 \<Rightarrow> wal_sender \<Rightarrow> fs \<Rightarrow> bool" where
  "sender_ok C tm sz s fs \<longleftrightarrow> reader_ok (wsd_reader s) fs \<and> wr_wal_seg_size (wsd_reader s) = sz \<and>
     wr_pos (wsd_reader s) = wsd_start_pos s \<and> unat (wsd_end_pos s) + MAX_SEND_SIZE < 2 ^ 64 \<and>
     (wsd_start_pos s \<le> wsd_end_pos s \<longrightarrow>
        has_bytes (log_byte sz (file_of fs)) (wsd_start_pos s) (unat (wsd_end_pos s) - unat (wsd_start_pos s))) \<and>
     (\<forall>t. wsd_term s = Some t \<longrightarrow> acquire_term C t tm = Inr ())"

lemma unat_plus_word:
  assumes "unat p = unat (a :: lsn) + n"
  shows "p = a + of_nat n"
proof -
  have "p = of_nat (unat p)" by simp
  also have "\<dots> = a + of_nat n" unfolding assms by simp
  finally show ?thesis .
qed

lemma has_bytes_sub:
  assumes "has_bytes b l n" "unat l \<le> unat l'" "unat l' + m \<le> unat l + n"
  shows "has_bytes b l' m"
  using assms unfolding has_bytes_def by auto

lemma send_chunk_ok:
  assumes "sender_ok C tm sz s fs" "wsd_start_pos s < wsd_end_pos s"
  shows "\<exists>m s'. send_chunk C B E ro tm (s, fs) = (Inr m, (s', fs)) \<and> xd_wal_start m = wsd_start_pos s \<and>
    xd_wal_end m = wsd_end_pos s \<and> 0 < length (xd_data m) \<and> length (xd_data m) \<le> MAX_SEND_SIZE \<and>
    bytes_at (log_byte sz (file_of fs)) (wsd_start_pos s) (xd_data m) \<and>
    unat (wsd_start_pos s') = unat (wsd_start_pos s) + length (xd_data m) \<and> wsd_start_pos s' \<le> wsd_end_pos s \<and>
    wsd_end_pos s' = wsd_end_pos s \<and> sender_ok C tm sz s' fs"
proof -
  let ?a = "wsd_start_pos s" and ?e = "wsd_end_pos s" and ?r = "wsd_reader s"
  have lt: "unat ?a < unat ?e" using assms(2) by (simp add: word_less_nat_alt)
  have r: "reader_ok ?r fs" "wr_wal_seg_size ?r = sz" "wr_pos ?r = ?a"
    and fit: "unat ?e + MAX_SEND_SIZE < 2 ^ 64"
    and log: "has_bytes (log_byte sz (file_of fs)) ?a (unat ?e - unat ?a)"
    and t: "(case wsd_term s of None \<Rightarrow> Inr () | Some t \<Rightarrow> acquire_term C t tm) = Inr ()"
    using assms by (auto simp: sender_ok_def split: option.splits)
  have "unat ?a + MAX_SEND_SIZE < 2 ^ 64" using fit lt by linarith
  then obtain c where c: "chunk_end_pos ?a ?e = Inr c" using chunk_end_total [of ?a ?e] by blast
  note cb = chunk_end_bounds [OF assms(2) c]
  have cu: "unat ?a < unat c" "unat c \<le> unat ?e" using cb(1,2) by (simp_all add: word_less_nat_alt word_le_nat_alt)
  define n where "n = unat (c - ?a)"
  have n: "n = unat c - unat ?a" using cb(1) by (simp add: n_def unat_sub word_less_nat_alt word_le_nat_alt)
  define m where "m = min n (unat sz - unat (segment_offset ?a sz))"
  have mn: "m \<le> n" by (simp add: m_def)
  have mb: "unat ?a + m \<le> unat ?a + (unat ?e - unat ?a)" "unat ?a + m < 2 ^ 64" "0 < n" using n mn cu fit by linarith+
  from read_segment_fine [OF r(1) mb(3) r(2,3) m_def has_bytes_sub [OF log order.refl mb(1)] mb(2), of B E ro]
  obtain bs r' where rd: "wal_reader_read B E ro n (?r, fs) = (Inr bs, (r', fs))" "length bs = m"
    "bytes_at (log_byte sz (file_of fs)) ?a bs" "reader_ok r' fs" "wr_wal_seg_size r' = sz" "unat (wr_pos r') = unat ?a + m"
    by blast
  have "unat (segment_offset ?a sz) < unat sz" using r(1,2) segment_offset_less by (auto simp: reader_ok_def seg_size_ok_def)
  then have m0: "0 < m" using mb(3) by (simp add: m_def)
  define p where "p = wr_pos r'"
  have p: "unat p = unat ?a + m" "p = ?a + of_nat m" using rd(6) unat_plus_word by (simp_all add: p_def)
  have "lsn_add ?a (of_nat (length bs)) = Inr p"
    unfolding lsn_add_Inr rd(2) using p(2) mb(2) by (simp add: unat_of_nat take_bit_eq_mod)
  then have s: "send_chunk C B E ro tm (s, fs) = (Inr \<lparr>xd_wal_start = ?a, xd_wal_end = ?e, xd_data = bs\<rparr>,
      (s\<lparr>wsd_reader := r', wsd_start_pos := p\<rparr>, fs))"
    using assms(2) c cb(3) n rd(1) t by (simp add: send_chunk_def Let_def n_def [symmetric])
  have pe: "unat p \<le> unat ?e" "unat ?a \<le> unat p" using p(1) mn n cu by linarith+
  have "unat p + (unat ?e - unat p) \<le> unat ?a + (unat ?e - unat ?a)" using pe by linarith
  from has_bytes_sub [OF log pe(2) this]
  have "sender_ok C tm sz (s\<lparr>wsd_reader := r', wsd_start_pos := p\<rparr>) fs"
    using assms(1) rd(4,5) by (simp add: sender_ok_def p_def)
  moreover have "length bs \<le> MAX_SEND_SIZE" using rd(2) mn n cb(3) by linarith
  ultimately show ?thesis
    using s m0 rd(2,3) p(1) pe(1) by (intro exI [of _ "\<lparr>xd_wal_start = ?a, xd_wal_end = ?e, xd_data = bs\<rparr>"]
        exI [of _ "s\<lparr>wsd_reader := r', wsd_start_pos := p\<rparr>"]) (simp add: word_le_nat_alt)
qed

text \<open>The messages are contiguous from a position.\<close>

fun contiguous :: "lsn \<Rightarrow> xlog_data list \<Rightarrow> bool" where
  "contiguous p [] = True"
| "contiguous p (m # ms) = (xd_wal_start m = p \<and> xd_data m \<noteq> [] \<and> length (xd_data m) \<le> MAX_SEND_SIZE \<and>
     contiguous (p + of_nat (length (xd_data m))) ms)"

lemma bytes_at_append:
  assumes "bytes_at b l xs" "bytes_at b l' ys" "unat l' = unat l + length xs"
  shows "bytes_at b l (xs @ ys)"
  using assms unfolding bytes_at_def by (auto simp: nth_append)

lemma send_available_ok:
  assumes "sender_ok C tm sz s fs" "wsd_start_pos s \<le> wsd_end_pos s" "unat (wsd_end_pos s) - unat (wsd_start_pos s) < n"
  shows "\<exists>ms s'. send_available n C B E ro tm (s, fs) = (Inr ms, (s', fs)) \<and> contiguous (wsd_start_pos s) ms \<and>
    (\<forall>m \<in> set ms. xd_wal_end m = wsd_end_pos s) \<and> wsd_start_pos s' = wsd_end_pos s \<and>
    length (concat (map xd_data ms)) = unat (wsd_end_pos s) - unat (wsd_start_pos s) \<and>
    bytes_at (log_byte sz (file_of fs)) (wsd_start_pos s) (concat (map xd_data ms))"
  using assms
proof (induction n arbitrary: s)
  case (Suc n)
  show ?case
  proof (cases "wsd_start_pos s < wsd_end_pos s")
    case False
    then show ?thesis using Suc.prems by (auto simp: bytes_at_def)
  next
    case True
    from send_chunk_ok [OF Suc.prems(1) True, of B E ro]
    obtain m s1 where 1: "send_chunk C B E ro tm (s, fs) = (Inr m, (s1, fs))" "xd_wal_start m = wsd_start_pos s"
      "xd_wal_end m = wsd_end_pos s" "0 < length (xd_data m)" "length (xd_data m) \<le> MAX_SEND_SIZE"
      "bytes_at (log_byte sz (file_of fs)) (wsd_start_pos s) (xd_data m)"
      "unat (wsd_start_pos s1) = unat (wsd_start_pos s) + length (xd_data m)" "wsd_start_pos s1 \<le> wsd_end_pos s"
      "wsd_end_pos s1 = wsd_end_pos s" "sender_ok C tm sz s1 fs" by blast
    have "unat (wsd_end_pos s1) - unat (wsd_start_pos s1) < n"
      using 1(4,7,8) Suc.prems(3) unfolding 1(9) word_le_nat_alt by linarith
    from Suc.IH [OF 1(10) _ this] 1(8,9)
    obtain ms s' where 2: "send_available n C B E ro tm (s1, fs) = (Inr ms, (s', fs))" "contiguous (wsd_start_pos s1) ms"
      "\<forall>m \<in> set ms. xd_wal_end m = wsd_end_pos s" "wsd_start_pos s' = wsd_end_pos s"
      "length (concat (map xd_data ms)) = unat (wsd_end_pos s) - unat (wsd_start_pos s1)"
      "bytes_at (log_byte sz (file_of fs)) (wsd_start_pos s1) (concat (map xd_data ms))" by auto
    have p: "wsd_start_pos s + of_nat (length (xd_data m)) = wsd_start_pos s1"
      using unat_plus_word [OF 1(7)] by simp
    have "contiguous (wsd_start_pos s) (m # ms)" using 1(2,4,5) 2(2) p by auto
    moreover have "bytes_at (log_byte sz (file_of fs)) (wsd_start_pos s) (concat (map xd_data (m # ms)))"
      using bytes_at_append [OF 1(6) 2(6) 1(7)] by simp
    moreover have "length (concat (map xd_data (m # ms))) = unat (wsd_end_pos s) - unat (wsd_start_pos s)"
      using 2(5) 1(7,8) by (simp add: word_le_nat_alt)
    ultimately show ?thesis
      using True 1(1,3) 2(1,3,4) by (intro exI [of _ "m # ms"] exI [of _ s']) (simp add: abind_def areturn_def)
  qed
qed simp

text \<open>C10: Written WAL reaches the receiver. After WAL was written at the end of the log, a sender whose
  reader starts where the write began sends, in at most as many turns as there are bytes, messages that follow each
  other without gap or overlap, each at most the send buffer long, whose data put together is what was written.\<close>

theorem written_wal_delivered:
  assumes "log_ok st" "unat (ph_write_lsn st) + length buf + MAX_SEND_SIZE < 2 ^ 64"
    and w: "write_exact (ph_write_lsn st) buf st = (x, st')"
    and r: "wr_wal_seg_size (wsd_reader s) = ph_wal_seg_size st" "wr_pos (wsd_reader s) = ph_write_lsn st"
      "wr_wal_segment (wsd_reader s) = None" "wr_timeline_start_lsn (wsd_reader s) \<le> ph_write_lsn st"
      "wr_local_start_lsn (wsd_reader s) \<le> ph_write_lsn st"
    and s: "wsd_start_pos s = ph_write_lsn st" "wsd_end_pos s = ph_write_lsn st'"
      "\<And>t. wsd_term s = Some t \<Longrightarrow> acquire_term C t tm = Inr ()"
  shows "\<exists>ms s'. send_available (Suc (length buf)) C B E ro tm (s, ph_fs st') = (Inr ms, (s', ph_fs st')) \<and>
    contiguous (ph_write_lsn st) ms \<and> concat (map xd_data ms) = buf \<and> wsd_start_pos s' = ph_write_lsn st'"
proof -
  let ?l = "ph_write_lsn st" and ?sz = "ph_wal_seg_size st"
  have b: "unat ?l + length buf < 2 ^ 64" using assms(2) by linarith
  have wl: "write_loop buf st = (x, st')" using w by (simp add: write_exact_def abind_def)
  then have f: "x = Inr ()" "log_ok st'" "ph_wal_seg_size st' = ?sz" "holds_at ?l buf (byte_at st) (byte_at st')"
    using write_loop_fine [OF assms(1) b] by auto
  have e: "unat (ph_write_lsn st') = unat ?l + length buf" by (rule write_exact_frame(3) [OF w refl f(1) b])
  have ok: "sender_ok C tm ?sz s (ph_fs st')"
    using f(2,3) r s e assms(2) holds_at_has_bytes [OF f(4) order.refl]
    by (auto simp: sender_ok_def reader_ok_def log_ok_def)
  have le: "wsd_start_pos s \<le> wsd_end_pos s" "unat (wsd_end_pos s) - unat (wsd_start_pos s) < Suc (length buf)"
    using s e by (simp_all add: word_le_nat_alt)
  from send_available_ok [OF ok le, of B E ro]
  obtain ms s' where ms: "send_available (Suc (length buf)) C B E ro tm (s, ph_fs st') = (Inr ms, (s', ph_fs st'))"
    "contiguous ?l ms" "wsd_start_pos s' = ph_write_lsn st'" "length (concat (map xd_data ms)) = length buf"
    "bytes_at (byte_at st') ?l (concat (map xd_data ms))"
    unfolding s f(3) [symmetric] e by auto
  have "concat (map xd_data ms) = buf"
    using bytes_at_unique [OF f(4) ms(5)] ms(4) b by simp
  with ms show ?thesis by blast
qed

definition small_sender :: "lsn \<Rightarrow> wal_sender" where
  "small_sender l = \<lparr>wsd_start_pos = 30, wsd_end_pos = l, wsd_term = None, wsd_id = 0, wsd_reader = small_reader\<rparr>"

theorem written_wal_delivered_witness:
  "\<exists>st' ms s'. write_exact 30 [5, 6, 7, 8] small_log = (Inr (), st') \<and>
     send_available 5 (file_ctrl (demo_codec example_state)) (\<lambda>_. demo_bindings) (\<lambda>_. demo_encoders)
       (\<lambda>_ _. Inl (Bail ''none'')) demo_timeline (small_sender (ph_write_lsn st'), ph_fs st') = (Inr ms, (s', ph_fs st')) \<and>
     contiguous 30 ms \<and> concat (map xd_data ms) = [5, 6, 7, 8]"
proof -
  have p: "ph_write_lsn small_log = 30" "ph_wal_seg_size small_log = 16" by (simp_all add: small_log_def)
  obtain st' where "write_loop [5, 6, 7, 8] small_log = (Inr (), st')"
    using write_loop_fine [OF small_log_ok, of "[5, 6, 7, 8]"] p by auto
  then have w: "write_exact (ph_write_lsn small_log) [5, 6, 7, 8] small_log = (Inr (), st')"
    by (simp add: write_exact_def abind_def)
  have b: "unat (ph_write_lsn small_log) + length [5, 6, 7, 8 :: u8] + MAX_SEND_SIZE < 2 ^ 64"
    by (simp add: p MAX_SEND_SIZE_def)
  have "\<exists>ms s'. send_available (Suc (length [5, 6, 7, 8 :: u8])) (file_ctrl (demo_codec example_state)) (\<lambda>_. demo_bindings)
      (\<lambda>_. demo_encoders) (\<lambda>_ _. Inl (Bail ''none'')) demo_timeline (small_sender (ph_write_lsn st'), ph_fs st') =
      (Inr ms, (s', ph_fs st')) \<and> contiguous (ph_write_lsn small_log) ms \<and> concat (map xd_data ms) = [5, 6, 7, 8] \<and>
      wsd_start_pos s' = ph_write_lsn st'"
    by (rule written_wal_delivered [OF small_log_ok b w]) (simp_all add: small_sender_def small_reader_def p)
  moreover have "Suc (length [5, 6, 7, 8 :: u8]) = 5" by simp
  ultimately show ?thesis using w unfolding p by metis
qed

lemma wait_for_lsn_Some: "wait_for_lsn l t ws = Inr (Some e) \<Longrightarrow> l < e \<and> (\<exists>w \<in> set ws. end_watch_get w = e)"
  by (induction l t ws rule: wait_for_lsn.induct) (auto split: if_splits end_watch.splits option.splits)

text \<open>C26: Waiting for WAL ends normally only when there is WAL behind the start position, up to an end that the
  watch channel has reported; so the sender never sends WAL that is not committed (or, in recovery, flushed).\<close>

theorem wait_wal_sound:
  assumes "wait_wal ts s ks = ((Some (Inr ()), s'), ks')"
  shows "wsd_start_pos s' = wsd_start_pos s \<and> wsd_start_pos s' < wsd_end_pos s' \<and>
    (\<exists>t \<in> set ts. \<exists>w \<in> set (wt_first t # wt_updates t). end_watch_get w = wsd_end_pos s')"
  using assms
proof (induction ts arbitrary: s ks)
  case (Cons t ts)
  let ?s = "s\<lparr>wsd_end_pos := end_watch_get (wt_first t)\<rparr>"
  consider (first) "s' = ?s" "wsd_start_pos s < end_watch_get (wt_first t)"
    | (update) e where "wait_for_lsn (wsd_start_pos s) (wsd_term s) (wt_updates t) = Inr (Some e)" "s' = ?s\<lparr>wsd_end_pos := e\<rparr>"
    | (again) "wait_wal ts ?s (ks @ [end_watch_get (wt_first t)]) = ((Some (Inr ()), s'), ks')"
    using Cons.prems by (auto simp: Let_def split: if_splits sum.splits option.splits bool.splits)
  then show ?case
  proof cases
    case again
    from Cons.IH [OF this] show ?thesis by auto
  qed (auto dest!: wait_for_lsn_Some)
qed simp

theorem wait_wal_sound_witness:
  "wait_wal [\<lparr>wt_first = Commit_watch 30, wt_updates = [Commit_watch 30, Commit_watch 40], wt_timeline = demo_timeline\<rparr>]
     (small_sender 0) [] = ((Some (Inr ()), small_sender 40), []) \<and> wsd_start_pos (small_sender 40) < wsd_end_pos (small_sender 40)"
proof -
  have "wait_wal [\<lparr>wt_first = Commit_watch 30, wt_updates = [Commit_watch 30, Commit_watch 40], wt_timeline = demo_timeline\<rparr>]
     (small_sender 0) [] = ((Some (Inr ()), small_sender 40), [])"
    by (simp add: small_sender_def)
  with wait_wal_sound [OF this] show ?thesis by blast
qed

text \<open>A status update of a pageserver that is shorter than its header is not refused with an error: the
  handler panics, whatever the state of the timeline.\<close>

theorem short_status_update_panics:
  "length body < 8 \<Longrightarrow> \<exists>p. handle_feedback C W dh dr i (NEON_STATUS_UPDATE_TAG_BYTE # body) tm = (Inl (Panic p), tm)"
  by (simp add: handle_feedback_def NEON_STATUS_UPDATE_TAG_BYTE_def HOT_STANDBY_FEEDBACK_TAG_BYTE_def
      STANDBY_STATUS_UPDATE_TAG_BYTE_def afail_def)

theorem short_status_update_panics_witness:
  "\<exists>p. handle_feedback (file_ctrl (demo_codec example_state)) demo_wal (\<lambda>_. None) (\<lambda>_. None) 0 [122] demo_timeline =
     (Inl (Panic p), demo_timeline)"
  using short_status_update_panics [of "[]" "file_ctrl (demo_codec example_state)" demo_wal "\<lambda>_. None" "\<lambda>_. None" 0 demo_timeline]
  by (simp add: NEON_STATUS_UPDATE_TAG_BYTE_def)

end
