(* ===== verification/Recovery.thy ===== *)
theory Recovery
  imports SendWal
begin

text \<open>
  Recovery of a safekeeper from its peers (safekeeper/src/recovery.rs): the choice of the donors, the handshake
  in which the safekeeper acts as its own proposer on behalf of the leader of the donor's term, and the append
  requests made of the streamed WAL. The status request to the donor is an argument that gives its term and history.
\<close>

record donor =
  dn_sk_id :: node_id
  dn_term :: term_no
  dn_flush_lsn :: lsn
  dn_pg_connstr :: string
  dn_http_connstr :: string
  dn_https_connstr :: "string option"

definition donor_from :: "peer_info \<Rightarrow> donor" where
  "donor_from p = \<lparr>dn_sk_id = pi_sk_id p, dn_term = pi_term p, dn_flush_lsn = pi_flush_lsn p,
     dn_pg_connstr = pi_pg_connstr p, dn_http_connstr = pi_http_connstr p, dn_https_connstr = pi_https_connstr p\<rparr>"

definition peer_tl :: "peer_info \<Rightarrow> term_lsn" where
  "peer_tl p = TermLsn (pi_last_log_term p) (pi_flush_lsn p)"

text \<open>A stable sort in descending order.\<close>

definition sort_desc :: "('a \<Rightarrow> 'b::linorder) \<Rightarrow> 'a list \<Rightarrow> 'a list" where
  "sort_desc f xs = rev (sort_key f (rev xs))"

record recovery_needed_info =
  rn_term :: term_no
  rn_last_log_term :: term_no
  rn_flush_lsn :: lsn
  rn_peers :: "peer_info list"
  rn_num_streaming_computes :: nat
  rn_donors :: "donor list"

definition recovery_needed ::
  "'c ctrl_storage \<Rightarrow> 'w wal_storage \<Rightarrow> nat \<Rightarrow> nat \<Rightarrow> ('c, 'w, 's, 'h) timeline \<Rightarrow> recovery_needed_info res" where
  "recovery_needed C W now heartbeat_timeout tli =
     rbind (ssk_state (sh_sk (tl_shared tli))) (\<lambda>s.
     rbind (ssk_last_log_term C W (sh_sk (tl_shared tli))) (\<lambda>last_log_term.
     rbind (ssk_flush_lsn C W (sh_sk (tl_shared tli))) (\<lambda>flush_lsn.
     let t = cur_term C s;
         peers = sort_desc peer_tl (get_peers now heartbeat_timeout (tl_shared tli));
         num_streaming_computes = wrv_get_num_streaming (tl_walreceivers tli);
         donors = (if num_streaming_computes > 0 then []
                   else map donor_from (filter (\<lambda>candidate. TermLsn last_log_term flush_lsn < peer_tl candidate \<and>
                     pi_term candidate = pi_last_log_term candidate \<and> pi_term candidate \<ge> t) peers))
     in Inr \<lparr>rn_term = t, rn_last_log_term = last_log_term, rn_flush_lsn = flush_lsn, rn_peers = peers,
          rn_num_streaming_computes = num_streaming_computes, rn_donors = donors\<rparr>)))"

text \<open>\<open>recover\<close> up to the streaming: the result is where to start.\<close>

definition recover_handshake ::
  "'c ctrl_storage \<Rightarrow> 'w wal_storage \<Rightarrow> donor \<Rightarrow> (term_no \<times> term_history) res \<Rightarrow> (('c, 'w, 's, 'h) timeline, lsn) act" where
  "recover_handshake C W d timeline_info tli =
     (case timeline_info of
        Inl e \<Rightarrow> (Inl e, tli)
      | Inr (donor_term, donor_th) \<Rightarrow>
          if donor_term \<noteq> dn_term d then (Inl (Bail ''donor term changed''), tli)
          else
            abind (tl_process_msg C W (PVoteRequest \<lparr>vq_generation = INVALID_GENERATION, vq_term = dn_term d\<rparr>)) (\<lambda>reply tli.
              case reply of
                Some (AVoteResponse vote_response) \<Rightarrow>
                  if vs_term vote_response \<noteq> dn_term d then (Inl (Bail ''our term changed''), tli)
                  else (case find_highest_common_point donor_th (vs_term_history vote_response) (vs_flush_lsn vote_response) of
                    Inl e \<Rightarrow> (Inl e, tli)
                  | Inr None \<Rightarrow> (Inl (Bail ''could not find common point in histories''), tli)
                  | Inr (Some last_common_point) \<Rightarrow>
                      abind (tl_process_msg C W (PElected \<lparr>pe_generation = INVALID_GENERATION, pe_term = dn_term d,
                          pe_start_streaming_at = tl_lsn last_common_point, pe_term_history = donor_th\<rparr>))
                        (\<lambda>_. areturn (tl_lsn last_common_point)) tli)
              | _ \<Rightarrow> (Inl (Bail ''unexpected VoteRequest response''), tli)) tli)"

text \<open>The request made of a message of the stream.\<close>

definition recovery_append :: "donor \<Rightarrow> xlog_data \<Rightarrow> proposer_acceptor_message res" where
  "recovery_append d xl =
     rbind (lsn_add (xd_wal_start xl) (of_nat (length (xd_data xl)))) (\<lambda>end_lsn.
     Inr (PAppendRequest \<lparr>ar_h = \<lparr>ah_generation = INVALID_GENERATION, ah_term = dn_term d, ah_begin_lsn = xd_wal_start xl,
       ah_end_lsn = end_lsn, ah_commit_lsn = lsn_INVALID, ah_truncate_lsn = lsn_INVALID\<rparr>, ar_wal_data = xd_data xl\<rparr>))"

text \<open>The replies of the acceptor: streaming goes on until the channel is closed or the term changes.\<close>

fun read_replies :: "term_no \<Rightarrow> acceptor_proposer_message list \<Rightarrow> unit res" where
  "read_replies donor_term [] = Inr ()"
| "read_replies donor_term (AAppendResponse ar # msgs) =
     (if ap_term ar \<noteq> donor_term then Inl (Bail ''donor term changed'') else read_replies donor_term msgs)"
| "read_replies donor_term (_ # msgs) = read_replies donor_term msgs"

subsection \<open>The donors\<close>

lemma set_sort_desc [simp]: "set (sort_desc f xs) = set xs"
  by (simp add: sort_desc_def)

lemma filter_sort_desc:
  assumes "filter P (sort_desc f xs) = d # ds" "x \<in> set xs" "P x"
  shows "f x \<le> f d"
proof -
  have "sorted (map f (sort_key f (rev xs)))" by simp
  then have "sorted (map f (filter P (sort_key f (rev xs))))" by (rule sorted_filter)
  then have "sorted (map f (rev (filter P (sort_desc f xs))))" by (simp add: sort_desc_def rev_filter)
  then have le: "\<forall>y \<in> set ds. f y \<le> f d" unfolding assms(1) by (auto simp: sorted_append)
  have "x \<in> set (filter P (sort_desc f xs))" using assms(2,3) by simp
  then show ?thesis unfolding assms(1) using le by auto
qed

definition recovers_from :: "recovery_needed_info \<Rightarrow> peer_info \<Rightarrow> bool" where
  "recovers_from info p \<longleftrightarrow> TermLsn (rn_last_log_term info) (rn_flush_lsn info) < peer_tl p \<and>
     pi_term p = pi_last_log_term p \<and> rn_term info \<le> pi_term p"

lemma recovery_needed_Inr:
  assumes "recovery_needed C W now hb tli = Inr info"
  shows "rn_donors info = (if wrv_get_num_streaming (tl_walreceivers tli) > 0 then []
    else map donor_from (filter (recovers_from info) (sort_desc peer_tl (get_peers now hb (tl_shared tli)))))"
proof -
  have "(\<lambda>candidate. TermLsn (rn_last_log_term info) (rn_flush_lsn info) < peer_tl candidate \<and>
      pi_term candidate = pi_last_log_term candidate \<and> pi_term candidate \<ge> rn_term info) = recovers_from info"
    by (rule ext) (simp add: recovers_from_def)
  then show ?thesis
    using assms by (auto simp: recovery_needed_def rbind_def Let_def split: sum.splits)
qed

text \<open>C23: Recovery pulls WAL only from peers that are strictly ahead and whose data can be taken over
  without an election: without a streaming compute the donors are exactly the live peers with a higher
  last log term and flush position, whose term is their last log term and not below ours; with one there are none; and the first donor is the
  most advanced of them.\<close>

theorem recovery_donors:
  assumes "recovery_needed C W now hb tli = Inr info"
  shows "set (rn_donors info) = (if wrv_get_num_streaming (tl_walreceivers tli) > 0 then {}
      else donor_from ` {p \<in> set (get_peers now hb (tl_shared tli)). recovers_from info p}) \<and>
    (\<forall>d ds. rn_donors info = d # ds \<longrightarrow>
      (\<forall>p \<in> set (get_peers now hb (tl_shared tli)). recovers_from info p \<longrightarrow> peer_tl p \<le> TermLsn (dn_term d) (dn_flush_lsn d)))"
proof (cases "wrv_get_num_streaming (tl_walreceivers tli) > 0")
  case False
  let ?peers = "get_peers now hb (tl_shared tli)"
  have donors: "rn_donors info = map donor_from (filter (recovers_from info) (sort_desc peer_tl ?peers))"
    using recovery_needed_Inr [OF assms] False by simp
  have "peer_tl p \<le> TermLsn (dn_term d) (dn_flush_lsn d)"
    if d: "rn_donors info = d # ds" and p: "p \<in> set ?peers" "recovers_from info p" for d ds p
  proof -
    obtain q qs where q: "filter (recovers_from info) (sort_desc peer_tl ?peers) = q # qs" "d = donor_from q"
      using d donors by (cases "filter (recovers_from info) (sort_desc peer_tl ?peers)") auto
    then have "recovers_from info q" by (metis filter_id_conv list.set_intros(1) set_filter mem_Collect_eq)
    then have "peer_tl q = TermLsn (dn_term d) (dn_flush_lsn d)"
      by (simp add: q(2) donor_from_def peer_tl_def recovers_from_def)
    then show ?thesis using filter_sort_desc [OF q(1) p] by simp
  qed
  then show ?thesis using False donors by auto
qed (use recovery_needed_Inr [OF assms] in simp)

subsection \<open>Recovery and membership generations\<close>

text \<open>C37: Peer recovery does not work for a timeline with a membership configuration: the requests it sends to its own
  acceptor carry the invalid generation, and when the timeline has any other generation the vote request is
  refused, so that the handshake fails with the state unchanged, whatever the donor has.\<close>

theorem recovery_refused_with_generation:
  assumes "sh_sk (tl_shared tli) = Loaded sk" "\<not> tl_cancelled tli" "sk_generation_of C sk \<noteq> INVALID_GENERATION"
  shows "\<exists>tli'. recover_handshake C W d (Inr (dn_term d, th)) tli =
      (Inl (Bail ''refusing VoteRequest due to generation mismatch''), tli') \<and> tl_shared tli' = tl_shared tli"
proof -
  have "process_msg C W (PVoteRequest \<lparr>vq_generation = INVALID_GENERATION, vq_term = dn_term d\<rparr>) sk =
      (Inl (Bail ''refusing VoteRequest due to generation mismatch''), sk)"
    using assms(3) by (simp add: handle_vote_request_def)
  then have "\<exists>tli'. tl_process_msg C W (PVoteRequest \<lparr>vq_generation = INVALID_GENERATION, vq_term = dn_term d\<rparr>) tli =
      (Inl (Bail ''refusing VoteRequest due to generation mismatch''), tli') \<and> tl_shared tli' = tl_shared tli"
    using assms(1,2) by (simp add: tl_process_msg_def abind_def check_cancelled_def with_guard_def on_sk_def guard_drop_def
        ssk_last_log_term_def monad_simps)
  then show ?thesis by (auto simp: recover_handshake_def abind_def)
qed

definition ahead_peer :: peer_info where
  "ahead_peer = \<lparr>pi_sk_id = 2, pi_term = 1, pi_last_log_term = 1, pi_flush_lsn = 5000, pi_commit_lsn = 4096,
     pi_local_start_lsn = 4096, pi_ts = 3, pi_pg_connstr = ''sk2:5454'', pi_http_connstr = ''sk2:7676'', pi_https_connstr = None\<rparr>"

definition lagging_timeline :: "(file_storage, phys_storage, nat, nat) timeline" where
  "lagging_timeline = demo_timeline\<lparr>tl_shared := (tl_shared demo_timeline)\<lparr>sh_peers_info := [ahead_peer]\<rparr>\<rparr>"

theorem recovery_donors_witness:
  "\<exists>info. recovery_needed (file_ctrl (demo_codec example_state)) demo_wal 4 5 lagging_timeline = Inr info \<and>
     set (rn_donors info) = {donor_from ahead_peer}"
proof -
  have t: "as_get_last_log_term (ps_acceptor_state example_state) 4096 = 1"
    by (simp add: example_state_def as_get_last_log_term_def)
  define info where "info = \<lparr>rn_term = 1, rn_last_log_term = 1, rn_flush_lsn = 4096, rn_peers = [ahead_peer],
    rn_num_streaming_computes = 0, rn_donors = [donor_from ahead_peer]\<rparr>"
  have r: "recovers_from info ahead_peer"
    by (simp add: recovers_from_def info_def peer_tl_def ahead_peer_def less_term_lsn_def)
  have p: "get_peers 4 5 (tl_shared lagging_timeline) = [ahead_peer]" "wrv_get_num_streaming (tl_walreceivers lagging_timeline) = 0"
    by (simp_all add: get_peers_def lagging_timeline_def ahead_peer_def demo_timeline_def wrv_get_num_streaming_def
        wrv_new_def flatten_def)
  have i: "recovery_needed (file_ctrl (demo_codec example_state)) demo_wal 4 5 lagging_timeline = Inr info"
    using r unfolding recovery_needed_def p Let_def
    by (simp add: lagging_timeline_def demo_timeline_def shared_state_new_def demo_sk_def ssk_last_log_term_def
        phys_wal_def idle_storage_def file_ctrl_def demo_store_def t sort_desc_def info_def recovers_from_def)
      (simp add: example_state_def ahead_peer_def)
  from recovery_donors [OF i] i show ?thesis using r p by auto
qed

theorem recovery_refused_with_generation_witness:
  "\<exists>tli'. recover_handshake (file_ctrl (demo_codec example_state)) demo_wal (donor_from ahead_peer)
      (Inr (dn_term (donor_from ahead_peer), [TermLsn 1 4096])) demo_timeline =
    (Inl (Bail ''refusing VoteRequest due to generation mismatch''), tli')"
proof -
  have "sh_sk (tl_shared demo_timeline) = Loaded demo_sk" "\<not> tl_cancelled demo_timeline"
    by (simp_all add: demo_timeline_def shared_state_new_def)
  moreover have "sk_generation_of (file_ctrl (demo_codec example_state)) demo_sk \<noteq> INVALID_GENERATION"
    by (simp add: demo_sk_def file_ctrl_def demo_store_def example_state_def configuration_new_def
        INITIAL_GENERATION_def INVALID_GENERATION_def)
  ultimately show ?thesis
    using recovery_refused_with_generation [of demo_timeline demo_sk "file_ctrl (demo_codec example_state)" demo_wal
        "donor_from ahead_peer" "[TermLsn 1 4096]"] by blast
qed

end
