(* ===== verification/Keys.thy ===== *)
theory Keys
  imports Rust_Fmt Wire
begin

text \<open>
  The page server's key space: libs/pageserver_api/src/key.rs, with the relation tags of
  reltag.rs and the fork numbers of libs/postgres_ffi/src/relfile_utils.rs that keys are built
  from. A key has six fields and is ordered by them, first field first (the derived \<open>Ord\<close>), so
  \<open>key\<close> is made an instance of \<open>linorder\<close>. The measure \<open>key_nat\<close> reads a key as the 144-bit number
  its fields spell; it is an order isomorphism, and \<open>key_add\<close> is addition on it. A half-open
  range of keys is the pair of its bounds.
\<close>

unbundle bit_operations_syntax

subsection \<open>Fork numbers and relation tags\<close>

definition MAIN_FORKNUM :: u8 where "MAIN_FORKNUM = 0"
definition FSM_FORKNUM :: u8 where "FSM_FORKNUM = 1"
definition VISIBILITYMAP_FORKNUM :: u8 where "VISIBILITYMAP_FORKNUM = 2"
definition INIT_FORKNUM :: u8 where "INIT_FORKNUM = 3"

definition DEFAULTTABLESPACE_OID :: u32 where "DEFAULTTABLESPACE_OID = 1663"
definition GLOBALTABLESPACE_OID :: u32 where "GLOBALTABLESPACE_OID = 1664"

type_synonym oid = u32
type_synonym block_number = u32

record rel_tag =
  rt_forknum :: u8
  rt_spcnode :: oid
  rt_dbnode :: oid
  rt_relnode :: oid

datatype slru_kind = Clog | MultiXactMembers | MultiXactOffsets

subsection \<open>Keys and their order\<close>

datatype key = Key (field1: u8) (field2: u32) (field3: u32) (field4: u32) (field5: u8)
  (field6: u32)

type_synonym key_range = "key \<times> key"

text \<open>The derived \<open>PartialOrd\<close> and the number a key spells.\<close>

definition key_less :: "key \<Rightarrow> key \<Rightarrow> bool" where
  "key_less a b \<longleftrightarrow>
     field1 a < field1 b \<or> field1 a = field1 b \<and>
     (field2 a < field2 b \<or> field2 a = field2 b \<and>
     (field3 a < field3 b \<or> field3 a = field3 b \<and>
     (field4 a < field4 b \<or> field4 a = field4 b \<and>
     (field5 a < field5 b \<or> field5 a = field5 b \<and> field6 a < field6 b))))"

definition key_nat :: "key \<Rightarrow> nat" where
  "key_nat k = ((((unat (field1 k) * 2 ^ 32 + unat (field2 k)) * 2 ^ 32 + unat (field3 k)) * 2 ^ 32
     + unat (field4 k)) * 2 ^ 8 + unat (field5 k)) * 2 ^ 32 + unat (field6 k)"

lemma lex_less:
  fixes a b c d m :: nat
  assumes "b < m" "d < m"
  shows "a * m + b < c * m + d \<longleftrightarrow> a < c \<or> a = c \<and> b < d"
proof -
  have "a * m + b < c * m + d" if "a < c" "b < m" for a b c d :: nat
  proof -
    have "Suc a * m \<le> c * m" using that(1) by (intro mult_le_mono1) simp
    with that show ?thesis by simp
  qed
  with assms show ?thesis by (metis add_less_cancel_left linorder_neqE_nat not_less_iff_gr_or_eq)
qed

lemma lex_eq:
  fixes a b c d m :: nat
  assumes "b < m" "d < m"
  shows "a * m + b = c * m + d \<longleftrightarrow> a = c \<and> b = d"
  using lex_less [OF assms, of a c] lex_less [OF assms(2,1), of c a] by auto

lemma unat_u32: "unat (x :: u32) < 2 ^ 32"
  using unat_lt_2p [of x] by simp

lemma unat_u8: "unat (x :: u8) < 2 ^ 8"
  using unat_lt_2p [of x] by simp

lemma key_less_nat: "key_less a b \<longleftrightarrow> key_nat a < key_nat b"
  unfolding key_nat_def key_less_def
  by (simp only: lex_less lex_eq unat_u32 unat_u8 word_less_nat_alt word_unat_eq_iff conj_assoc) blast

lemma key_nat_eq: "key_nat a = key_nat b \<longleftrightarrow> a = b"
  unfolding key_nat_def key.expand
  by (cases a; cases b) (simp only: lex_eq unat_u32 unat_u8 key.sel key.inject word_unat_eq_iff conj_assoc)

instantiation key :: linorder
begin

definition less_key :: "key \<Rightarrow> key \<Rightarrow> bool" where
  "less_key = key_less"

definition less_eq_key :: "key \<Rightarrow> key \<Rightarrow> bool" where
  "less_eq_key a b \<longleftrightarrow> key_less a b \<or> a = b"

instance
  by standard (auto simp: less_key_def less_eq_key_def key_less_nat key_nat_eq [symmetric])

end

lemma key_nat_less: "key_nat a < key_nat b \<longleftrightarrow> a < b"
  by (simp add: less_key_def key_less_nat)

lemma key_nat_le: "key_nat a \<le> key_nat b \<longleftrightarrow> a \<le> b"
  by (simp add: less_eq_key_def key_less_nat key_nat_eq [symmetric] le_less)

subsection \<open>Arithmetic on keys\<close>

definition overflowing_add :: "'a::len word \<Rightarrow> 'a word \<Rightarrow> 'a word \<times> bool" where
  "overflowing_add a b = (a + b, a + b < a)"

definition key_add :: "key \<Rightarrow> u32 \<Rightarrow> key res" where
  "key_add k x = (let (f6, o6) = overflowing_add (field6 k) x in
     if \<not> o6 then Inr (Key (field1 k) (field2 k) (field3 k) (field4 k) (field5 k) f6) else
     let (f5, o5) = overflowing_add (field5 k) 1 in
     if \<not> o5 then Inr (Key (field1 k) (field2 k) (field3 k) (field4 k) f5 f6) else
     let (f4, o4) = overflowing_add (field4 k) 1 in
     if \<not> o4 then Inr (Key (field1 k) (field2 k) (field3 k) f4 f5 f6) else
     let (f3, o3) = overflowing_add (field3 k) 1 in
     if \<not> o3 then Inr (Key (field1 k) (field2 k) f3 f4 f5 f6) else
     let (f2, o2) = overflowing_add (field2 k) 1 in
     if \<not> o2 then Inr (Key (field1 k) f2 f3 f4 f5 f6) else
     let (f1, o1) = overflowing_add (field1 k) 1 in
     if \<not> o1 then Inr (Key f1 f2 f3 f4 f5 f6) else Inl (Panic ''assertion failed: !r.1''))"

definition key_next :: "key \<Rightarrow> key res" where
  "key_next k = key_add k 1"

definition key_MIN :: key where "key_MIN = Key 0 0 0 0 0 0"
definition key_MAX :: key where "key_MAX = Key (-1) (-1) (-1) (-1) (-1) (-1)"

subsection \<open>Encodings\<close>

definition is_i128_representable :: "key \<Rightarrow> bool" where
  "is_i128_representable k \<longleftrightarrow>
     field2 k \<le> 0xFFFF \<or> field2 k = 0xFFFFFFFF \<or> field2 k = 0x22222222"

definition to_i128 :: "key \<Rightarrow> (128 word) res" where
  "to_i128 k = rbind (rassert (is_i128_representable k) ''invalid key'') (\<lambda>_. Inr
     (push_bit 120 (ucast (field1 k AND 0x7F)) OR push_bit 104 (ucast (field2 k AND 0xFFFF))
      OR push_bit 72 (ucast (field3 k)) OR push_bit 40 (ucast (field4 k))
      OR push_bit 32 (ucast (field5 k)) OR ucast (field6 k)))"

definition from_i128 :: "128 word \<Rightarrow> key" where
  "from_i128 x = Key (ucast (drop_bit 120 x AND 0x7F)) (ucast (drop_bit 104 x AND 0xFFFF))
     (ucast (drop_bit 72 x)) (ucast (drop_bit 40 x)) (ucast (drop_bit 32 x)) (ucast x)"

definition KEY_SIZE :: nat where "KEY_SIZE = 18"
definition METADATA_KEY_SIZE :: nat where "METADATA_KEY_SIZE = 16"
definition METADATA_KEY_BEGIN_PREFIX :: u8 where "METADATA_KEY_BEGIN_PREFIX = 0x60"
definition METADATA_KEY_END_PREFIX :: u8 where "METADATA_KEY_END_PREFIX = 0x7F"
definition RELATION_SIZE_PREFIX :: u8 where "RELATION_SIZE_PREFIX = 0x61"
definition AUX_KEY_PREFIX :: u8 where "AUX_KEY_PREFIX = 0x62"
definition REPL_ORIGIN_KEY_PREFIX :: u8 where "REPL_ORIGIN_KEY_PREFIX = 0x63"
definition DB_DIR_KEY_PREFIX :: u8 where "DB_DIR_KEY_PREFIX = 0x64"
definition REL_DIR_KEY_PREFIX :: u8 where "REL_DIR_KEY_PREFIX = 0x65"

definition be_u32 :: "bytes \<Rightarrow> nat \<Rightarrow> u32" where
  "be_u32 b i = of_nat (be_nat (take 4 (drop i b)))"

definition from_slice :: "bytes \<Rightarrow> key res" where
  "from_slice b = (if length b < KEY_SIZE then Inl (Panic ''range end index out of range'')
     else Inr (Key (b ! 0) (be_u32 b 1) (be_u32 b 5) (be_u32 b 9) (b ! 13) (be_u32 b 14)))"

definition write_to_byte_slice :: "key \<Rightarrow> bytes \<Rightarrow> bytes res" where
  "write_to_byte_slice k buf =
     (if length buf < KEY_SIZE then Inl (Panic ''range end index out of range'')
      else Inr (field1 k # put_u32 (field2 k) @ put_u32 (field3 k) @ put_u32 (field4 k)
        @ field5 k # put_u32 (field6 k) @ drop KEY_SIZE buf))"

definition is_metadata_key_slice :: "bytes \<Rightarrow> bool res" where
  "is_metadata_key_slice b = (if b = [] then Inl (Panic ''index out of bounds'')
     else Inr (METADATA_KEY_BEGIN_PREFIX \<le> b ! 0 \<and> b ! 0 < METADATA_KEY_END_PREFIX))"

definition is_metadata_key :: "key \<Rightarrow> bool" where
  "is_metadata_key k \<longleftrightarrow>
     METADATA_KEY_BEGIN_PREFIX \<le> field1 k \<and> field1 k < METADATA_KEY_END_PREFIX"

definition from_metadata_key :: "bytes \<Rightarrow> key res" where
  "from_metadata_key b =
     rbind (rassert (length b = METADATA_KEY_SIZE) ''expect 16 byte metadata key'') (\<lambda>_.
     rbind (is_metadata_key_slice b) (\<lambda>ok.
     rbind (rassert ok ''key not in metadata key range'') (\<lambda>_.
     Inr (from_i128 (of_nat (be_nat b))))))"

definition key_display :: "key \<Rightarrow> string" where
  "key_display k = fmt_0X 2 (unat (field1 k)) @ fmt_0X 8 (unat (field2 k))
     @ fmt_0X 8 (unat (field3 k)) @ fmt_0X 8 (unat (field4 k)) @ fmt_0X 2 (unat (field5 k))
     @ fmt_0X 8 (unat (field6 k))"

text \<open>Slicing a string panics when a bound falls inside a multi-byte character.\<close>

definition is_char_boundary :: "string \<Rightarrow> nat \<Rightarrow> bool" where
  "is_char_boundary s i \<longleftrightarrow> i = length s \<or>
     i < length s \<and> \<not> (128 \<le> (of_char (s ! i) :: nat) \<and> (of_char (s ! i) :: nat) < 192)"

definition str_slice :: "nat \<Rightarrow> nat \<Rightarrow> string \<Rightarrow> string res" where
  "str_slice a b s =
     (if a \<le> b \<and> is_char_boundary s a \<and> is_char_boundary s b then Inr (take (b - a) (drop a s))
      else Inl (Panic ''byte index is not a char boundary''))"

definition hex_field :: "nat \<Rightarrow> nat \<Rightarrow> string \<Rightarrow> ('a::len word) res" where
  "hex_field a b s = rbind (str_slice a b s) (\<lambda>p.
     case from_str_radix16 (2 ^ LENGTH('a)) p of
       None \<Rightarrow> Inl (Bail ''invalid digit found in string'') | Some n \<Rightarrow> Inr (of_nat n))"

definition key_from_hex :: "string \<Rightarrow> key res" where
  "key_from_hex s = (if length s \<noteq> 36 then Inl (Bail ''parse error'') else
     rbind (hex_field 0 2 s) (\<lambda>f1. rbind (hex_field 2 10 s) (\<lambda>f2.
     rbind (hex_field 10 18 s) (\<lambda>f3. rbind (hex_field 18 26 s) (\<lambda>f4.
     rbind (hex_field 26 28 s) (\<lambda>f5. rbind (hex_field 28 36 s) (\<lambda>f6.
     Inr (Key f1 f2 f3 f4 f5 f6))))))))"

datatype rel_dir_exists = Exists | Removed

definition SPARSE_TOMBSTONE_MARKER :: bytes where "SPARSE_TOMBSTONE_MARKER = []"
definition REL_EXISTS_MARKER :: bytes where "REL_EXISTS_MARKER = [114]"

definition rde_encode :: "rel_dir_exists \<Rightarrow> bytes" where
  "rde_encode e = (case e of Exists \<Rightarrow> REL_EXISTS_MARKER | Removed \<Rightarrow> SPARSE_TOMBSTONE_MARKER)"

definition rde_decode_option :: "bytes option \<Rightarrow> rel_dir_exists res" where
  "rde_decode_option d = (case d of
     Some m \<Rightarrow> if m = REL_EXISTS_MARKER then Inr Exists else Inl (Bail ''invalid marker'')
   | None \<Rightarrow> Inr Removed)"

definition rde_decode :: "bytes \<Rightarrow> rel_dir_exists res" where
  "rde_decode d = (if d = REL_EXISTS_MARKER then Inr Exists
     else if d = SPARSE_TOMBSTONE_MARKER then Inr Removed else Inl (Bail ''invalid marker''))"

subsection \<open>The layout of the key space\<close>

definition prefix_range :: "u8 \<Rightarrow> u8 \<Rightarrow> key_range" where
  "prefix_range a b = (Key a 0 0 0 0 0, Key b 0 0 0 0 0)"

definition metadata_key_range :: key_range where
  "metadata_key_range = prefix_range METADATA_KEY_BEGIN_PREFIX METADATA_KEY_END_PREFIX"

definition metadata_aux_key_range :: key_range where
  "metadata_aux_key_range = prefix_range AUX_KEY_PREFIX (AUX_KEY_PREFIX + 1)"

definition rel_dir_sparse_key_range :: key_range where
  "rel_dir_sparse_key_range = prefix_range REL_DIR_KEY_PREFIX (REL_DIR_KEY_PREFIX + 1)"

definition sparse_non_inherited_keyspace :: key_range where
  "sparse_non_inherited_keyspace = prefix_range AUX_KEY_PREFIX (REPL_ORIGIN_KEY_PREFIX + 1)"

definition is_valid_key_on_write_path_strong :: "key \<Rightarrow> bool" where
  "is_valid_key_on_write_path_strong k \<longleftrightarrow> is_i128_representable k \<and>
     \<not> (field1 k = 0 \<and> \<not> (field2 k = GLOBALTABLESPACE_OID \<or> field2 k = DEFAULTTABLESPACE_OID
        \<or> field2 k = 0))"

definition is_valid_key_on_write_path :: "key \<Rightarrow> bool" where
  "is_valid_key_on_write_path = is_i128_representable"

definition DBDIR_KEY :: key where "DBDIR_KEY = Key 0 0 0 0 0 0"

definition dbdir_key_range :: "oid \<Rightarrow> oid \<Rightarrow> key_range" where
  "dbdir_key_range spc db = (Key 0 spc db 0 0 0, Key 0 spc db 0xffffffff 0xff 0xffffffff)"

definition relmap_file_key :: "oid \<Rightarrow> oid \<Rightarrow> key" where
  "relmap_file_key spc db = Key 0 spc db 0 0 0"

definition rel_dir_to_key :: "oid \<Rightarrow> oid \<Rightarrow> key" where
  "rel_dir_to_key spc db = Key 0 spc db 0 0 1"

definition rel_tag_sparse_key :: "oid \<Rightarrow> oid \<Rightarrow> oid \<Rightarrow> u8 \<Rightarrow> key" where
  "rel_tag_sparse_key spc db rel fork = Key REL_DIR_KEY_PREFIX spc db rel fork 1"

definition rel_tag_sparse_key_range :: "oid \<Rightarrow> oid \<Rightarrow> key_range" where
  "rel_tag_sparse_key_range spc db =
     (Key REL_DIR_KEY_PREFIX spc db 0 0 0, Key REL_DIR_KEY_PREFIX spc db (-1) (-1) (-1))"

definition rel_block_to_key :: "rel_tag \<Rightarrow> block_number \<Rightarrow> key" where
  "rel_block_to_key r blk =
     Key 0 (rt_spcnode r) (rt_dbnode r) (rt_relnode r) (rt_forknum r) blk"

definition rel_size_to_key :: "rel_tag \<Rightarrow> key" where
  "rel_size_to_key r =
     Key 0 (rt_spcnode r) (rt_dbnode r) (rt_relnode r) (rt_forknum r) 0xffffffff"

definition is_rel_size_key :: "key \<Rightarrow> bool" where
  "is_rel_size_key k \<longleftrightarrow> field1 k = 0 \<and> field6 k = -1"

definition rel_key_range :: "rel_tag \<Rightarrow> key_range" where
  "rel_key_range r =
     (Key 0 (rt_spcnode r) (rt_dbnode r) (rt_relnode r) (rt_forknum r) 0,
      Key 0 (rt_spcnode r) (rt_dbnode r) (rt_relnode r) (rt_forknum r + 1) 0)"

definition slru_field2 :: "slru_kind \<Rightarrow> u32" where
  "slru_field2 kind = (case kind of Clog \<Rightarrow> 0 | MultiXactMembers \<Rightarrow> 1 | MultiXactOffsets \<Rightarrow> 2)"

definition slru_dir_to_key :: "slru_kind \<Rightarrow> key" where
  "slru_dir_to_key kind = Key 1 (slru_field2 kind) 0 0 0 0"

definition slru_dir_kind :: "key \<Rightarrow> (u32 + slru_kind) option" where
  "slru_dir_kind k =
     (if field1 k = 1 \<and> field3 k = 0 \<and> field4 k = 0 \<and> field5 k = 0 \<and> field6 k = 0 then
        (if field2 k = 0 then Some (Inr Clog)
         else if field2 k = 1 then Some (Inr MultiXactMembers)
         else if field2 k = 2 then Some (Inr MultiXactOffsets)
         else Some (Inl (field2 k)))
      else None)"

definition slru_block_to_key :: "slru_kind \<Rightarrow> u32 \<Rightarrow> block_number \<Rightarrow> key" where
  "slru_block_to_key kind segno blk = Key 1 (slru_field2 kind) 1 segno 0 blk"

definition slru_segment_size_to_key :: "slru_kind \<Rightarrow> u32 \<Rightarrow> key" where
  "slru_segment_size_to_key kind segno = Key 1 (slru_field2 kind) 1 segno 0 0xffffffff"

definition is_slru_segment_size_key :: "key \<Rightarrow> bool" where
  "is_slru_segment_size_key k \<longleftrightarrow>
     field1 k = 1 \<and> field2 k < 3 \<and> field3 k = 1 \<and> field5 k = 0 \<and> field6 k = -1"

definition is_slru_dir_key :: "key \<Rightarrow> bool" where
  "is_slru_dir_key k \<longleftrightarrow> slru_dir_kind k \<noteq> None"

definition slru_segment_key_range :: "slru_kind \<Rightarrow> u32 \<Rightarrow> key_range" where
  "slru_segment_key_range kind segno =
     (Key 1 (slru_field2 kind) 1 segno 0 0, Key 1 (slru_field2 kind) 1 segno 1 0)"

definition TWOPHASEDIR_KEY :: key where "TWOPHASEDIR_KEY = Key 2 0 0 0 0 0"

definition xid_key :: "u32 \<Rightarrow> u64 \<Rightarrow> key" where
  "xid_key f3 xid = Key 2 0 f3 (ucast (drop_bit 40 (xid AND 0xFFFFFF0000000000)))
     (ucast (drop_bit 32 (xid AND 0x000000FF00000000))) (ucast (xid AND 0x00000000FFFFFFFF))"

definition twophase_file_key :: "u64 \<Rightarrow> key" where
  "twophase_file_key xid = xid_key 0 xid"

definition twophase_key_range :: "u64 \<Rightarrow> key_range" where
  "twophase_key_range xid = (let (next_xid, overflowed) = overflowing_add xid 1 in
     (xid_key 0 xid, xid_key (if overflowed then 1 else 0) next_xid))"

definition CONTROLFILE_KEY :: key where "CONTROLFILE_KEY = Key 3 0 0 0 0 0"
definition CHECKPOINT_KEY :: key where "CHECKPOINT_KEY = Key 3 0 0 0 0 1"
definition AUX_FILES_KEY :: key where "AUX_FILES_KEY = Key 3 0 0 0 0 2"

definition repl_origin_key :: "u16 \<Rightarrow> key" where
  "repl_origin_key origin = Key REPL_ORIGIN_KEY_PREFIX 0 0 0 0 (ucast origin)"

definition repl_origin_key_range :: key_range where
  "repl_origin_key_range =
     (Key REPL_ORIGIN_KEY_PREFIX 0 0 0 0 0, Key REPL_ORIGIN_KEY_PREFIX 0 0 0 0 0x10000)"

definition in_range :: "key_range \<Rightarrow> key \<Rightarrow> bool" where
  "in_range r k \<longleftrightarrow> fst r \<le> k \<and> k < snd r"

definition NON_INHERITED_RANGE :: key_range where
  "NON_INHERITED_RANGE = (AUX_FILES_KEY, Key 3 0 0 0 0 3)"

definition is_sparse :: "key \<Rightarrow> bool" where
  "is_sparse k \<longleftrightarrow> METADATA_KEY_BEGIN_PREFIX \<le> field1 k \<and> field1 k < METADATA_KEY_END_PREFIX"

definition is_inherited_sparse_key :: "key \<Rightarrow> bool" where
  "is_inherited_sparse_key k \<longleftrightarrow> field1 k = RELATION_SIZE_PREFIX"

definition is_inherited_key :: "key \<Rightarrow> bool" where
  "is_inherited_key k \<longleftrightarrow>
     (if is_sparse k then is_inherited_sparse_key k else \<not> in_range NON_INHERITED_RANGE k)"

definition is_rel_fsm_block_key :: "key \<Rightarrow> bool" where
  "is_rel_fsm_block_key k \<longleftrightarrow>
     field1 k = 0 \<and> field4 k \<noteq> 0 \<and> field5 k = FSM_FORKNUM \<and> field6 k \<noteq> 0xffffffff"

definition is_rel_vm_block_key :: "key \<Rightarrow> bool" where
  "is_rel_vm_block_key k \<longleftrightarrow>
     field1 k = 0 \<and> field4 k \<noteq> 0 \<and> field5 k = VISIBILITYMAP_FORKNUM \<and> field6 k \<noteq> 0xffffffff"

definition to_slru_block :: "key \<Rightarrow> (slru_kind \<times> u32 \<times> block_number) res" where
  "to_slru_block k =
     (if field1 k = 1 then
        (if field2 k = 0 then Inr (Clog, field4 k, field6 k)
         else if field2 k = 1 then Inr (MultiXactMembers, field4 k, field6 k)
         else if field2 k = 2 then Inr (MultiXactOffsets, field4 k, field6 k)
         else Inl (Bail ''unrecognized slru kind''))
      else Inl (Bail ''unexpected value kind''))"

definition is_slru_block_key :: "key \<Rightarrow> bool" where
  "is_slru_block_key k \<longleftrightarrow> field1 k = 1 \<and> field3 k = 1 \<and> field6 k \<noteq> 0xffffffff"

definition is_rel_block_key :: "key \<Rightarrow> bool" where
  "is_rel_block_key k \<longleftrightarrow> field1 k = 0 \<and> field4 k \<noteq> 0 \<and> field6 k \<noteq> 0xffffffff"

definition is_rel_dir_key :: "key \<Rightarrow> bool" where
  "is_rel_dir_key k \<longleftrightarrow>
     field1 k = 0 \<and> field2 k \<noteq> 0 \<and> field3 k \<noteq> 0 \<and> field4 k = 0 \<and> field5 k = 0 \<and> field6 k = 1"

definition is_aux_file_key :: "key \<Rightarrow> bool" where
  "is_aux_file_key k \<longleftrightarrow> field1 k = AUX_KEY_PREFIX"

definition to_rel_block :: "key \<Rightarrow> (rel_tag \<times> block_number) res" where
  "to_rel_block k =
     (if field1 k = 0 then
        Inr (\<lparr>rt_forknum = field5 k, rt_spcnode = field2 k, rt_dbnode = field3 k,
              rt_relnode = field4 k\<rparr>, field6 k)
      else Inl (Bail ''unexpected value kind''))"

subsection \<open>Addition\<close>

lemma overflowing_add_carry:
  "overflowing_add a b =
     (if unat a + unat b < 2 ^ LENGTH('a) then (of_nat (unat a + unat b), False)
      else (of_nat (unat a + unat b - 2 ^ LENGTH('a)), True))"
  for a b :: "'a::len word"
proof (cases "unat a + unat b < 2 ^ LENGTH('a)")
  case True
  then have "unat (a + b) = unat a + unat b" by (simp add: unat_word_ariths)
  then show ?thesis using True
    by (simp add: overflowing_add_def word_less_nat_alt)
next
  case False
  have lt: "unat a + unat b - 2 ^ LENGTH('a) < unat a"
    using False unat_lt_2p [of a] unat_lt_2p [of b] by linarith
  then have "(unat a + unat b - 2 ^ LENGTH('a)) mod 2 ^ LENGTH('a)
      = unat a + unat b - 2 ^ LENGTH('a)"
    using unat_lt_2p [of a] by (intro mod_less) linarith
  with False have eq: "unat (a + b) = unat a + unat b - 2 ^ LENGTH('a)"
    by (simp add: unat_word_ariths le_mod_geq)
  then have "a + b = of_nat (unat a + unat b - 2 ^ LENGTH('a))"
    by (metis of_nat_unat ucast_id)
  then show ?thesis using False lt eq
    by (simp add: overflowing_add_def word_less_nat_alt)
qed

lemma carry32:
  "overflowing_add (a :: u32) b =
     (if unat a + unat b < 2 ^ 32 then (of_nat (unat a + unat b), False)
      else (of_nat (unat a + unat b - 2 ^ 32), True))"
  using overflowing_add_carry [of a b] by simp

lemma carry8:
  "overflowing_add (a :: u8) b =
     (if unat a + unat b < 2 ^ 8 then (of_nat (unat a + unat b), False)
      else (of_nat (unat a + unat b - 2 ^ 8), True))"
  using overflowing_add_carry [of a b] by simp

lemma unat_of32: "n < 2 ^ 32 \<Longrightarrow> unat (of_nat n :: u32) = n"
  by (simp add: unat_of_nat)

lemma unat_of8: "n < 2 ^ 8 \<Longrightarrow> unat (of_nat n :: u8) = n"
  by (simp add: unat_of_nat)

lemma key_nat_bound: "key_nat k < 2 ^ 144"
  using unat_u8 [of "field1 k"] unat_u32 [of "field2 k"] unat_u32 [of "field3 k"]
    unat_u32 [of "field4 k"] unat_u8 [of "field5 k"] unat_u32 [of "field6 k"]
  unfolding key_nat_def by simp

lemma key_add_no_carry:
  assumes "unat (field6 k) + unat x < 2 ^ 32"
  shows "key_add k x = Inr (Key (field1 k) (field2 k) (field3 k) (field4 k) (field5 k)
    (of_nat (unat (field6 k) + unat x)))"
  using assms by (simp add: key_add_def carry32)
lemma key_add_carry:
  assumes "2 ^ 32 \<le> unat (field6 k) + unat x"
  shows "case key_add k x of Inr k' \<Rightarrow> key_nat k' = key_nat k + unat x
   | Inl e \<Rightarrow> 2 ^ 144 \<le> key_nat k + unat x"
proof -
  have l: "unat (field6 k) + unat x - 2 ^ 32 < 2 ^ 32"
    using unat_u32 [of "field6 k"] unat_u32 [of x] by linarith
  consider "unat (field5 k) + 1 < 2 ^ 8"
    | "unat (field5 k) + 1 = 2 ^ 8" "unat (field4 k) + 1 < 2 ^ 32"
    | "unat (field5 k) + 1 = 2 ^ 8" "unat (field4 k) + 1 = 2 ^ 32" "unat (field3 k) + 1 < 2 ^ 32"
    | "unat (field5 k) + 1 = 2 ^ 8" "unat (field4 k) + 1 = 2 ^ 32" "unat (field3 k) + 1 = 2 ^ 32"
      "unat (field2 k) + 1 < 2 ^ 32"
    | "unat (field5 k) + 1 = 2 ^ 8" "unat (field4 k) + 1 = 2 ^ 32" "unat (field3 k) + 1 = 2 ^ 32"
      "unat (field2 k) + 1 = 2 ^ 32" "unat (field1 k) + 1 < 2 ^ 8"
    | "unat (field5 k) + 1 = 2 ^ 8" "unat (field4 k) + 1 = 2 ^ 32" "unat (field3 k) + 1 = 2 ^ 32"
      "unat (field2 k) + 1 = 2 ^ 32" "unat (field1 k) + 1 = 2 ^ 8"
    using unat_u8 [of "field5 k"] unat_u32 [of "field4 k"] unat_u32 [of "field3 k"]
      unat_u32 [of "field2 k"] unat_u8 [of "field1 k"] by linarith
  then show ?thesis
    by cases (use assms l in \<open>simp_all add: key_add_def carry32 carry8 key_nat_def unat_of32 unat_of8
      del: of_nat_add of_nat_diff of_nat_Suc\<close>)
qed

lemma key_add_nat:
  "case key_add k x of Inr k' \<Rightarrow> key_nat k' = key_nat k + unat x
   | Inl e \<Rightarrow> 2 ^ 144 \<le> key_nat k + unat x"
  by (cases "unat (field6 k) + unat x < 2 ^ 32")
    (simp_all add: key_add_no_carry key_nat_def unat_of32 key_add_carry del: of_nat_add)

lemma key_add_Inr: "key_add k x = Inr k' \<longleftrightarrow> key_nat k' = key_nat k + unat x"
proof
  assume "key_add k x = Inr k'"
  then show "key_nat k' = key_nat k + unat x" using key_add_nat [of k x] by simp
next
  assume *: "key_nat k' = key_nat k + unat x"
  then have "\<not> 2 ^ 144 \<le> key_nat k + unat x" using key_nat_bound [of k'] by linarith
  then obtain k'' where k'': "key_add k x = Inr k''" "key_nat k'' = key_nat k + unat x"
    using key_add_nat [of k x] by (cases "key_add k x") auto
  with * have "k'' = k'" by (simp add: key_nat_eq [symmetric])
  with k'' show "key_add k x = Inr k'" by simp
qed

lemma key_nat_surj:
  assumes "n < 2 ^ 144"
  shows "\<exists>k. key_nat k = n"
proof -
  have d: "\<exists>a b. a < 2 ^ m \<and> b < 2 ^ j \<and> n = a * 2 ^ j + b" if "n < 2 ^ (m + j)" for n m j :: nat
  proof -
    have "n div 2 ^ j < 2 ^ m" "n mod 2 ^ j < 2 ^ j"
      using that by (simp_all add: power_add less_mult_imp_div_less)
    then show ?thesis by (metis div_mult_mod_eq)
  qed
  obtain n5 f6 where 6: "n5 < 2 ^ 112" "f6 < 2 ^ 32" "n = n5 * 2 ^ 32 + f6"
    using d [of n 112 32] assms by auto
  obtain n4 f5 where 5: "n4 < 2 ^ 104" "f5 < 2 ^ 8" "n5 = n4 * 2 ^ 8 + f5"
    using d [of n5 104 8] 6 by auto
  obtain n3 f4 where 4: "n3 < 2 ^ 72" "f4 < 2 ^ 32" "n4 = n3 * 2 ^ 32 + f4"
    using d [of n4 72 32] 5 by auto
  obtain n2 f3 where 3: "n2 < 2 ^ 40" "f3 < 2 ^ 32" "n3 = n2 * 2 ^ 32 + f3"
    using d [of n3 40 32] 4 by auto
  obtain f1 f2 where 2: "f1 < 2 ^ 8" "f2 < 2 ^ 32" "n2 = f1 * 2 ^ 32 + f2"
    using d [of n2 8 32] 3 by auto
  have "key_nat (Key (of_nat f1) (of_nat f2) (of_nat f3) (of_nat f4) (of_nat f5) (of_nat f6)) = n"
    using 2 3 4 5 6 by (simp add: key_nat_def unat_of32 unat_of8)
  then show ?thesis by blast
qed

lemma key_add_defined: "(\<exists>k'. key_add k x = Inr k') \<longleftrightarrow> key_nat k + unat x < 2 ^ 144"
proof
  assume "\<exists>k'. key_add k x = Inr k'"
  then show "key_nat k + unat x < 2 ^ 144" using key_nat_bound by (auto simp: key_add_Inr) (metis)
next
  assume "key_nat k + unat x < 2 ^ 144"
  then show "\<exists>k'. key_add k x = Inr k'" using key_nat_surj by (simp add: key_add_Inr)
qed

subsection \<open>Encodings are read back\<close>

lemma from_slice_write:
  "length buf = KEY_SIZE \<Longrightarrow> rbind (write_to_byte_slice k buf) from_slice = Inr k"
  by (cases k) (simp add: write_to_byte_slice_def from_slice_def KEY_SIZE_def be_u32_def put_u32_def
    nth_append be_nat_be_bytes unat_u32 [simplified])

lemma bit_beyond:
  "32 \<le> n \<Longrightarrow> \<not> bit (a :: u32) n" "8 \<le> n \<Longrightarrow> \<not> bit (b :: u8) n"
  using bit_imp_le_length by (fastforce simp: not_le)+

lemma to_i128_Inr:
  "to_i128 k = Inr x \<longleftrightarrow> is_i128_representable k \<and>
     x = push_bit 120 (ucast (field1 k AND mask 7)) OR push_bit 104 (ucast (field2 k AND mask 16))
      OR push_bit 72 (ucast (field3 k)) OR push_bit 40 (ucast (field4 k))
      OR push_bit 32 (ucast (field5 k)) OR ucast (field6 k)"
  by (auto simp: to_i128_def rassert_def mask_eq_exp_minus_1)

lemma from_i128_bits:
  "from_i128 x = Key (ucast (drop_bit 120 x AND mask 7)) (ucast (drop_bit 104 x AND mask 16))
     (ucast (drop_bit 72 x)) (ucast (drop_bit 40 x)) (ucast (drop_bit 32 x)) (ucast x)"
  by (simp add: from_i128_def mask_eq_exp_minus_1)

lemma from_to_i128:
  assumes "to_i128 k = Inr x"
  shows "from_i128 x = Key (field1 k AND mask 7) (field2 k AND mask 16) (field3 k) (field4 k)
    (field5 k) (field6 k)"
proof -
  have x: "x = push_bit 120 (ucast (field1 k AND mask 7)) OR push_bit 104 (ucast (field2 k AND mask 16))
      OR push_bit 72 (ucast (field3 k)) OR push_bit 40 (ucast (field4 k))
      OR push_bit 32 (ucast (field5 k)) OR ucast (field6 k)"
    using assms by (simp add: to_i128_Inr)
  show ?thesis unfolding from_i128_bits x key.inject
    by (intro conjI; rule bit_word_eqI) (auto simp: bit_simps bit_beyond)
qed

lemma push_or_nat:
  fixes a b :: nat
  assumes "b < 2 ^ n"
  shows "push_bit n a OR b = a * 2 ^ n + b"
proof -
  have "take_bit n b = b" using assms by (simp add: take_bit_nat_eq_self)
  then have "bit b m \<Longrightarrow> m < n" for m by (metis bit_take_bit_iff)
  then have "push_bit n a AND b = 0" by (intro bit_eqI) (auto simp: bit_simps not_less [symmetric])
  then show ?thesis by (metis disjunctive_add_eq_or push_bit_eq_mult)
qed

lemma unat_push_or:
  fixes y z :: "'a::len word"
  assumes "unat z < 2 ^ n" "unat y * 2 ^ n < 2 ^ LENGTH('a)"
  shows "unat (push_bit n y OR z) = unat y * 2 ^ n + unat z"
proof -
  have "unat (push_bit n y) = take_bit LENGTH('a) (push_bit n (unat y))"
    by (rule unsigned_push_bit_eq)
  also have "\<dots> = push_bit n (unat y)"
    using assms(2) by (intro take_bit_nat_eq_self) (simp add: push_bit_eq_mult)
  finally have "unat (push_bit n y) = push_bit n (unat y)" .
  with assms(1) show ?thesis by (simp add: unsigned_or_eq push_or_nat)
qed

lemma unat_to_i128:
  assumes "to_i128 k = Inr x"
  shows "unat x = ((((unat (field1 k AND mask 7) * 2 ^ 16 + unat (field2 k AND mask 16)) * 2 ^ 32
     + unat (field3 k)) * 2 ^ 32 + unat (field4 k)) * 2 ^ 8 + unat (field5 k)) * 2 ^ 32 + unat (field6 k)"
proof -
  have m: "unat (field1 k AND mask 7) < 2 ^ 7" "unat (field2 k AND mask 16) < 2 ^ 16"
    by (simp_all only: take_bit_eq_mask [symmetric] unsigned_take_bit_eq take_bit_nat_less_exp)
  define a where "a = field1 k AND mask 7"
  define b where "b = field2 k AND mask 16"
  note bounds = m [folded a_def b_def] unat_u32 [of "field3 k"] unat_u32 [of "field4 k"]
    unat_u8 [of "field5 k"] unat_u32 [of "field6 k"]
  have x: "x = push_bit 120 (ucast a) OR push_bit 104 (ucast b)
      OR push_bit 72 (ucast (field3 k)) OR push_bit 40 (ucast (field4 k))
      OR push_bit 32 (ucast (field5 k)) OR ucast (field6 k)"
    using assms by (simp add: to_i128_Inr a_def b_def)
  have "unat (ucast (w :: u32) :: 128 word) = unat w" "unat (ucast (v :: u8) :: 128 word) = unat v" for w v
    by (simp_all add: unsigned_ucast_eq take_bit_nat_eq_self unat_lt_2p [THEN less_le_trans])
  then show ?thesis unfolding x a_def [symmetric] b_def [symmetric]
    using bounds by (simp add: unat_push_or)
qed

lemma mask_id:
  "field1 k < 0x80 \<Longrightarrow> field1 k AND mask 7 = field1 k"
  "field2 k \<le> 0xFFFF \<Longrightarrow> field2 k AND mask 16 = field2 k"
  by (simp_all add: take_bit_eq_mask [symmetric] word_less_nat_alt word_le_nat_alt
    take_bit_eq_mod word_unat_eq_iff unat_mod)

lemma to_i128_less:
  assumes "to_i128 a = Inr x" "to_i128 b = Inr y" "field1 a < 0x80" "field1 b < 0x80"
    "field2 a \<le> 0xFFFF" "field2 b \<le> 0xFFFF"
  shows "x < y \<longleftrightarrow> a < b"
proof -
  have f: "unat (field2 a) < 2 ^ 16" "unat (field2 b) < 2 ^ 16"
    using assms(5,6) by (simp_all add: word_le_nat_alt)
  show ?thesis
    unfolding less_key_def key_less_def word_less_nat_alt [of x] unat_to_i128 [OF assms(1)] unat_to_i128 [OF assms(2)]
      mask_id(1) [OF assms(3)] mask_id(1) [OF assms(4)] mask_id(2) [OF assms(5)] mask_id(2) [OF assms(6)]
    by (simp only: lex_less lex_eq unat_u32 unat_u8 f word_less_nat_alt word_unat_eq_iff conj_assoc) blast
qed

lemma from_to_i128_id:
  assumes "to_i128 k = Inr x" "field1 k < 0x80" "field2 k \<le> 0xFFFF"
  shows "from_i128 x = k"
  using from_to_i128 [OF assms(1)] mask_id(1) [OF assms(2)] mask_id(2) [OF assms(3)] by simp

lemma fmt_0X_chars: "c \<in> set (fmt_0X w n) \<Longrightarrow> (of_char c :: nat) < 128"
  using hex_char_range [of 65 c w n] by (auto simp: fmt_0X_def)

lemma hex_field_at:
  assumes "s = p @ fmt_0X w (unat v) @ q" "length p = a" "b = a + w" "0 < w" "LENGTH('a) = 4 * w"
    "\<forall>c \<in> set s. (of_char c :: nat) < 128"
  shows "hex_field a b s = Inr (v :: 'a::len word)"
proof -
  have v: "unat v < 16 ^ w" using unat_lt_2p [of v] assms(5) by (simp add: power_mult)
  then have len: "length (fmt_0X w (unat v)) = w" by (intro length_fmt_0X assms)
  have "is_char_boundary s i" if "i \<le> length s" for i
    using that assms(6) nth_mem [of i s] by (fastforce simp: is_char_boundary_def)
  then have "str_slice a b s = Inr (fmt_0X w (unat v))"
    using assms(1-3) len by (simp add: str_slice_def)
  moreover have "from_str_radix16 (2 ^ LENGTH('a)) (fmt_0X w (unat v)) = Some (unat v)"
    unfolding fmt_0X_def by (rule from_str_radix16_padded) (simp_all add: unat_lt_2p)
  ultimately show ?thesis by (simp add: hex_field_def)
qed

lemma key_from_hex_display: "key_from_hex (key_display k) = Inr k"
proof -
  let ?w = "\<lambda>n v. fmt_0X n v"
  have len: "length (?w 8 (unat v)) = 8" "length (?w 2 (unat u)) = 2" for v :: u32 and u :: u8
    using unat_u32 [of v] unat_u8 [of u] by (simp_all add: length_fmt_0X)
  have asc: "\<forall>c \<in> set (key_display k). (of_char c :: nat) < 128"
    unfolding key_display_def set_append by (auto dest: fmt_0X_chars)
  note hf = hex_field_at [OF _ _ _ _ _ asc]
  have 1: "hex_field 0 2 (key_display k) = Inr (field1 k)"
    by (rule hf [of "[]" 2]) (simp_all add: key_display_def len)
  have 2: "hex_field 2 10 (key_display k) = Inr (field2 k)"
    by (rule hf [of "?w 2 (unat (field1 k))" 8]) (simp_all add: key_display_def len)
  have 3: "hex_field 10 18 (key_display k) = Inr (field3 k)"
    by (rule hf [of "?w 2 (unat (field1 k)) @ ?w 8 (unat (field2 k))" 8])
      (simp_all add: key_display_def len)
  have 4: "hex_field 18 26 (key_display k) = Inr (field4 k)"
    by (rule hf [of "?w 2 (unat (field1 k)) @ ?w 8 (unat (field2 k)) @ ?w 8 (unat (field3 k))" 8])
      (simp_all add: key_display_def len)
  have 5: "hex_field 26 28 (key_display k) = Inr (field5 k)"
    by (rule hf [of "?w 2 (unat (field1 k)) @ ?w 8 (unat (field2 k)) @ ?w 8 (unat (field3 k))
      @ ?w 8 (unat (field4 k))" 2]) (simp_all add: key_display_def len)
  have 6: "hex_field 28 36 (key_display k) = Inr (field6 k)"
    by (rule hf [of "?w 2 (unat (field1 k)) @ ?w 8 (unat (field2 k)) @ ?w 8 (unat (field3 k))
      @ ?w 8 (unat (field4 k)) @ ?w 2 (unat (field5 k))" 8 _ "[]"]) (simp_all add: key_display_def len)
  show ?thesis using 1 2 3 4 5 6 by (simp add: key_from_hex_def) (simp add: key_display_def len)
qed

lemma non_inherited_end: "key_next (fst NON_INHERITED_RANGE) = Inr (snd NON_INHERITED_RANGE)"
  by (simp add: key_next_def key_add_Inr NON_INHERITED_RANGE_def AUX_FILES_KEY_def key_nat_def)

text \<open>C40: The encodings of a key are read back: the printed form by the parser, the eighteen bytes by
  the slice reader, and the compact form of an ordinary key (first field below 0x80, second field of
  sixteen bits) by the conversion from it. Compact keys are ordered as the keys they stand for.\<close>

theorem key_encodings:
  assumes "length buf = KEY_SIZE" "field1 a < 0x80" "field1 b < 0x80" "field2 a \<le> 0xFFFF"
    "field2 b \<le> 0xFFFF"
  shows "key_from_hex (key_display k) = Inr k \<and> rbind (write_to_byte_slice k buf) from_slice = Inr k \<and>
    (\<exists>x y. to_i128 a = Inr x \<and> to_i128 b = Inr y \<and> from_i128 x = a \<and> from_i128 y = b \<and> (x < y \<longleftrightarrow> a < b))"
proof -
  obtain x y where xy: "to_i128 a = Inr x" "to_i128 b = Inr y"
    using assms(4,5) by (simp add: to_i128_Inr is_i128_representable_def)
  have "from_i128 x = a" "from_i128 y = b"
    using from_to_i128_id [OF xy(1) assms(2,4)] from_to_i128_id [OF xy(2) assms(3,5)] by simp_all
  moreover have "x < y \<longleftrightarrow> a < b" by (rule to_i128_less [OF xy assms(2-5)])
  ultimately show ?thesis using xy key_from_hex_display from_slice_write [OF assms(1)] by simp
qed

theorem key_encodings_witness:
  "key_from_hex (key_display (Key 1 2 3 4 5 6)) = Inr (Key 1 2 3 4 5 6) \<and>
   (\<exists>x y. to_i128 (Key 1 2 3 4 5 6) = Inr x \<and> to_i128 (Key 1 2 3 4 5 7) = Inr y \<and> from_i128 x = Key 1 2 3 4 5 6
      \<and> from_i128 y = Key 1 2 3 4 5 7 \<and> (x < y \<longleftrightarrow> Key 1 2 3 4 5 6 < Key 1 2 3 4 5 7))"
  using key_encodings [of "replicate 18 0" "Key 1 2 3 4 5 6" "Key 1 2 3 4 5 7" "Key 1 2 3 4 5 6"]
  by (simp add: KEY_SIZE_def word_less_nat_alt word_le_nat_alt)

end
