(* ===== verification/Shards.thy ===== *)
theory Shards
  imports Keys Ids
begin

text \<open>
  Sharding of a tenant: the shard counts, numbers and identifiers of libs/utils/src/shard.rs and
  the placement of keys on shards of libs/pageserver_api/src/shard.rs. A count of zero stands for
  a tenant that is not aware of sharding. Placement hashes the relation and the stripe of a block,
  with the hash functions of PostgreSQL written out on 32-bit words.
\<close>

type_synonym shard_number = u8
type_synonym shard_count = u8

subsection \<open>Identifiers of shards\<close>

definition shard_count_count :: "shard_count \<Rightarrow> u8" where
  "shard_count_count c = (if c > 0 then c else 1)"

record tenant_shard_id =
  tsi_tenant_id :: id
  tsi_shard_number :: shard_number
  tsi_shard_count :: shard_count

record shard_index =
  six_shard_number :: shard_number
  six_shard_count :: shard_count

definition tsi_unsharded :: "id \<Rightarrow> tenant_shard_id" where
  "tsi_unsharded t = \<lparr>tsi_tenant_id = t, tsi_shard_number = 0, tsi_shard_count = 0\<rparr>"

definition tenant_range :: "id \<Rightarrow> tenant_shard_id \<times> tenant_shard_id" where
  "tenant_range t = (\<lparr>tsi_tenant_id = t, tsi_shard_number = 0, tsi_shard_count = 0\<rparr>,
     \<lparr>tsi_tenant_id = t, tsi_shard_number = -1, tsi_shard_count = -1\<rparr>)"

definition tsi_shard_slug :: "tenant_shard_id \<Rightarrow> string" where
  "tsi_shard_slug t = fmt_0x 2 (unat (tsi_shard_number t)) @ fmt_0x 2 (unat (tsi_shard_count t))"

definition tsi_is_shard_zero :: "tenant_shard_id \<Rightarrow> bool" where
  "tsi_is_shard_zero t \<longleftrightarrow> tsi_shard_number t = 0"

definition tsi_is_unsharded :: "tenant_shard_id \<Rightarrow> bool" where
  "tsi_is_unsharded t \<longleftrightarrow> tsi_shard_number t = 0 \<and> tsi_shard_count t = 0"

definition to_index :: "tenant_shard_id \<Rightarrow> shard_index" where
  "to_index t = \<lparr>six_shard_number = tsi_shard_number t, six_shard_count = tsi_shard_count t\<rparr>"

definition tsi_split :: "tenant_shard_id \<Rightarrow> shard_count \<Rightarrow> tenant_shard_id list" where
  "tsi_split t new_count =
     map (\<lambda>n. \<lparr>tsi_tenant_id = tsi_tenant_id t, tsi_shard_number = n, tsi_shard_count = new_count\<rparr>)
       (filter (\<lambda>n. n mod max (tsi_shard_count t) 1 = tsi_shard_number t)
         (map of_nat [0..<unat new_count]))"

definition tsi_display :: "tenant_shard_id \<Rightarrow> string" where
  "tsi_display t = (if tsi_shard_count t \<noteq> 0
     then id_hex_encode (tsi_tenant_id t) @ ''-'' @ tsi_shard_slug t
     else id_hex_encode (tsi_tenant_id t))"

definition hex_shard_parts :: "hex_decode \<Rightarrow> string \<Rightarrow> (shard_number \<times> shard_count) res" where
  "hex_shard_parts hx s = (case hx s 2 of
     Some parts \<Rightarrow> Inr (parts ! 0, parts ! 1) | None \<Rightarrow> Inl (Bail ''FromHexError''))"

definition tsi_from_str :: "hex_decode \<Rightarrow> string \<Rightarrow> tenant_shard_id res" where
  "tsi_from_str hx s =
     (if length s = 32 then
        rbind (id_from_hex hx s) (\<lambda>t.
          Inr \<lparr>tsi_tenant_id = t, tsi_shard_number = 0, tsi_shard_count = 0\<rparr>)
      else if length s = 37 then
        rbind (id_from_hex hx (take 32 s)) (\<lambda>t.
        rbind (hex_shard_parts hx (take 4 (drop 33 s))) (\<lambda>(n, c).
          Inr \<lparr>tsi_tenant_id = t, tsi_shard_number = n, tsi_shard_count = c\<rparr>))
      else Inl (Bail ''InvalidStringLength''))"

definition tsi_to_bytes :: "tenant_shard_id \<Rightarrow> bytes" where
  "tsi_to_bytes t = tsi_tenant_id t @ [tsi_shard_number t, tsi_shard_count t]"

definition tsi_from_bytes :: "bytes \<Rightarrow> tenant_shard_id" where
  "tsi_from_bytes b = \<lparr>tsi_tenant_id = take 16 b, tsi_shard_number = b ! 16, tsi_shard_count = b ! 17\<rparr>"

definition six_unsharded :: shard_index where
  "six_unsharded = \<lparr>six_shard_number = 0, six_shard_count = 0\<rparr>"

definition six_is_unsharded :: "shard_index \<Rightarrow> bool" where
  "six_is_unsharded i \<longleftrightarrow> six_shard_number i = 0 \<and> six_shard_count i = 0"

definition six_display :: "shard_index \<Rightarrow> string" where
  "six_display i = fmt_0x 2 (unat (six_shard_number i)) @ fmt_0x 2 (unat (six_shard_count i))"

definition get_suffix :: "shard_index \<Rightarrow> string" where
  "get_suffix i = (if six_is_unsharded i then [] else ''-'' @ six_display i)"

definition six_from_str :: "hex_decode \<Rightarrow> string \<Rightarrow> shard_index res" where
  "six_from_str hx s =
     (if length s = 4 then rbind (hex_shard_parts hx s) (\<lambda>(n, c).
        Inr \<lparr>six_shard_number = n, six_shard_count = c\<rparr>)
      else Inl (Bail ''InvalidStringLength''))"

definition six_from_bytes :: "bytes \<Rightarrow> shard_index" where
  "six_from_bytes b = \<lparr>six_shard_number = b ! 0, six_shard_count = b ! 1\<rparr>"

subsection \<open>Placement of keys\<close>

record shard_parameters =
  shp_count :: shard_count
  shp_stripe_size :: u32

record shard_identity =
  si_number :: shard_number
  si_count :: shard_count
  si_stripe_size :: u32
  si_layout :: u8

datatype shard_config_error = InvalidCount | InvalidNumber | InvalidStripeSize

definition LAYOUT_V1 :: u8 where "LAYOUT_V1 = 1"
definition LAYOUT_BROKEN :: u8 where "LAYOUT_BROKEN = 255"
definition DEFAULT_STRIPE_SIZE :: u32 where "DEFAULT_STRIPE_SIZE = 16 * 1024 div 8"

definition shp_default :: shard_parameters where
  "shp_default = \<lparr>shp_count = 0, shp_stripe_size = DEFAULT_STRIPE_SIZE\<rparr>"

definition si_unsharded :: shard_identity where
  "si_unsharded = \<lparr>si_number = 0, si_count = 0, si_stripe_size = DEFAULT_STRIPE_SIZE,
     si_layout = LAYOUT_V1\<rparr>"

definition si_unsharded_with_stripe_size :: "u32 \<Rightarrow> shard_identity" where
  "si_unsharded_with_stripe_size s =
     (if s > 0 then si_unsharded\<lparr>si_stripe_size := s\<rparr> else si_unsharded)"

definition si_broken :: "shard_number \<Rightarrow> shard_count \<Rightarrow> shard_identity" where
  "si_broken n c = \<lparr>si_number = n, si_count = c, si_stripe_size = DEFAULT_STRIPE_SIZE,
     si_layout = LAYOUT_BROKEN\<rparr>"

definition si_is_unsharded :: "shard_identity \<Rightarrow> bool" where
  "si_is_unsharded i \<longleftrightarrow> si_number i = 0 \<and> si_count i = 0"

definition si_new :: "shard_number \<Rightarrow> shard_count \<Rightarrow> u32 \<Rightarrow> shard_config_error + shard_identity" where
  "si_new n c s =
     (if c = 0 then Inl InvalidCount
      else if n > c - 1 then Inl InvalidNumber
      else if s = 0 then Inl InvalidStripeSize
      else Inr \<lparr>si_number = n, si_count = c, si_stripe_size = s, si_layout = LAYOUT_V1\<rparr>)"

definition si_from_params :: "shard_number \<Rightarrow> shard_parameters \<Rightarrow> shard_identity" where
  "si_from_params n p = \<lparr>si_number = n, si_count = shp_count p, si_stripe_size = shp_stripe_size p,
     si_layout = LAYOUT_V1\<rparr>"

definition si_is_broken :: "shard_identity \<Rightarrow> bool" where
  "si_is_broken i \<longleftrightarrow> si_layout i = LAYOUT_BROKEN"

definition key_is_shard0 :: "key \<Rightarrow> bool" where
  "key_is_shard0 k \<longleftrightarrow> \<not> is_rel_block_key k \<or> field5 k = INIT_FORKNUM"

definition murmurhash32 :: "u32 \<Rightarrow> u32" where
  "murmurhash32 h =
     (let h = h XOR drop_bit 16 h; h = h * 0x85ebca6b;
          h = h XOR drop_bit 13 h; h = h * 0xc2b2ae35 in h XOR drop_bit 16 h)"

definition hash_combine :: "u32 \<Rightarrow> u32 \<Rightarrow> u32" where
  "hash_combine a b =
     (let b = b + 0x9e3779b9; b = b + push_bit 6 a; b = b + drop_bit 2 a in a XOR b)"

definition key_to_shard_number :: "shard_count \<Rightarrow> u32 \<Rightarrow> key \<Rightarrow> shard_number res" where
  "key_to_shard_number c s k =
     (if c < 2 \<or> key_is_shard0 k then Inr 0
      else if s = 0 then Inl (Panic ''attempt to divide by zero'')
      else Inr (ucast (hash_combine (murmurhash32 (field4 k)) (murmurhash32 (field6 k div s))
             mod ucast c)))"

definition get_shard_number :: "shard_identity \<Rightarrow> key \<Rightarrow> shard_number res" where
  "get_shard_number i k =
     rbind (rassert (\<not> si_is_broken i) ''assertion failed: !self.is_broken()'') (\<lambda>_.
     key_to_shard_number (si_count i) (si_stripe_size i) k)"

definition is_key_local :: "shard_identity \<Rightarrow> key \<Rightarrow> bool res" where
  "is_key_local i k =
     rbind (rassert (\<not> si_is_broken i) ''assertion failed: !self.is_broken()'') (\<lambda>_.
     if si_count i < 2 \<or> key_is_shard0 k \<and> si_number i = 0 then Inr True
     else rbind (key_to_shard_number (si_count i) (si_stripe_size i) k) (\<lambda>n. Inr (n = si_number i)))"

definition is_key_global :: "key \<Rightarrow> bool" where
  "is_key_global k =
     (if is_slru_block_key k \<or> is_slru_segment_size_key k \<or> is_aux_file_key k \<or> is_slru_dir_key k
      then False
      else if is_rel_block_key k then False
      else if is_rel_size_key k then True else True)"

definition is_key_disposable :: "shard_identity \<Rightarrow> key \<Rightarrow> bool res" where
  "is_key_disposable i k =
     (if si_count i < 2 then Inr False
      else if is_key_global k then Inr False
      else rbind (is_key_local i k) (\<lambda>l. Inr (\<not> l)))"

definition si_shard_index :: "shard_identity \<Rightarrow> shard_index" where
  "si_shard_index i = \<lparr>six_shard_number = si_number i, six_shard_count = si_count i\<rparr>"

definition si_shard_slug :: "shard_identity \<Rightarrow> string" where
  "si_shard_slug i = (if si_count i > 0
     then ''-'' @ fmt_0x 2 (unat (si_number i)) @ fmt_0x 2 (unat (si_count i)) else [])"

definition si_is_shard_zero :: "shard_identity \<Rightarrow> bool" where
  "si_is_shard_zero i \<longleftrightarrow> si_number i = 0"

text \<open>The identity of a shard of a tenant with a given stripe size.\<close>

definition shard_of :: "u32 \<Rightarrow> tenant_shard_id \<Rightarrow> shard_identity" where
  "shard_of s t = si_from_params (tsi_shard_number t) \<lparr>shp_count = tsi_shard_count t, shp_stripe_size = s\<rparr>"

subsection \<open>Every key has one owner\<close>

lemma key_to_shard_number_total:
  assumes "s \<noteq> 0 \<or> c < 2"
  obtains n where "key_to_shard_number c s k = Inr n" "n < max c 1"
proof (cases "c < 2 \<or> key_is_shard0 k")
  case True
  then show ?thesis using that [of 0] by (simp add: key_to_shard_number_def less_max_iff_disj)
next
  case False
  let ?h = "hash_combine (murmurhash32 (field4 k)) (murmurhash32 (field6 k div s))"
  have c: "unat (ucast c :: u32) = unat c"
    by (simp add: unsigned_ucast_eq take_bit_nat_eq_self unat_lt_2p [THEN less_le_trans])
  have pos: "0 < unat c" using False by (auto simp: word_less_nat_alt)
  have "unat (?h mod ucast c) < unat c" using pos by (simp add: unat_mod c)
  then have "(ucast (?h mod ucast c) :: u8) < c"
    using unat_lt_2p [of c] by (simp add: word_less_nat_alt unsigned_ucast_eq take_bit_nat_eq_self)
  then show ?thesis using False assms that [of "ucast (?h mod ucast c)"]
    by (simp add: key_to_shard_number_def less_max_iff_disj)
qed

lemma key_to_shard_number_shard0: "key_is_shard0 k \<Longrightarrow> key_to_shard_number c s k = Inr 0"
  by (simp add: key_to_shard_number_def)

lemma is_key_disposable_owner:
  assumes "key_to_shard_number (si_count i) (si_stripe_size i) k = Inr n" "\<not> si_is_broken i"
  shows "is_key_disposable i k = Inr (2 \<le> si_count i \<and> \<not> is_key_global k \<and> si_number i \<noteq> n)"
  using assms key_to_shard_number_shard0 [of k "si_count i" "si_stripe_size i"]
  by (auto simp: is_key_disposable_def is_key_local_def)

lemma unat_ucast_8_32 [simp]: "unat (ucast (c :: u8) :: u32) = unat c"
  by (simp add: unsigned_ucast_eq take_bit_nat_eq_self unat_lt_2p [THEN less_le_trans])

lemma owner_hash:
  assumes "key_to_shard_number c s k = Inr n" "\<not> (c < 2 \<or> key_is_shard0 k)"
  shows "unat n = unat (hash_combine (murmurhash32 (field4 k)) (murmurhash32 (field6 k div s))) mod unat c"
proof -
  let ?h = "hash_combine (murmurhash32 (field4 k)) (murmurhash32 (field6 k div s))"
  have "0 < unat c" using assms(2) by (auto simp: word_less_nat_alt)
  then have "unat ?h mod unat c < unat c" by simp
  then have "unat ?h mod unat c < 2 ^ 8" using unat_u8 [of c] by linarith
  moreover have "n = ucast (?h mod ucast c)"
    using assms by (simp add: key_to_shard_number_def split: if_splits)
  ultimately show ?thesis by (simp add: unsigned_ucast_eq take_bit_nat_eq_self unat_mod)
qed

lemma owner_of_split:
  assumes "key_to_shard_number c s k = Inr n" "key_to_shard_number c' s k = Inr n'"
    "unat (max c 1) dvd unat c'" "c' \<noteq> 0"
  shows "n' mod max c 1 = n"
proof (cases "c < 2 \<or> key_is_shard0 k")
  case True
  have "n = 0" using assms(1) True by (auto simp: key_to_shard_number_def)
  moreover have "n' mod max c 1 = 0"
  proof (cases "c < 2")
    case True
    then have "max c 1 = 1" by (auto simp: max_def word_less_nat_alt word_le_nat_alt)
    then show ?thesis by simp
  next
    case False
    with \<open>c < 2 \<or> key_is_shard0 k\<close> assms(2) show ?thesis by (simp add: key_to_shard_number_def)
  qed
  ultimately show ?thesis by simp
next
  case False
  then have m: "max c 1 = c" by (auto simp: max_def word_less_nat_alt word_le_nat_alt)
  with assms(3,4) have "unat c \<le> unat c'" by (intro dvd_imp_le) (simp_all add: unat_gt_0)
  with False have c': "\<not> (c' < 2 \<or> key_is_shard0 k)" by (auto simp: word_less_nat_alt)
  have "unat (n' mod c) = unat n"
    using assms(3) by (simp add: unat_mod owner_hash [OF assms(1) False] owner_hash [OF assms(2) c'] m mod_mod_cancel)
  then show ?thesis by (simp add: m word_unat_eq_iff)
qed

lemma shard_of_disposable:
  assumes "key_to_shard_number (tsi_shard_count t) s k = Inr n"
  shows "is_key_disposable (shard_of s t) k =
    Inr (2 \<le> tsi_shard_count t \<and> \<not> is_key_global k \<and> tsi_shard_number t \<noteq> n)"
  using assms is_key_disposable_owner [of "shard_of s t" k n]
  by (simp add: shard_of_def si_from_params_def si_is_broken_def LAYOUT_V1_def LAYOUT_BROKEN_def)

lemma tsi_split_iff:
  "t' \<in> set (tsi_split t c) \<longleftrightarrow> tsi_shard_number t' < c \<and>
     tsi_shard_number t' mod max (tsi_shard_count t) 1 = tsi_shard_number t \<and>
     t' = \<lparr>tsi_tenant_id = tsi_tenant_id t, tsi_shard_number = tsi_shard_number t', tsi_shard_count = c\<rparr>"
proof -
  have "(n :: u8) \<in> of_nat ` {0..<unat c} \<longleftrightarrow> n < c" for n
  proof
    assume "n < c"
    then have "unat n \<in> {0..<unat c}" by (simp add: word_less_nat_alt)
    then show "n \<in> of_nat ` {0..<unat c}" by (intro image_eqI [of _ _ "unat n"]) simp_all
  qed (auto simp: word_less_nat_alt unat_of_nat take_bit_nat_eq_self_iff mod_less_eq_dividend [THEN le_less_trans])
  then show ?thesis by (cases t') (auto simp: tsi_split_def)
qed

subsection \<open>Text and byte forms of identifiers\<close>

lemma hex2_digits:
  assumes "n < 256"
  shows "fmt_0x 2 n = [hexdig 97 (n div 16), hexdig 97 (n mod 16)]"
proof -
  have "char_of (48 :: nat) = CHR ''0''" by (simp add: char_of_eq_iff)
  with assms show ?thesis
    by (cases "n < 16") (simp_all add: fmt_0x_def pad0_def hex_of.simps [of _ n]
      hex_of.simps [of _ "n div 16"] hexdig_def)
qed

lemma hex_shard_parts_slug:
  assumes "hex_crate hx"
  shows "hex_shard_parts hx (fmt_0x 2 (unat n) @ fmt_0x 2 (unat c)) = Inr (n, c)"
proof -
  let ?s = "fmt_0x 2 (unat n) @ fmt_0x 2 (unat c)"
  have b: "unat (x :: u8) div 16 < 16" "unat x < 256" for x :: u8 using unat_u8 [of x] by simp_all
  have "hex_val (?s ! (2 * i)) = Some (unat ([n, c] ! i) div 16) \<and>
        hex_val (?s ! (2 * i + 1)) = Some (unat ([n, c] ! i) mod 16)" if "i < 2" for i
    using that by (auto simp: hex2_digits b hex_val_hexdig less_2_cases_iff)
  then have "hx ?s 2 = Some [n, c]"
    using assms unfolding hex_crate_def by (simp add: length_fmt_0x b)
  then show ?thesis by (simp add: hex_shard_parts_def)
qed

lemma slug_length: "length (tsi_shard_slug t) = 4"
  using unat_u8 [of "tsi_shard_number t"] unat_u8 [of "tsi_shard_count t"]
  by (simp add: tsi_shard_slug_def length_fmt_0x)

text \<open>The text form of a shard identifier, and of the suffix alone, is parsed back to the same
  identifier, and so is its packed binary form; the identifier of an unsharded tenant is written as
  the tenant identifier. (A shard number other than zero occurs only with a shard count.)\<close>

theorem tenant_shard_id_round_trip:
  assumes "hex_crate hx" "id_ok (tsi_tenant_id t)"
    "tsi_shard_count t = 0 \<longrightarrow> tsi_shard_number t = 0"
  shows "tsi_from_str hx (tsi_display t) = Inr t \<and> tsi_from_bytes (tsi_to_bytes t) = t
    \<and> six_from_str hx (six_display (to_index t)) = Inr (to_index t)"
proof (intro conjI)
  note id = id_from_hex_encode [OF assms(1,2)]
  note parts = hex_shard_parts_slug [OF assms(1)]
  have len: "length (id_hex_encode (tsi_tenant_id t)) = 32" using assms(2) by (simp add: id_ok_def)
  show "tsi_from_str hx (tsi_display t) = Inr t"
    using id parts assms(3) len slug_length [of t]
    by (cases "tsi_shard_count t = 0") (simp_all add: tsi_from_str_def tsi_display_def tsi_shard_slug_def)
  show "tsi_from_bytes (tsi_to_bytes t) = t"
    using assms(2) by (simp add: tsi_from_bytes_def tsi_to_bytes_def id_ok_def nth_append)
  show "six_from_str hx (six_display (to_index t)) = Inr (to_index t)"
    using parts slug_length [of t]
    by (simp add: six_from_str_def six_display_def to_index_def tsi_shard_slug_def)
qed

theorem tenant_shard_id_round_trip_witness:
  "tsi_from_str hex_ref (tsi_display \<lparr>tsi_tenant_id = id_zero, tsi_shard_number = 2, tsi_shard_count = 4\<rparr>)
     = Inr \<lparr>tsi_tenant_id = id_zero, tsi_shard_number = 2, tsi_shard_count = 4\<rparr>"
  using tenant_shard_id_round_trip [OF hex_crate_ref,
      of "\<lparr>tsi_tenant_id = id_zero, tsi_shard_number = 2, tsi_shard_count = 4\<rparr>"]
  by (simp add: id_ok_def id_zero_def)

subsection \<open>Placement\<close>



lemma split_first:
  fixes n m c :: u8
  assumes "unat m dvd unat c" "c \<noteq> 0" "n < m"
  shows "n < c \<and> n mod m = n"
proof -
  have "unat m \<le> unat c" using assms by (intro dvd_imp_le) (simp_all add: unat_gt_0)
  with assms(3) show ?thesis by (simp add: word_less_nat_alt word_unat_eq_iff unat_mod)
qed

text \<open>C15: Splitting keeps the data reachable: when the new number of shards is a multiple of the old
  one, a shard holds a key exactly when one of the children it is split into does, and a key that
  not all shards keep is held by no more than one child.\<close>

theorem split_keeps_keys:
  assumes "s \<noteq> 0" "c \<noteq> 0" "unat (max (tsi_shard_count t) 1) dvd unat c"
    "tsi_shard_number t < max (tsi_shard_count t) 1"
  shows "(is_key_disposable (shard_of s t) k = Inr False \<longleftrightarrow>
      (\<exists>t' \<in> set (tsi_split t c). is_key_disposable (shard_of s t') k = Inr False))
    \<and> (is_key_global k \<or> (\<forall>t1 \<in> set (tsi_split t c). \<forall>t2 \<in> set (tsi_split t c).
        is_key_disposable (shard_of s t1) k = Inr False \<and> is_key_disposable (shard_of s t2) k = Inr False
        \<longrightarrow> t1 = t2))"
proof -
  obtain n where n: "key_to_shard_number (tsi_shard_count t) s k = Inr n" "n < max (tsi_shard_count t) 1"
    using key_to_shard_number_total [of s] assms(1) by blast
  obtain m where m: "key_to_shard_number c s k = Inr m" "m < max c 1"
    using key_to_shard_number_total [of s] assms(1) by blast
  let ?M = "max (tsi_shard_count t) 1"
  let ?child = "\<lambda>x. \<lparr>tsi_tenant_id = tsi_tenant_id t, tsi_shard_number = x, tsi_shard_count = c\<rparr>"
  have mn: "m mod ?M = n" by (rule owner_of_split [OF n(1) m(1) assms(3,2)])
  have mc: "m < c" using m(2) assms(2) by (auto simp: max_def word_le_nat_alt unat_gt_0 word_gt_0 split: if_splits)
  have small: "?M = 1 \<longleftrightarrow> tsi_shard_count t < 2"
    by (auto simp: max_def word_less_nat_alt word_le_nat_alt word_unat_eq_iff split: if_splits)
  have old: "is_key_disposable (shard_of s t) k = Inr False \<longleftrightarrow>
      tsi_shard_count t < 2 \<or> is_key_global k \<or> tsi_shard_number t = n"
    using shard_of_disposable [OF n(1)] by auto
  have new: "is_key_disposable (shard_of s t') k = Inr False \<longleftrightarrow>
      c < 2 \<or> is_key_global k \<or> tsi_shard_number t' = m" if "t' \<in> set (tsi_split t c)" for t'
  proof -
    have "tsi_shard_count t' = c" using that tsi_split_iff [of t' t c] by (metis tenant_shard_id.select_convs(3))
    then show ?thesis using shard_of_disposable [of t' s k m] m(1) by auto
  qed
  have child: "?child x \<in> set (tsi_split t c) \<longleftrightarrow> x < c \<and> x mod ?M = tsi_shard_number t" for x
    by (simp add: tsi_split_iff)
  have tiny: "?M = 1 \<and> m = 0" if "c < 2"
  proof -
    have "0 < unat c" using assms(2) by (simp add: unat_gt_0)
    then have c1: "unat c = 1" using that by (simp add: word_less_nat_alt)
    then have "unat ?M = 1" using assms(3) by simp
    then have "?M = 1" by (metis unat_1 word_unat_eq_iff)
    moreover have "unat m = 0" using mc c1 by (simp add: word_less_nat_alt)
    then have "m = 0" by (simp only: unat_eq_zero)
    ultimately show ?thesis by blast
  qed
  have first: "?child (tsi_shard_number t) \<in> set (tsi_split t c)"
    using split_first [OF assms(3,2,4)] by (simp add: child)
  have owner: "?child m \<in> set (tsi_split t c)" if "tsi_shard_number t = n" using that mc mn by (simp add: child)
  have "tsi_shard_number t = n" if "tsi_shard_count t < 2" using small that assms(4) n(2) by simp
  then have "\<exists>t' \<in> set (tsi_split t c). is_key_disposable (shard_of s t') k = Inr False"
    if "is_key_disposable (shard_of s t) k = Inr False"
    using that old owner first new by fastforce
  moreover have "is_key_disposable (shard_of s t) k = Inr False"
    if t': "t' \<in> set (tsi_split t c)" "is_key_disposable (shard_of s t') k = Inr False" for t'
    using t' new [OF t'(1)] old mn tiny small tsi_split_iff [of t' t c] by auto
  moreover have "tsi_shard_number t' = m"
    if t': "t' \<in> set (tsi_split t c)" "is_key_disposable (shard_of s t') k = Inr False" "\<not> is_key_global k" for t'
    using t' new [OF t'(1)] tiny tsi_split_iff [of t' t c] by (auto simp: word_less_nat_alt word_unat_eq_iff)
  moreover have "t' = ?child (tsi_shard_number t')" if "t' \<in> set (tsi_split t c)" for t'
    using that tsi_split_iff [of t' t c] by blast
  ultimately show ?thesis by metis
qed

theorem split_keeps_keys_witness:
  "is_key_disposable (shard_of 2048 \<lparr>tsi_tenant_id = id_zero, tsi_shard_number = 1, tsi_shard_count = 2\<rparr>)
       (Key 0 1663 5 16384 0 7) = Inr False \<longleftrightarrow>
     (\<exists>t' \<in> set (tsi_split \<lparr>tsi_tenant_id = id_zero, tsi_shard_number = 1, tsi_shard_count = 2\<rparr> 8).
        is_key_disposable (shard_of 2048 t') (Key 0 1663 5 16384 0 7) = Inr False)"
  by (rule conjunct1 [OF split_keeps_keys]) (simp_all add: max_def word_le_nat_alt word_less_nat_alt)

text \<open>The example values of the unit tests of the source.\<close>

lemma shard_mapping_examples:
  "murmurhash32 0 = 0" "hash_combine 0xb1ff3b40 0 = 0xfb7923c9"
  "key_to_shard_number 10 32768 (Key 0 0x67f 5 0x400c 0 0x7d06) = Inr 8"
  by (code_simp)+

end
