(* ===== verification/Keyspace.thy ===== *)
theory Keyspace
  imports Shards
begin

text \<open>
  Sets of keys as lists of ranges, libs/pageserver_api/src/keyspace.rs: the size of a range on one
  shard, its fragmentation along the stripes, the partitioning of a key space into pieces of bounded
  size, merging and subtraction of key spaces, and the two accumulators. The loops whose progress
  depends on the numbers they are given are partial functions into \<open>option\<close>; nothing stands for a
  loop that never ends. \<open>merge_by\<close> of the crate itertools is a parameter.
\<close>

type_synonym keyspace = "key_range list"
type_synonym fragment_list = "(u32 \<times> key_range) list"

subsection \<open>Ranges on a shard\<close>

definition contiguous_range_len :: "key_range \<Rightarrow> u32" where
  "contiguous_range_len r =
     (if field6 (fst r) = 0xffffffff then field6 (snd r) + 1
      else field6 (snd r) - field6 (fst r))"

definition is_contiguous_range :: "key_range \<Rightarrow> bool" where
  "is_contiguous_range r \<longleftrightarrow>
     field1 (fst r) = field1 (snd r) \<and> field2 (fst r) = field2 (snd r) \<and>
     field3 (fst r) = field3 (snd r) \<and> field4 (fst r) = field4 (snd r) \<and>
     (field5 (fst r) = field5 (snd r) \<or>
      field6 (fst r) = 0xffffffff \<and> field5 (fst r) + 1 = field5 (snd r))"

definition raw_size :: "key_range \<Rightarrow> u32" where
  "raw_size r = (if is_contiguous_range r then contiguous_range_len r else -1)"

definition distance_to_next_boundary :: "shard_identity \<Rightarrow> key_range \<Rightarrow> key \<Rightarrow> u32 res" where
  "distance_to_next_boundary si r cursor =
     (let to_end = contiguous_range_len (cursor, snd r); stripe = si_stripe_size si in
      if si_count si < 2 then Inr to_end
      else if field6 cursor = 0xffffffff then Inr 1
      else if stripe = 0 then Inl (Panic ''attempt to divide by zero'')
      else Inr (min (stripe - (field6 cursor - field6 cursor div stripe * stripe)) to_end))"

text \<open>One round of the loop of \<open>fragment\<close>: the new cursor and the fragments.\<close>

definition fragment_step ::
  "shard_identity \<Rightarrow> key_range \<Rightarrow> u32 \<Rightarrow> key \<Rightarrow> fragment_list \<Rightarrow> (key \<times> fragment_list) res" where
  "fragment_step si r target cursor frags =
     rbind (distance_to_next_boundary si r cursor) (\<lambda>dist.
     rbind (is_key_disposable si cursor) (\<lambda>disposable.
     let (want, merge_last) =
       (if frags = [] then (target, False)
        else if fst (last frags) < target then (target - fst (last frags), True)
        else (target, disposable));
       advance = (if disposable then dist else min dist want) in
     rbind (key_add cursor advance) (\<lambda>next.
     let sz = (if disposable then 0 else advance) in
     Inr (next, if merge_last
       then butlast frags @ [(fst (last frags) + sz, (fst (snd (last frags)), next))]
       else frags @ [(sz, (cursor, next))]))))"

partial_function (option) fragment_loop ::
  "shard_identity \<Rightarrow> key_range \<Rightarrow> u32 \<Rightarrow> key \<Rightarrow> fragment_list \<Rightarrow> fragment_list res option" where
  "fragment_loop si r target cursor frags =
     (if cursor < snd r then
        (case fragment_step si r target cursor frags of
           Inl e \<Rightarrow> Some (Inl e)
         | Inr cf \<Rightarrow> fragment_loop si r target (fst cf) (snd cf))
      else Some (Inr frags))"

definition fragment :: "shard_identity \<Rightarrow> key_range \<Rightarrow> u32 \<Rightarrow> fragment_list res option" where
  "fragment si r target =
     (case key_add (fst r) 1 of Inl e \<Rightarrow> Some (Inl e) | Inr next \<Rightarrow>
      if snd r = next then
        Some (rbind (is_key_disposable si (fst r)) (\<lambda>d. Inr [(if d then 0 else 1, r)]))
      else if \<not> is_contiguous_range r then Some (Inr [(-1, r)])
      else fragment_loop si r target (fst r) [])"

partial_function (option) page_count_loop ::
  "shard_identity \<Rightarrow> key_range \<Rightarrow> key \<Rightarrow> u64 \<Rightarrow> u64 res option" where
  "page_count_loop si r cursor result =
     (if cursor < snd r then
        (case rbind (distance_to_next_boundary si r cursor) (\<lambda>dist.
              rbind (is_key_disposable si cursor) (\<lambda>disposable.
              rbind (key_add cursor dist) (\<lambda>next.
              Inr (next, if disposable then result else result + ucast dist)))) of
           Inl e \<Rightarrow> Some (Inl e)
         | Inr cn \<Rightarrow> page_count_loop si r (fst cn) (snd cn))
      else Some (Inr result))"

definition page_count :: "shard_identity \<Rightarrow> key_range \<Rightarrow> u32 res option" where
  "page_count si r =
     (case key_add (fst r) 1 of Inl e \<Rightarrow> Some (Inl e) | Inr next \<Rightarrow>
      if snd r = next then
        Some (rbind (is_key_disposable si (fst r)) (\<lambda>d. Inr (if d then 0 else 1)))
      else if \<not> is_contiguous_range r then Some (Inr (-1))
      else if si_count si < 2 then Some (Inr (contiguous_range_len r))
      else map_option (\<lambda>c. rbind c (\<lambda>n. Inr (if n > 0xffffffff then -1 else ucast n)))
        (page_count_loop si r (fst r) 0))"

subsection \<open>Partitioning\<close>

definition BLCKSZ :: u64 where "BLCKSZ = 8192"

text \<open>The finished parts, the part that is being filled, and its size.\<close>

type_synonym part_acc = "keyspace list \<times> keyspace \<times> u64"

definition partition_frag :: "u32 \<Rightarrow> part_acc \<Rightarrow> u32 \<times> key_range \<Rightarrow> part_acc" where
  "partition_frag target acc frag = (case acc of (parts, part, sz) \<Rightarrow>
     let (parts, part, sz) =
       (if sz + ucast (fst frag) > ucast target \<and> sz > 0 then (parts @ [part], [], 0)
        else (parts, part, sz)) in
     (parts, part @ [snd frag], sz + ucast (fst frag)))"

fun partition_ranges ::
  "shard_identity \<Rightarrow> u32 \<Rightarrow> key_range list \<Rightarrow> part_acc \<Rightarrow> part_acc res option" where
  "partition_ranges si target [] acc = Some (Inr acc)"
| "partition_ranges si target (r # rs) acc =
     (case fragment si r target of
        None \<Rightarrow> None
      | Some (Inl e) \<Rightarrow> Some (Inl e)
      | Some (Inr frags) \<Rightarrow>
          partition_ranges si target rs (foldl (partition_frag target) acc frags))"

definition ks_partition :: "shard_identity \<Rightarrow> keyspace \<Rightarrow> u64 \<Rightarrow> keyspace list res option" where
  "ks_partition si ks tgt_size =
     (let target = ucast (tgt_size div BLCKSZ) in
      map_option (\<lambda>acc. rbind acc (\<lambda>(parts, part, sz).
          Inr (if part \<noteq> [] then parts @ [part] else parts)))
        (partition_ranges si target ks ([], [], 0)))"

definition total_raw_size :: "keyspace \<Rightarrow> u64" where
  "total_raw_size ks = sum_list (map (\<lambda>r. ucast (raw_size r)) ks)"

definition ks_is_empty :: "keyspace \<Rightarrow> bool" where
  "ks_is_empty ks \<longleftrightarrow> total_raw_size ks = 0"

definition ks_single :: "key_range \<Rightarrow> keyspace" where
  "ks_single r = [r]"

definition ks_start :: "keyspace \<Rightarrow> key option" where
  "ks_start ks = (case ks of [] \<Rightarrow> None | r # _ \<Rightarrow> Some (fst r))"

definition ks_end :: "keyspace \<Rightarrow> key option" where
  "ks_end ks = (if ks = [] then None else Some (snd (last ks)))"

subsection \<open>Overlaps and subtraction\<close>

text \<open>\<open>slice::binary_search_by_key\<close>: \<open>Ok\<close> with an index of the key, or \<open>Err\<close> with the place where it
  could be inserted.\<close>

function bsearch_loop :: "'a::linorder list \<Rightarrow> 'a \<Rightarrow> nat \<Rightarrow> nat \<Rightarrow> nat" where
  "bsearch_loop xs key base sz =
     (if sz > 1 then
        let half = sz div 2; mid = base + half in
        bsearch_loop xs key (if xs ! mid > key then base else mid) (sz - half)
      else base)"
  by pat_completeness auto
termination
  by (relation "measure (\<lambda>(_, _, _, sz). sz)") auto

declare bsearch_loop.simps [simp del]

definition binary_search :: "'a::linorder list \<Rightarrow> 'a \<Rightarrow> nat + nat" where
  "binary_search xs key =
     (if xs = [] then Inl 0
      else let base = bsearch_loop xs key 0 (length xs) in
        if xs ! base = key then Inr base
        else Inl (base + (if xs ! base < key then 1 else 0)))"

definition overlaps_at :: "keyspace \<Rightarrow> key_range \<Rightarrow> nat option" where
  "overlaps_at ks r =
     (let i = (case binary_search (map fst ks) (snd r) of Inl i \<Rightarrow> i | Inr i \<Rightarrow> i) in
      if i = 0 then None
      else if snd (ks ! (i - 1)) > fst r then Some (i - 1)
      else None)"

definition ks_overlaps :: "keyspace \<Rightarrow> key_range \<Rightarrow> bool" where
  "ks_overlaps ks r \<longleftrightarrow> overlaps_at ks r \<noteq> None"

definition ks_contains :: "keyspace \<Rightarrow> key \<Rightarrow> bool res" where
  "ks_contains ks k = rbind (key_next k) (\<lambda>n. Inr (ks_overlaps ks (k, n)))"

text \<open>The body of the inner loop, at the index of a range that overlaps: the four cases exclude
  each other.\<close>

definition remove_at :: "keyspace \<Rightarrow> key_range \<Rightarrow> nat \<Rightarrow> key_range list \<Rightarrow> keyspace \<times> key_range list" where
  "remove_at ks r i removed =
     (let (s, e) = ks ! i; (a, b) = r in
      if s < a \<and> e \<le> b then (ks[i := (s, a)], removed @ [(a, e)])
      else if s \<ge> a \<and> e > b then (ks[i := (b, e)], removed @ [(s, b)])
      else if s < a \<and> e > b then
        (take (i + 1) (ks[i := (s, a)]) @ (b, e) # drop (i + 1) ks, removed @ [(a, b)])
      else (take i ks @ drop (i + 1) ks, removed @ [(s, e)]))"

partial_function (option) remove_range_loop ::
  "key_range \<Rightarrow> keyspace \<Rightarrow> key_range list \<Rightarrow> (keyspace \<times> key_range list) option" where
  "remove_range_loop r ks removed =
     (case overlaps_at ks r of
        None \<Rightarrow> Some (ks, removed)
      | Some i \<Rightarrow> remove_range_loop r (fst (remove_at ks r i removed)) (snd (remove_at ks r i removed)))"

fun remove_ranges ::
  "key_range list \<Rightarrow> keyspace \<Rightarrow> key_range list \<Rightarrow> (keyspace \<times> key_range list) option" where
  "remove_ranges [] ks removed = Some (ks, removed)"
| "remove_ranges (r # rs) ks removed =
     (case remove_range_loop r ks removed of None \<Rightarrow> None | Some (ks, removed) \<Rightarrow> remove_ranges rs ks removed)"

subsection \<open>Accumulators\<close>

text \<open>\<open>KeySpaceRandomAccum\<close> is the list of the ranges added.\<close>

type_synonym random_accum = "key_range list"

definition ra_add_range :: "random_accum \<Rightarrow> key_range \<Rightarrow> random_accum" where
  "ra_add_range acc r = acc @ [r]"

definition singleton_range :: "key \<Rightarrow> key_range res" where
  "singleton_range k = rbind (key_next k) (\<lambda>n. Inr (k, n))"

definition ra_add_key :: "random_accum \<Rightarrow> key \<Rightarrow> random_accum res" where
  "ra_add_key acc k = rbind (singleton_range k) (\<lambda>r. Inr (ra_add_range acc r))"

definition ra_add_keyspace :: "random_accum \<Rightarrow> keyspace \<Rightarrow> random_accum" where
  "ra_add_keyspace acc ks = foldl ra_add_range acc ks"

fun ra_merge :: "key_range list \<Rightarrow> key \<Rightarrow> key \<Rightarrow> keyspace \<Rightarrow> keyspace res" where
  "ra_merge [] s e out = Inr (out @ [(s, e)])"
| "ra_merge (r # rs) s e out =
     rbind (rassert (fst r \<ge> s) ''assertion failed: r.start >= start'') (\<lambda>_.
     if fst r > e then ra_merge rs (fst r) (snd r) (out @ [(s, e)])
     else if snd r > e then ra_merge rs s (snd r) out
     else ra_merge rs s e out)"

definition ra_to_keyspace :: "random_accum \<Rightarrow> keyspace res" where
  "ra_to_keyspace acc =
     (if acc = [] then Inr []
      else let rs = sort_key fst acc in ra_merge rs (fst (hd rs)) (snd (hd rs)) [])"

definition ra_consume_keyspace :: "(random_accum, keyspace) act" where
  "ra_consume_keyspace acc = (ra_to_keyspace acc, [])"

definition remove_overlapping_with :: "keyspace \<Rightarrow> keyspace \<Rightarrow> (keyspace \<times> keyspace res) option" where
  "remove_overlapping_with ks other = (case (ks_start ks, ks_end ks) of
     (Some s, Some e) \<Rightarrow>
       map_option (\<lambda>(ks', removed). (ks', ra_to_keyspace removed))
         (remove_ranges (takeWhile (\<lambda>r. e > fst r) (dropWhile (\<lambda>r. s \<ge> snd r) other)) ks [])
   | _ \<Rightarrow> Some (ks, Inr []))"

text \<open>\<open>KeySpaceAccum\<close>: ranges in order.\<close>

record keyspace_accum =
  ka_accum :: "key_range option"
  ka_ranges :: "key_range list"
  ka_size :: u64

definition ka_new :: keyspace_accum where
  "ka_new = \<lparr>ka_accum = None, ka_ranges = [], ka_size = 0\<rparr>"

definition ka_add_range :: "key_range \<Rightarrow> (keyspace_accum, unit) act" where
  "ka_add_range r self =
     (let self = self\<lparr>ka_size := ka_size self + ucast (raw_size r)\<rparr> in
      case ka_accum self of
        None \<Rightarrow> (Inr (), self\<lparr>ka_accum := Some r\<rparr>)
      | Some (s, e) \<Rightarrow>
          if fst r = e then (Inr (), self\<lparr>ka_accum := Some (s, snd r)\<rparr>)
          else if fst r > e then
            (Inr (), self\<lparr>ka_accum := Some r, ka_ranges := ka_ranges self @ [(s, e)]\<rparr>)
          else (Inl (Panic ''assertion failed: range.start > accum.end''), self))"

definition ka_add_key :: "key \<Rightarrow> (keyspace_accum, unit) act" where
  "ka_add_key k = (case singleton_range k of Inl e \<Rightarrow> afail e | Inr r \<Rightarrow> ka_add_range r)"

definition ka_to_keyspace :: "keyspace_accum \<Rightarrow> keyspace" where
  "ka_to_keyspace self = ka_ranges self @ (case ka_accum self of None \<Rightarrow> [] | Some r \<Rightarrow> [r])"

definition ka_consume_keyspace :: "keyspace_accum \<Rightarrow> keyspace \<times> keyspace_accum" where
  "ka_consume_keyspace self = (ka_to_keyspace self, ka_new)"

type_synonym merge_by = "(key_range \<Rightarrow> key_range \<Rightarrow> bool) \<Rightarrow> keyspace \<Rightarrow> keyspace \<Rightarrow> keyspace"

fun merge_ranges :: "key_range list \<Rightarrow> key_range option \<Rightarrow> (keyspace_accum, unit) act" where
  "merge_ranges [] prev = areturn ()"
| "merge_ranges (r # rs) prev =
     (case prev of
        Some p \<Rightarrow>
          if max (fst r) (fst p) < min (snd r) (snd p)
          then afail (Panic ''Attempt to merge ovelapping keyspaces'')
          else abind (ka_add_range r) (\<lambda>_. merge_ranges rs (Some r))
      | None \<Rightarrow> abind (ka_add_range r) (\<lambda>_. merge_ranges rs (Some r)))"

definition ks_merge :: "merge_by \<Rightarrow> keyspace \<Rightarrow> keyspace \<Rightarrow> keyspace res" where
  "ks_merge mb ks other =
     (case merge_ranges (mb (\<lambda>l r. fst l < fst r) ks other) None ka_new of
        (Inl e, _) \<Rightarrow> Inl e | (Inr _, acc) \<Rightarrow> Inr (ka_to_keyspace acc))"

subsection \<open>Binary search\<close>

lemma bsearch_loop_inv:
  assumes "sorted_wrt (<) xs" "0 < sz" "base + sz \<le> length xs" "base = 0 \<or> xs ! base \<le> key"
    "\<forall>j < length xs. base + sz \<le> j \<longrightarrow> key < xs ! j"
  shows "bsearch_loop xs key base sz < length xs \<and>
    (bsearch_loop xs key base sz = 0 \<or> xs ! bsearch_loop xs key base sz \<le> key) \<and>
    (\<forall>j < length xs. bsearch_loop xs key base sz < j \<longrightarrow> key < xs ! j)"
  using assms
proof (induction xs key base sz rule: bsearch_loop.induct)
  case (1 xs key base sz)
  show ?case
  proof (cases "1 < sz")
    case True
    let ?mid = "base + sz div 2"
    have mid: "?mid < length xs" using "1.prems" True by simp
    have hi: "key < xs ! j" if "key < xs ! ?mid" "j < length xs" "?mid \<le> j" for j
      using that "1.prems"(1) by (metis le_neq_implies_less less_trans sorted_wrt_nth_less)
    have gap: "?mid \<le> j" if "base + (sz - sz div 2) \<le> j" for j using True that by linarith
    let ?b = "if key < xs ! ?mid then base else ?mid"
    have eq: "bsearch_loop xs key base sz = bsearch_loop xs key ?b (sz - sz div 2)"
      using True by (subst bsearch_loop.simps) (simp add: Let_def)
    show ?thesis unfolding eq
    proof (rule "1.IH" [OF True refl refl "1.prems"(1)])
      show "0 < sz - sz div 2" using True by simp
      show "?b + (sz - sz div 2) \<le> length xs" using "1.prems"(3) by (auto intro: order_trans [OF diff_le_self])
      show "?b = 0 \<or> xs ! ?b \<le> key" using "1.prems"(4) by auto
      show "\<forall>j < length xs. ?b + (sz - sz div 2) \<le> j \<longrightarrow> key < xs ! j"
        using "1.prems"(5) hi gap by auto
    qed
  next
    case False
    have "bsearch_loop xs key base sz = base" using False by (subst bsearch_loop.simps) simp
    moreover have "sz = 1" using False "1.prems"(2) by simp
    ultimately show ?thesis using "1.prems" by auto
  qed
qed

text \<open>Found or not, the index splits a sorted list at the key.\<close>

lemma binary_search_index:
  assumes "sorted_wrt (<) xs" "i = (case binary_search xs key of Inl i \<Rightarrow> i | Inr i \<Rightarrow> i)"
  shows "i \<le> length xs" "j < i \<Longrightarrow> xs ! j < key" "j < length xs \<Longrightarrow> i \<le> j \<Longrightarrow> key \<le> xs ! j"
proof -
  have "i \<le> length xs \<and> (\<forall>j < i. xs ! j < key) \<and> (\<forall>j < length xs. i \<le> j \<longrightarrow> key \<le> xs ! j)"
  proof (cases "xs = []")
    case True
    then show ?thesis using assms(2) by (simp add: binary_search_def)
  next
    case False
    define b where "b = bsearch_loop xs key 0 (length xs)"
    have b: "b < length xs" "b = 0 \<or> xs ! b \<le> key" "\<forall>j < length xs. b < j \<longrightarrow> key < xs ! j"
      using bsearch_loop_inv [of xs "length xs" 0 key] assms(1) False by (auto simp: b_def)
    have lo: "xs ! j < xs ! b" if "j < b" for j
      using that b(1) assms(1) by (auto intro: sorted_wrt_nth_less)
    have i: "i = (if xs ! b < key then b + 1 else b)"
      using assms(2) False by (simp add: binary_search_def Let_def b_def split: if_splits)
    show ?thesis
    proof (cases "xs ! b < key")
      case True
      with i have i1: "i = Suc b" by simp
      moreover have "xs ! j < key" if "j < Suc b" for j
        using that True lo [of j] by (cases "j = b") auto
      moreover have "key \<le> xs ! j" if "j < length xs" "Suc b \<le> j" for j
        using that b(3) by (auto intro: less_imp_le)
      ultimately show ?thesis using b(1) by auto
    next
      case ge: False
      with i have "i = b" by simp
      moreover have "xs ! j < key" if "j < b" for j
      proof -
        have "xs ! b \<le> key" using b(2) that by simp
        then show ?thesis using lo [OF that] by (rule less_le_trans [rotated])
      qed
      moreover have "key \<le> xs ! j" if "j < length xs" "b \<le> j" for j
        using that b(3) ge by (cases "j = b") (auto simp: not_less intro: less_imp_le)
      ultimately show ?thesis using b(1) by simp
    qed
  qed
  then show "i \<le> length xs" "j < i \<Longrightarrow> xs ! j < key" "j < length xs \<Longrightarrow> i \<le> j \<Longrightarrow> key \<le> xs ! j"
    by blast+
qed

subsection \<open>Key spaces as sets\<close>

definition range_keys :: "key_range \<Rightarrow> key set" where
  "range_keys r = {k. fst r \<le> k \<and> k < snd r}"

definition ks_keys :: "keyspace \<Rightarrow> key set" where
  "ks_keys ks = \<Union> (range_keys ` set ks)"

text \<open>The ranges of a key space are in key order, without overlap, and none is empty.\<close>

definition ks_ok :: "keyspace \<Rightarrow> bool" where
  "ks_ok ks \<longleftrightarrow> sorted_wrt (\<lambda>r q. snd r \<le> fst q) ks \<and> (\<forall>r \<in> set ks. fst r < snd r)"

lemma range_keys_simps [simp]: "k \<in> range_keys (a, b) \<longleftrightarrow> a \<le> k \<and> k < b"
  by (simp add: range_keys_def)

lemma ks_keys_simps [simp]:
  "ks_keys [] = {}" "ks_keys (r # rs) = range_keys r \<union> ks_keys rs"
  "ks_keys (rs @ qs) = ks_keys rs \<union> ks_keys qs"
  by (auto simp: ks_keys_def)

lemma ks_ok_simps:
  "ks_ok []"
  "ks_ok (r # rs) \<longleftrightarrow> fst r < snd r \<and> (\<forall>q \<in> set rs. snd r \<le> fst q) \<and> ks_ok rs"
  "ks_ok (rs @ qs) \<longleftrightarrow> ks_ok rs \<and> ks_ok qs \<and> (\<forall>r \<in> set rs. \<forall>q \<in> set qs. snd r \<le> fst q)"
  by (auto simp: ks_ok_def sorted_wrt_append)

lemma ks_ok_starts: "ks_ok ks \<Longrightarrow> sorted_wrt (<) (map fst ks)"
  by (induction ks) (auto simp: ks_ok_simps intro: less_le_trans)

lemma finite_keys [simp]: "finite (S :: key set)"
proof -
  have "key_nat ` S \<subseteq> {..<2 ^ 144}" using key_nat_bound by auto
  then have "finite (key_nat ` S)" by (rule finite_subset) simp
  then show ?thesis by (rule finite_imageD) (simp add: inj_on_def key_nat_eq)
qed

text \<open>The index found is that of the last range that begins before the end of the given one.\<close>

lemma overlaps_at_split:
  assumes "ks_ok ks"
  obtains pre post where "ks = pre @ post" "\<forall>q \<in> set pre. fst q < snd r" "\<forall>q \<in> set post. snd r \<le> fst q"
    "overlaps_at ks r =
       (if pre = [] then None else if snd (last pre) > fst r then Some (length pre - 1) else None)"
proof -
  define i where "i = (case binary_search (map fst ks) (snd r) of Inl i \<Rightarrow> i | Inr i \<Rightarrow> i)"
  note idx = binary_search_index [OF ks_ok_starts [OF assms] i_def]
  have len: "i \<le> length ks" using idx(1) by simp
  have "fst q < snd r" if "q \<in> set (take i ks)" for q
    using that idx(2) len by (auto simp: in_set_conv_nth)
  moreover have "snd r \<le> fst q" if "q \<in> set (drop i ks)" for q
    using that idx(3) len by (auto simp: in_set_conv_nth)
  moreover have "overlaps_at ks r = (if take i ks = [] then None
      else if snd (last (take i ks)) > fst r then Some (length (take i ks) - 1) else None)"
    using len by (auto simp: overlaps_at_def Let_def i_def [symmetric] last_conv_nth min_absorb2)
  ultimately show thesis using that [of "take i ks" "drop i ks"] by simp
qed

text \<open>The index found is that of the last range that begins before the end of the given one.\<close>

lemma overlaps_at_Some:
  assumes "ks_ok ks" "overlaps_at ks r = Some i"
  obtains xs q ys where "ks = xs @ q # ys" "i = length xs" "fst q < snd r" "fst r < snd q"
    "\<forall>y \<in> set ys. snd r \<le> fst y"
proof -
  obtain pre post where p: "ks = pre @ post" "\<forall>q \<in> set pre. fst q < snd r" "\<forall>q \<in> set post. snd r \<le> fst q"
    and at: "overlaps_at ks r =
       (if pre = [] then None else if snd (last pre) > fst r then Some (length pre - 1) else None)"
    by (rule overlaps_at_split [OF assms(1)])
  have "pre \<noteq> []" "snd (last pre) > fst r" "i = length pre - 1"
    using at assms(2) by (simp_all split: if_splits)
  then show thesis using p by (intro that [of "butlast pre" "last pre" post]) simp_all
qed

lemma overlaps_at_None:
  assumes "ks_ok ks" "overlaps_at ks r = None" "q \<in> set ks"
  shows "snd q \<le> fst r \<or> snd r \<le> fst q"
proof -
  obtain pre post where p: "ks = pre @ post" "\<forall>q \<in> set post. snd r \<le> fst q"
    and at: "overlaps_at ks r =
       (if pre = [] then None else if snd (last pre) > fst r then Some (length pre - 1) else None)"
    by (rule overlaps_at_split [OF assms(1)])
  show ?thesis
  proof (cases "q \<in> set pre")
    case True
    then obtain xs l where pre: "pre = xs @ [l]" by (metis empty_iff empty_set rev_exhaust)
    then have "snd l \<le> fst r" using at assms(2) by (simp split: if_splits)
    moreover have "snd q \<le> snd l"
    proof (cases "q = l")
      case False
      with True pre have "snd q \<le> fst l" "fst l < snd l" using assms(1) p(1) by (auto simp: ks_ok_simps)
      then show ?thesis by simp
    qed simp
    ultimately show ?thesis by auto
  qed (use p assms(3) in auto)
qed

text \<open>A key space contains a key, or overlaps a range, exactly when the set it stands for does.\<close>

lemma ks_overlaps_iff:
  assumes "ks_ok ks" "fst r < snd r"
  shows "ks_overlaps ks r \<longleftrightarrow> ks_keys ks \<inter> range_keys r \<noteq> {}"
proof
  assume "ks_overlaps ks r"
  then obtain i where "overlaps_at ks r = Some i" by (auto simp: ks_overlaps_def)
  then obtain xs q ys where q: "ks = xs @ q # ys" "fst q < snd r" "fst r < snd q"
    by (rule overlaps_at_Some [OF assms(1)]) blast
  then have "fst q < snd q" using assms(1) by (simp add: ks_ok_simps)
  then have "max (fst q) (fst r) \<in> range_keys q \<inter> range_keys r"
    using q assms(2) by (auto simp: range_keys_def max_def)
  then show "ks_keys ks \<inter> range_keys r \<noteq> {}" using q(1) by auto
next
  assume "ks_keys ks \<inter> range_keys r \<noteq> {}"
  then obtain k q where k: "q \<in> set ks" "k \<in> range_keys q" "k \<in> range_keys r" by (auto simp: ks_keys_def)
  then have "\<not> (snd q \<le> fst r \<or> snd r \<le> fst q)" by (auto simp: range_keys_def)
  then show "ks_overlaps ks r" using overlaps_at_None [OF assms(1) _ k(1), of r] by (auto simp: ks_overlaps_def)
qed


subsection \<open>Subtraction\<close>

definition cut_off :: "key_range \<Rightarrow> key_range \<Rightarrow> keyspace" where
  "cut_off q r = (if fst q < fst r then [(fst q, fst r)] else []) @ (if snd q > snd r then [(snd r, snd q)] else [])"

lemma remove_at_cut:
  "remove_at (xs @ q # ys) r (length xs) removed =
     (xs @ cut_off q r @ ys, removed @ [(max (fst q) (fst r), min (snd q) (snd r))])"
  by (cases q; cases r) (auto simp: remove_at_def cut_off_def max_def min_def nth_append not_le not_less)

lemma cut_off_ok:
  assumes "fst q < snd q" "fst r < snd r" "fst q < snd r" "fst r < snd q"
  shows "ks_ok (cut_off q r)" "ks_keys (cut_off q r) = range_keys q - range_keys r"
    "\<forall>c \<in> set (cut_off q r). fst q \<le> fst c \<and> snd c \<le> snd q"
  using assms by (auto simp: cut_off_def ks_ok_simps range_keys_def)

lemma ks_ok_cut:
  assumes "ks_ok (xs @ q # ys)" "fst r < snd r" "fst q < snd r" "fst r < snd q"
  shows "ks_ok (xs @ cut_off q r @ ys)"
proof -
  note c = cut_off_ok [OF _ assms(2-4)]
  have "fst q < snd q" using assms(1) by (simp add: ks_ok_simps)
  with c [OF this] assms(1) show ?thesis by (auto simp: ks_ok_simps intro: order_trans)
qed

lemma ks_ok_apart:
  assumes "ks_ok (xs @ q # ys)"
  shows "ks_keys xs \<inter> range_keys q = {}" "ks_keys ys \<inter> range_keys q = {}"
  using assms by (auto simp: ks_ok_simps ks_keys_def range_keys_def)

text \<open>The inner loop ends and takes the keys of the range away.\<close>

lemma remove_loop_exact:
  assumes "ks_ok ks" "fst r < snd r"
  shows "\<exists>ks' cuts. remove_range_loop r ks removed = Some (ks', removed @ cuts) \<and> ks_ok ks' \<and>
    ks_keys ks' = ks_keys ks - range_keys r \<and> ks_keys cuts = ks_keys ks \<inter> range_keys r \<and>
    (\<forall>c \<in> set cuts. fst c < snd c)"
  using assms(1)
proof (induction "card (ks_keys ks \<inter> range_keys r)" arbitrary: ks removed rule: less_induct)
  case less
  show ?case
  proof (cases "overlaps_at ks r")
    case None
    have "ks_keys ks \<inter> range_keys r = {}"
      using ks_overlaps_iff [OF less.prems assms(2)] None by (simp add: ks_overlaps_def)
    then show ?thesis using None less.prems
      by (subst remove_range_loop.simps) (auto intro: exI [of _ "[]"])
  next
    case (Some i)
    then obtain xs q ys where q: "ks = xs @ q # ys" "i = length xs" "fst q < snd r" "fst r < snd q"
      by (rule overlaps_at_Some [OF less.prems]) blast
    define cut where "cut = (max (fst q) (fst r), min (snd q) (snd r))"
    let ?ks = "xs @ cut_off q r @ ys"
    have ne: "fst q < snd q" using less.prems q(1) by (simp add: ks_ok_simps)
    have ok: "ks_ok ?ks" using ks_ok_cut less.prems q assms(2) by simp
    have cutk: "range_keys cut = range_keys q \<inter> range_keys r" "fst cut < snd cut"
      using ne q assms(2) by (auto simp: cut_def range_keys_def)
    have keys: "ks_keys ?ks = ks_keys ks - range_keys cut"
      using cut_off_ok(2) [OF ne assms(2) q(3,4)] ks_ok_apart [of xs q ys] less.prems q(1) cutk by auto
    have "fst cut \<in> range_keys cut" using cutk(2) by (simp add: range_keys_def)
    then have "ks_keys ?ks \<inter> range_keys r \<subset> ks_keys ks \<inter> range_keys r"
      using keys cutk q(1) by auto
    then have "card (ks_keys ?ks \<inter> range_keys r) < card (ks_keys ks \<inter> range_keys r)"
      by (intro psubset_card_mono) simp_all
    from less.hyps [OF this ok, of "removed @ [cut]"] obtain ks' cuts where
      ih: "remove_range_loop r ?ks (removed @ [cut]) = Some (ks', (removed @ [cut]) @ cuts)" "ks_ok ks'"
        "ks_keys ks' = ks_keys ?ks - range_keys r" "ks_keys cuts = ks_keys ?ks \<inter> range_keys r"
        "\<forall>c \<in> set cuts. fst c < snd c" by blast
    have "remove_range_loop r ks removed = remove_range_loop r ?ks (removed @ [cut])"
      using Some q by (subst remove_range_loop.simps) (simp add: remove_at_cut cut_def)
    with ih keys cutk q(1) show ?thesis
      by (intro exI [of _ ks'] exI [of _ "cut # cuts"]) auto
  qed
qed

lemma remove_ranges_exact:
  assumes "ks_ok ks" "\<forall>r \<in> set rs. fst r < snd r"
  shows "\<exists>ks' cuts. remove_ranges rs ks removed = Some (ks', removed @ cuts) \<and> ks_ok ks' \<and>
    ks_keys ks' = ks_keys ks - ks_keys rs \<and> ks_keys cuts = ks_keys ks \<inter> ks_keys rs \<and>
    (\<forall>c \<in> set cuts. fst c < snd c)"
  using assms
proof (induction rs arbitrary: ks removed)
  case (Cons r rs)
  have r: "fst r < snd r" using Cons.prems by simp
  obtain ks1 cuts1 where 1: "remove_range_loop r ks removed = Some (ks1, removed @ cuts1)" "ks_ok ks1"
    "ks_keys ks1 = ks_keys ks - range_keys r" "ks_keys cuts1 = ks_keys ks \<inter> range_keys r"
    "\<forall>c \<in> set cuts1. fst c < snd c"
    using remove_loop_exact [OF Cons.prems(1) r, of removed] by blast
  obtain ks2 cuts2 where 2: "remove_ranges rs ks1 (removed @ cuts1) = Some (ks2, (removed @ cuts1) @ cuts2)"
    "ks_ok ks2" "ks_keys ks2 = ks_keys ks1 - ks_keys rs" "ks_keys cuts2 = ks_keys ks1 \<inter> ks_keys rs"
    "\<forall>c \<in> set cuts2. fst c < snd c"
    using Cons.IH [OF 1(2), of "removed @ cuts1"] Cons.prems(2) by auto
  show ?case
    by (rule exI [of _ ks2], rule exI [of _ "cuts1 @ cuts2"]) (use 1 2 in auto)
qed auto

lemma ra_merge_exact:
  assumes "sorted (map fst rs)" "\<forall>r \<in> set rs. s \<le> fst r \<and> fst r < snd r" "s < e"
    "ks_ok out" "\<forall>q \<in> set out. snd q \<le> s"
  shows "\<exists>ks. ra_merge rs s e out = Inr ks \<and> ks_ok ks \<and>
    ks_keys ks = ks_keys out \<union> range_keys (s, e) \<union> ks_keys rs"
  using assms
proof (induction rs arbitrary: s e out)
  case Nil
  then show ?case by (auto simp: ks_ok_simps)
next
  case (Cons r rs)
  have r: "s \<le> fst r" "fst r < snd r" and rest: "\<forall>q \<in> set rs. fst r \<le> fst q \<and> fst q < snd q"
    "sorted (map fst rs)" "\<forall>q \<in> set rs. s \<le> fst q \<and> fst q < snd q"
    using Cons.prems by auto
  consider "e < fst r" | "fst r \<le> e" "e < snd r" | "fst r \<le> e" "snd r \<le> e" by fastforce
  then show ?case
  proof cases
    case 1
    have out: "ks_ok (out @ [(s, e)])" "\<forall>q \<in> set (out @ [(s, e)]). snd q \<le> fst r"
      using Cons.prems r 1 by (auto simp: ks_ok_simps)
    have eq: "ra_merge (r # rs) s e out = ra_merge rs (fst r) (snd r) (out @ [(s, e)])"
      using 1 r by (simp add: rassert_def)
    show ?thesis using Cons.IH [OF rest(2,1) r(2) out] unfolding eq by auto
  next
    case 2
    have eq: "ra_merge (r # rs) s e out = ra_merge rs s (snd r) out"
      using 2 r by (simp add: rassert_def leD)
    have "range_keys (s, snd r) = range_keys (s, e) \<union> range_keys r" using 2 r by (auto simp: range_keys_def)
    moreover have "s < snd r" using r by simp
    ultimately show ?thesis using Cons.IH [OF rest(2,3) _ Cons.prems(4,5), of "snd r"] unfolding eq
      by (simp add: Un_assoc)
  next
    case 3
    have eq: "ra_merge (r # rs) s e out = ra_merge rs s e out"
      using 3 r by (simp add: rassert_def leD)
    have "range_keys r \<subseteq> range_keys (s, e)" using 3 r by (auto simp: range_keys_def)
    then show ?thesis using Cons.IH [OF rest(2,3) Cons.prems(3,4,5)] unfolding eq by auto
  qed
qed

text \<open>Ranges in any order, overlapping or not, become a key space with the same keys.\<close>

lemma ra_to_keyspace_exact:
  assumes "\<forall>r \<in> set acc. fst r < snd r"
  shows "\<exists>ks. ra_to_keyspace acc = Inr ks \<and> ks_ok ks \<and> ks_keys ks = ks_keys acc"
proof (cases "acc = []")
  case True
  then show ?thesis by (simp add: ra_to_keyspace_def ks_ok_simps)
next
  case False
  define rs where "rs = sort_key fst acc"
  have rs: "sorted (map fst rs)" "set rs = set acc" "rs \<noteq> []"
    using False by (simp_all add: rs_def) (metis length_0_conv length_sort)
  then obtain r qs where cons: "rs = r # qs" by (cases rs) auto
  have "\<exists>ks. ra_merge rs (fst r) (snd r) [] = Inr ks \<and> ks_ok ks \<and>
      ks_keys ks = ks_keys [] \<union> range_keys (fst r, snd r) \<union> ks_keys rs"
    using rs assms cons by (intro ra_merge_exact) (auto simp: ks_ok_simps)
  moreover have "ks_keys rs = ks_keys acc" using rs(2) by (simp add: ks_keys_def)
  ultimately show ?thesis using False cons by (auto simp: ra_to_keyspace_def Let_def rs_def [symmetric])
qed

lemma ks_bounds:
  assumes "ks_ok ks" "ks_start ks = Some s" "ks_end ks = Some e" "k \<in> ks_keys ks"
  shows "s \<le> k \<and> k < e"
proof -
  obtain r rs where r: "ks = r # rs" "s = fst r" using assms(2) by (auto simp: ks_start_def split: list.splits)
  obtain xs l where l: "ks = xs @ [l]" "e = snd l" using assms(3) r(1)
    by (metis ks_end_def last_snoc list.distinct(1) option.inject rev_exhaust)
  obtain q where q: "q \<in> set ks" "fst q \<le> k" "k < snd q" using assms(4) by (auto simp: ks_keys_def range_keys_def)
  have "fst r \<le> fst q" using q(1) r(1) assms(1) by (auto simp: ks_ok_simps intro: less_imp_le order_trans)
  moreover have "snd q \<le> snd l" using q(1) l(1) assms(1) by (auto simp: ks_ok_simps intro: less_imp_le order_trans)
  ultimately show ?thesis using q r l by auto
qed

text \<open>The ranges that are skipped have no key in common with the key space.\<close>

lemma skipped_ranges:
  assumes "ks_ok other" "\<forall>k \<in> K. s \<le> k \<and> k < e"
  shows "K \<inter> ks_keys other =
    K \<inter> ks_keys (takeWhile (\<lambda>r. e > fst r) (dropWhile (\<lambda>r. s \<ge> snd r) other))"
proof -
  have drop: "K \<inter> ks_keys other = K \<inter> ks_keys (dropWhile (\<lambda>r. s \<ge> snd r) other)" for other
    using assms(2) by (induction other) (auto simp: range_keys_def)
  have take: "K \<inter> ks_keys rs = K \<inter> ks_keys (takeWhile (\<lambda>r. e > fst r) rs)" if "ks_ok rs" for rs
    using that
  proof (induction rs)
    case (Cons r rs)
    have "K \<inter> range_keys q = {}" if "e \<le> fst r" "q \<in> set (r # rs)" for q
    proof -
      have "e \<le> fst q" using that Cons.prems by (auto simp: ks_ok_simps intro: order_trans less_imp_le)
      then show ?thesis using assms(2) by (force simp: range_keys_def)
    qed
    then have "K \<inter> ks_keys (r # rs) = {}" if "e \<le> fst r" using that unfolding ks_keys_def by blast
    then show ?case using Cons by (cases "e > fst r") (auto simp: ks_ok_simps not_less)
  qed simp
  have "ks_ok (dropWhile (\<lambda>r. s \<ge> snd r) other)"
    using assms(1) by (induction other) (auto simp: ks_ok_simps)
  then show ?thesis using drop take by metis
qed

text \<open>C16: Subtracting a key space ends, takes away exactly the keys of the other one and returns
  exactly the keys taken away; what is left and what is returned are key spaces again: in order,
  without overlap and without empty ranges.\<close>

theorem remove_overlapping_exact:
  assumes "ks_ok ks" "ks_ok other"
  shows "\<exists>ks' removed. remove_overlapping_with ks other = Some (ks', Inr removed) \<and>
    ks_ok ks' \<and> ks_ok removed \<and> ks_keys ks' = ks_keys ks - ks_keys other \<and>
    ks_keys removed = ks_keys ks \<inter> ks_keys other"
proof (cases "ks = []")
  case True
  then show ?thesis by (simp add: remove_overlapping_with_def ks_start_def ks_ok_simps)
next
  case False
  then obtain s e where se: "ks_start ks = Some s" "ks_end ks = Some e"
    by (cases ks) (simp_all add: ks_start_def ks_end_def)
  define rs where "rs = takeWhile (\<lambda>r. e > fst r) (dropWhile (\<lambda>r. s \<ge> snd r) other)"
  have int: "ks_keys ks \<inter> ks_keys other = ks_keys ks \<inter> ks_keys rs"
    unfolding rs_def using skipped_ranges [OF assms(2)] ks_bounds [OF assms(1) se] by blast
  have ne: "\<forall>r \<in> set rs. fst r < snd r"
    using assms(2) by (auto simp: rs_def ks_ok_def dest!: set_takeWhileD set_dropWhileD)
  obtain ks' cuts where r: "remove_ranges rs ks [] = Some (ks', cuts)" "ks_ok ks'"
    "ks_keys ks' = ks_keys ks - ks_keys rs" "ks_keys cuts = ks_keys ks \<inter> ks_keys rs"
    "\<forall>c \<in> set cuts. fst c < snd c"
    using remove_ranges_exact [OF assms(1) ne, of "[]"] by auto
  obtain removed where removed: "ra_to_keyspace cuts = Inr removed" "ks_ok removed"
    "ks_keys removed = ks_keys cuts"
    using ra_to_keyspace_exact [OF r(5)] by blast
  have "remove_overlapping_with ks other = Some (ks', Inr removed)"
    using r(1) removed(1) by (simp add: remove_overlapping_with_def se rs_def)
  moreover have "ks_keys ks' = ks_keys ks - ks_keys other" using r(3) int by blast
  ultimately show ?thesis using r removed int by auto
qed

theorem remove_overlapping_exact_witness:
  "\<exists>ks' removed. remove_overlapping_with [(Key 0 0 0 0 0 1, Key 0 0 0 0 0 9)] [(Key 0 0 0 0 0 3, Key 0 0 0 0 0 5)]
      = Some (ks', Inr removed) \<and>
    ks_keys ks' = ks_keys [(Key 0 0 0 0 0 1, Key 0 0 0 0 0 9)] - ks_keys [(Key 0 0 0 0 0 3, Key 0 0 0 0 0 5)]"
  using remove_overlapping_exact [of "[(Key 0 0 0 0 0 1, Key 0 0 0 0 0 9)]" "[(Key 0 0 0 0 0 3, Key 0 0 0 0 0 5)]"]
  by (force simp: ks_ok_def less_key_def key_less_def word_less_nat_alt)

end
