(* ===== verification/KeyspacePart.thy ===== *)
theory KeyspacePart
  imports Keyspace
begin

text \<open>
  Correctness of the fragmentation of ranges and of the partitioning of key spaces on a shard
  (\<open>fragment\<close>, \<open>page_count\<close> and \<open>partition\<close> of libs/pageserver_api/src/keyspace.rs). A contiguous
  range lies within the blocks of one relation fork, or begins with the last key of the fork before.
  On a shard only some stripes of it are stored; \<open>live_count\<close> counts those keys. The loops end when
  the target is at least one block, and a theorem shows that they do not otherwise.
\<close>

subsection \<open>Distances\<close>

definition key_prefix :: "key \<Rightarrow> nat" where
  "key_prefix k = (((unat (field1 k) * 2 ^ 32 + unat (field2 k)) * 2 ^ 32 + unat (field3 k)) * 2 ^ 32
     + unat (field4 k)) * 2 ^ 8 + unat (field5 k)"

lemma key_nat_prefix: "key_nat k = key_prefix k * 2 ^ 32 + unat (field6 k)"
  by (simp add: key_nat_def key_prefix_def)

lemma key_prefix_div: "key_prefix k = key_nat k div 2 ^ 32"
  using unat_u32 [of "field6 k"] by (simp add: key_nat_prefix)

lemma key_prefix_eq:
  "key_prefix a = key_prefix b \<longleftrightarrow> field1 a = field1 b \<and> field2 a = field2 b \<and> field3 a = field3 b
     \<and> field4 a = field4 b \<and> field5 a = field5 b"
  unfolding key_prefix_def by (simp only: lex_eq unat_u32 unat_u8 word_unat_eq_iff conj_assoc)

lemma key_prefix_mono: "a \<le> b \<Longrightarrow> key_prefix a \<le> key_prefix b"
  by (simp add: key_prefix_div key_nat_le [symmetric] div_le_mono)

lemma card_key_range: "card {k. a \<le> k \<and> k < b} = key_nat b - key_nat a"
proof -
  have "key_nat ` {k. a \<le> k \<and> k < b} = {key_nat a..<key_nat b}"
  proof (rule antisym)
    show "{key_nat a..<key_nat b} \<subseteq> key_nat ` {k. a \<le> k \<and> k < b}"
    proof
      fix n
      assume n: "n \<in> {key_nat a..<key_nat b}"
      then have "n < 2 ^ 144" using key_nat_bound [of b] by simp
      then obtain k where k: "key_nat k = n" using key_nat_surj by blast
      with n have "a \<le> k" "k < b" by (simp_all add: key_nat_le [symmetric] key_nat_less [symmetric])
      with k show "n \<in> key_nat ` {k. a \<le> k \<and> k < b}" by auto
    qed
  qed (auto simp: key_nat_le key_nat_less)
  moreover have "inj_on key_nat {k. a \<le> k \<and> k < b}" by (simp add: inj_on_def key_nat_eq)
  ultimately show ?thesis by (metis card_atLeastLessThan card_image)
qed

lemma contiguous_cases:
  assumes "is_contiguous_range (c, e)" "c < e"
  obtains "key_prefix c = key_prefix e" "unat (field6 c) < unat (field6 e)"
  | "key_prefix e = key_prefix c + 1" "field6 c = 0xffffffff"
proof -
  have f: "field1 c = field1 e" "field2 c = field2 e" "field3 c = field3 e" "field4 c = field4 e"
    using assms(1) by (simp_all add: is_contiguous_range_def)
  show thesis
  proof (cases "field5 c = field5 e")
    case True
    then have p: "key_prefix c = key_prefix e" using f by (simp add: key_prefix_eq)
    then show thesis using that(1) assms(2) by (simp add: key_nat_less [symmetric] key_nat_prefix)
  next
    case False
    then have 5: "field6 c = 0xffffffff" "field5 c + 1 = field5 e"
      using assms(1) by (simp_all add: is_contiguous_range_def)
    have "unat (field5 c) + 1 < 2 ^ 8"
    proof (rule ccontr)
      assume "\<not> unat (field5 c) + 1 < 2 ^ 8"
      then have "unat (field5 c) = 255" using unat_u8 [of "field5 c"] by simp
      then have "field5 c = 255" by (simp add: word_unat_eq_iff)
      then show False using assms(2) f 5(2) by (auto simp: less_key_def key_less_def word_less_nat_alt)
    qed
    then have "unat (field5 e) = unat (field5 c) + 1" using 5(2) [symmetric] by (simp add: unat_word_ariths)
    then have "key_prefix e = key_prefix c + 1" using f by (simp add: key_prefix_def)
    with 5(1) show thesis using that(2) by blast
  qed
qed

lemma contiguous_len:
  assumes "is_contiguous_range (c, e)" "c < e" "key_nat e - key_nat c < 2 ^ 32"
  shows "unat (contiguous_range_len (c, e)) = key_nat e - key_nat c"
  using assms(1,2)
proof (cases rule: contiguous_cases)
  case 1
  then have "field6 c \<noteq> 0xffffffff" using unat_u32 [of "field6 e"] by (auto simp: word_unat_eq_iff)
  then show ?thesis using 1
    by (simp add: contiguous_range_len_def key_nat_prefix unat_sub word_le_nat_alt)
next
  case 2
  then have d: "key_nat e - key_nat c = unat (field6 e) + 1" by (simp add: key_nat_prefix)
  then have "unat (field6 e + 1) = unat (field6 e) + 1" using assms(3) by (simp add: unat_word_ariths)
  with d 2(2) show ?thesis by (simp add: contiguous_range_len_def)
qed

text \<open>A step forward inside a contiguous range leaves a contiguous range.\<close>

lemma contiguous_advance:
  assumes "is_contiguous_range (c, e)" "c < e" "c < c'" "c' \<le> e"
  shows "is_contiguous_range (c', e) \<and> (field1 c', field3 c', field4 c') = (field1 c, field3 c, field4 c)"
proof -
  have f: "field1 c = field1 e" "field3 c = field3 e" "field4 c = field4 e"
    using assms(1) by (simp_all add: is_contiguous_range_def)
  have "key_prefix c' = key_prefix e"
    using assms(1,2)
  proof (cases rule: contiguous_cases)
    case 1
    then show ?thesis using key_prefix_mono [of c c'] key_prefix_mono [of c' e] assms(3,4) by simp
  next
    case 2
    have "key_nat c < key_nat c'" using assms(3) by (simp add: key_nat_less)
    then have "key_nat c + 1 \<le> key_nat c'" by simp
    then have "(key_nat c + 1) div 2 ^ 32 \<le> key_prefix c'" unfolding key_prefix_div by (rule div_le_mono)
    moreover have "(key_nat c + 1) div 2 ^ 32 = key_prefix c + 1" using 2 by (simp add: key_nat_prefix)
    ultimately show ?thesis using 2 key_prefix_mono [OF assms(4)] by simp
  qed
  then show ?thesis using f by (simp add: key_prefix_eq is_contiguous_range_def)
qed

subsection \<open>Stripes\<close>

definition si_ok :: "shard_identity \<Rightarrow> bool" where
  "si_ok si \<longleftrightarrow> \<not> si_is_broken si \<and> (si_count si < 2 \<or> si_stripe_size si \<noteq> 0)"

definition live :: "shard_identity \<Rightarrow> key \<Rightarrow> bool" where
  "live si k \<longleftrightarrow> is_key_disposable si k = Inr False"

lemma is_key_disposable_live: "si_ok si \<Longrightarrow> is_key_disposable si k = Inr (\<not> live si k)"
proof -
  assume ok: "si_ok si"
  then obtain n where "key_to_shard_number (si_count si) (si_stripe_size si) k = Inr n"
    using key_to_shard_number_total [of "si_stripe_size si" "si_count si" k] by (auto simp: si_ok_def)
  from is_key_disposable_owner [OF this] ok show ?thesis by (simp add: si_ok_def live_def)
qed

lemma stripe_same:
  assumes "key_prefix k = key_prefix c" "field6 k div si_stripe_size si = field6 c div si_stripe_size si"
    "field6 k \<noteq> 0xffffffff" "field6 c \<noteq> 0xffffffff"
    "\<not> (field1 c = 1 \<and> field3 c = 0 \<and> field4 c = 0)"
  shows "live si k \<longleftrightarrow> live si c"
proof -
  have f: "field1 k = field1 c" "field2 k = field2 c" "field3 k = field3 c" "field4 k = field4 c"
    "field5 k = field5 c" using assms(1) by (simp_all add: key_prefix_eq)
  have m1: "(- 1 :: u32) = 0xffffffff" by simp
  have r: "is_rel_block_key k = is_rel_block_key c" "is_slru_block_key k = is_slru_block_key c"
    "is_slru_segment_size_key k = is_slru_segment_size_key c" "is_aux_file_key k = is_aux_file_key c"
    using f assms by (simp_all add: is_rel_block_key_def is_slru_block_key_def is_slru_segment_size_key_def
      is_aux_file_key_def m1)
  have d: "\<not> is_slru_dir_key k" "\<not> is_slru_dir_key c"
    using f assms(5) by (auto simp: is_slru_dir_key_def slru_dir_kind_def)
  have "is_key_global k = is_key_global c" using r d by (simp add: is_key_global_def)
  moreover have "key_is_shard0 k = key_is_shard0 c" using f r by (simp add: key_is_shard0_def)
  ultimately show ?thesis using f assms(2)
    by (simp add: live_def is_key_disposable_def is_key_local_def key_to_shard_number_def)
qed

lemma same_stripe_div:
  fixes x y s :: nat
  assumes "y \<le> x" "x < y + (s - y mod s)" "0 < s"
  shows "x div s = y div s"
proof -
  have "y mod s < s" using assms(3) by simp
  then have "x < (y div s) * s + s" using assms(2) div_mult_mod_eq [of y s] by linarith
  moreover have "(y div s) * s \<le> x" using assms(1) div_mult_mod_eq [of y s] by linarith
  ultimately show ?thesis by (intro div_nat_eqI) (simp_all add: algebra_simps)
qed

lemma next_boundary:
  assumes "si_ok si" "is_contiguous_range (c, e)" "c < e" "key_nat e - key_nat c < 2 ^ 32"
    "\<not> (field1 c = 1 \<and> field3 c = 0 \<and> field4 c = 0)"
  obtains d where "distance_to_next_boundary si (s, e) c = Inr d" "0 < unat d"
    "unat d \<le> key_nat e - key_nat c"
    "\<And>k. c \<le> k \<Longrightarrow> key_nat k < key_nat c + unat d \<Longrightarrow> live si k \<longleftrightarrow> live si c"
proof -
  note len = contiguous_len [OF assms(2-4)]
  have pos: "0 < key_nat e - key_nat c" using assms(3) by (simp add: key_nat_less)
  consider "si_count si < 2" | "2 \<le> si_count si" "field6 c = 0xffffffff"
    | "2 \<le> si_count si" "field6 c \<noteq> 0xffffffff" using not_less by blast
  then show thesis
  proof cases
    case 1
    then have "live si k" for k by (simp add: live_def is_key_disposable_def)
    then show thesis using that [of "contiguous_range_len (c, e)"] 1 len pos
      by (simp add: distance_to_next_boundary_def)
  next
    case 2
    then have dd: "distance_to_next_boundary si (s, e) c = Inr 1"
      by (auto simp: distance_to_next_boundary_def not_less [symmetric])
    have ll: "live si k \<longleftrightarrow> live si c" if "c \<le> k" "key_nat k < key_nat c + unat (1 :: u32)" for k
    proof -
      have "k = c" using that by (simp add: key_nat_le [symmetric] key_nat_eq [symmetric])
      then show ?thesis by simp
    qed
    have pp: "unat (1 :: u32) \<le> key_nat e - key_nat c" using pos by simp
    show thesis by (rule that [OF dd _ pp ll]) simp_all
  next
    case 3
    let ?s = "si_stripe_size si"
    define d where "d = min (?s - (field6 c - field6 c div ?s * ?s)) (contiguous_range_len (c, e))"
    have s: "0 < unat ?s" using assms(1) 3(1) by (auto simp: si_ok_def not_less [symmetric] unat_gt_0)
    have p: "key_prefix c = key_prefix e" "unat (field6 c) < unat (field6 e)"
      using contiguous_cases [OF assms(2,3)] 3(2) by blast+
    have "field6 c - field6 c div ?s * ?s = field6 c mod ?s" by (simp add: minus_div_mult_eq_mod)
    moreover have "unat (?s - field6 c mod ?s) = unat ?s - unat (field6 c) mod unat ?s"
      using s by (simp add: unat_sub word_le_nat_alt unat_mod less_imp_le)
    ultimately have d: "unat d = min (unat ?s - unat (field6 c) mod unat ?s) (key_nat e - key_nat c)"
      using len by (simp add: d_def min_def word_le_nat_alt)
    have same: "live si k \<longleftrightarrow> live si c" if k: "c \<le> k" "key_nat k < key_nat c + unat d" for k
    proof -
      have "key_nat k < key_nat e" using k(2) d pos by simp
      then have "k < e" by (simp add: key_nat_less)
      then have pk: "key_prefix k = key_prefix c"
        using key_prefix_mono [of c k] key_prefix_mono [of k e] k(1) p(1) by simp
      have x: "unat (field6 c) \<le> unat (field6 k)" "unat (field6 k) < unat (field6 c) + unat d"
        "unat (field6 k) < unat (field6 e)"
        using k pk p \<open>k < e\<close> by (simp_all add: key_nat_le [symmetric] key_nat_less [symmetric] key_nat_prefix)
      then have "unat (field6 k) div unat ?s = unat (field6 c) div unat ?s"
        using d s by (intro same_stripe_div) simp_all
      then have "field6 k div ?s = field6 c div ?s" by (simp add: word_unat_eq_iff unat_div)
      moreover have "field6 k \<noteq> 0xffffffff" using x(3) unat_u32 [of "field6 e"] by (auto simp: word_unat_eq_iff)
      ultimately show ?thesis using stripe_same [OF pk _ _ 3(2) assms(5)] by blast
    qed
    have "unat (field6 c) mod unat ?s < unat ?s" using s by simp
    then have "0 < unat d" using d pos by simp
    moreover have "distance_to_next_boundary si (s, e) c = Inr d"
      using 3 s by (auto simp: distance_to_next_boundary_def Let_def d_def not_less [symmetric])
    moreover have "unat d \<le> key_nat e - key_nat c" using d by simp
    ultimately show thesis using same by (intro that)
  qed
qed

subsection \<open>Fragments\<close>

text \<open>The keys of a range that a shard stores.\<close>

definition live_count :: "shard_identity \<Rightarrow> key \<Rightarrow> key \<Rightarrow> nat" where
  "live_count si a b = card {k. a \<le> k \<and> k < b \<and> live si k}"

lemma live_count_append:
  assumes "a \<le> b" "b \<le> c"
  shows "live_count si a c = live_count si a b + live_count si b c"
proof -
  let ?A = "{k. a \<le> k \<and> k < b \<and> live si k}" and ?B = "{k. b \<le> k \<and> k < c \<and> live si k}"
  have "{k. a \<le> k \<and> k < c \<and> live si k} = ?A \<union> ?B" using assms by auto
  moreover have "?A \<inter> ?B = {}" by auto
  ultimately show ?thesis unfolding live_count_def by (simp only: card_Un_disjoint finite_keys)
qed

lemma live_count_uniform:
  assumes "\<And>k. a \<le> k \<Longrightarrow> k < b \<Longrightarrow> live si k \<longleftrightarrow> live si a"
  shows "live_count si a b = (if live si a then key_nat b - key_nat a else 0)"
proof (cases "live si a")
  case True
  then have "{k. a \<le> k \<and> k < b \<and> live si k} = {k. a \<le> k \<and> k < b}" using assms by auto
  then show ?thesis using True by (simp add: live_count_def card_key_range)
next
  case False
  then have "{k. a \<le> k \<and> k < b \<and> live si k} = {}" using assms by auto
  then show ?thesis using False by (simp add: live_count_def)
qed

text \<open>Fragments from a start to the cursor, the last one first: adjacent, sized by the keys stored,
  none larger than the target, all but the last one of exactly that size.\<close>

fun frags_rev :: "shard_identity \<Rightarrow> u32 \<Rightarrow> key \<Rightarrow> fragment_list \<Rightarrow> key \<Rightarrow> bool" where
  "frags_rev si t s [] c \<longleftrightarrow> c = s"
| "frags_rev si t s ((n, (a, b)) # fs) c \<longleftrightarrow> b = c \<and> a < b \<and> unat n = live_count si a b \<and> n \<le> t
     \<and> frags_rev si t s fs a \<and> (fs \<noteq> [] \<longrightarrow> 0 < n \<and> fst (hd fs) = t)"

lemma cursor_advance:
  assumes "si_ok si" "is_contiguous_range (c, e)" "c < e" "key_nat e - key_nat c < 2 ^ 32"
    "\<not> (field1 c = 1 \<and> field3 c = 0 \<and> field4 c = 0)"
  obtains d where "distance_to_next_boundary si (s, e) c = Inr d"
    "\<And>adv. 0 < adv \<Longrightarrow> adv \<le> d \<Longrightarrow> \<exists>c'. key_add c adv = Inr c' \<and> c < c' \<and> c' \<le> e \<and>
       live_count si c c' = unat (if live si c then adv else 0)" "0 < d"
proof -
  obtain d where d: "distance_to_next_boundary si (s, e) c = Inr d" "0 < unat d"
    "unat d \<le> key_nat e - key_nat c"
    "\<And>k. c \<le> k \<Longrightarrow> key_nat k < key_nat c + unat d \<Longrightarrow> live si k \<longleftrightarrow> live si c"
    by (rule next_boundary [OF assms, where s = s]) (rule that)
  have "\<exists>c'. key_add c adv = Inr c' \<and> c < c' \<and> c' \<le> e \<and>
       live_count si c c' = unat (if live si c then adv else 0)" if adv: "0 < adv" "adv \<le> d" for adv
  proof -
    have u: "0 < unat adv" "unat adv \<le> unat d" using adv by (simp_all add: word_less_nat_alt word_le_nat_alt)
    then have lt: "key_nat c + unat adv \<le> key_nat e" using d(3) by linarith
    then have "key_nat c + unat adv < 2 ^ 144" using key_nat_bound [of e] by linarith
    then obtain c' where c': "key_add c adv = Inr c'" "key_nat c' = key_nat c + unat adv"
      using key_add_defined [of c adv] key_add_Inr by blast
    have "c < c'" "c' \<le> e" using c'(2) u(1) lt by (simp_all add: key_nat_less [symmetric] key_nat_le [symmetric])
    moreover have "live si k \<longleftrightarrow> live si c" if "c \<le> k" "k < c'" for k
      using d(4) [OF that(1)] that(2) c'(2) u by (simp add: key_nat_less [symmetric])
    then have "live_count si c c' = (if live si c then key_nat c' - key_nat c else 0)"
      by (rule live_count_uniform)
    then have "live_count si c c' = unat (if live si c then adv else 0)" using c'(2) by simp
    ultimately show ?thesis using c'(1) by blast
  qed
  moreover have "0 < d" using d(2) by (simp add: word_less_nat_alt)
  ultimately show thesis using that d(1) by blast
qed

lemma fragment_step_ok:
  assumes "si_ok si" "is_contiguous_range (c, e)" "c < e" "key_nat e - key_nat c < 2 ^ 32"
    "\<not> (field1 c = 1 \<and> field3 c = 0 \<and> field4 c = 0)" "frags_rev si t s (rev fs) c" "0 < t"
  shows "\<exists>c' fs'. fragment_step si (x, e) t c fs = Inr (c', fs') \<and> c < c' \<and> c' \<le> e \<and>
    frags_rev si t s (rev fs') c'"
proof -
  obtain d where d: "distance_to_next_boundary si (x, e) c = Inr d"
    "\<And>adv. 0 < adv \<Longrightarrow> adv \<le> d \<Longrightarrow> \<exists>c'. key_add c adv = Inr c' \<and> c < c' \<and> c' \<le> e \<and>
       live_count si c c' = unat (if live si c then adv else 0)" "0 < d"
    by (rule cursor_advance [OF assms(1-5), where s = x]) (rule that)
  note disp = is_key_disposable_live [OF assms(1), of c]
  show ?thesis
  proof (cases fs rule: rev_cases)
    case Nil
    define adv where "adv = (if live si c then min d t else d)"
    have "0 < adv" "adv \<le> d" using d(3) assms(7) by (auto simp: adv_def)
    then obtain c' where c': "key_add c adv = Inr c'" "c < c'" "c' \<le> e"
      "live_count si c c' = unat (if live si c then adv else 0)" using d(2) by blast
    then show ?thesis using Nil d(1) disp assms(6)
      by (auto simp: fragment_step_def Let_def adv_def)
  next
    case (snoc gs f)
    obtain n a b where f: "f = (n, (a, b))" by (metis prod.exhaust)
    have ok: "b = c" "a < c" "unat n = live_count si a c" "n \<le> t" "frags_rev si t s (rev gs) a"
      "gs \<noteq> [] \<Longrightarrow> 0 < n \<and> fst (hd (rev gs)) = t"
      using assms(6) snoc f by auto
    show ?thesis
    proof (cases "n < t")
      case True
      define adv where "adv = (if live si c then min d (t - n) else d)"
      have tn: "unat (t - n) = unat t - unat n" using ok(4) by (simp add: unat_sub)
      then have "0 < t - n" using True by (simp add: word_less_nat_alt)
      then have "0 < adv" "adv \<le> d" using d(3) by (auto simp: adv_def)
      then obtain c' where c': "key_add c adv = Inr c'" "c < c'" "c' \<le> e"
        "live_count si c c' = unat (if live si c then adv else 0)" using d(2) by blast
      define m where "m = n + (if live si c then adv else 0)"
      have le: "(if live si c then adv else 0) \<le> t - n" by (simp add: adv_def)
      have m: "unat m = live_count si a c'" "n \<le> m" "m \<le> t"
      proof -
        have "unat (if live si c then adv else 0) \<le> unat t - unat n"
          using le by (simp only: word_le_nat_alt tn)
        then have u: "unat m = unat n + unat (if live si c then adv else 0)" "unat m \<le> unat t"
          unfolding m_def using unat_u32 [of t] ok(4) by (simp_all add: unat_word_ariths word_le_nat_alt)
        then show "n \<le> m" "m \<le> t" by (simp_all add: word_le_nat_alt)
        show "unat m = live_count si a c'"
          using u(1) ok(3) c'(4) live_count_append [of a c c' si] ok(2) c'(2) by simp
      qed
      have "fragment_step si (x, e) t c fs = Inr (c', gs @ [(m, (a, c'))])"
        using True c'(1) snoc f d(1) disp
        by (cases "live si c") (simp_all add: fragment_step_def Let_def adv_def m_def)
      moreover have "frags_rev si t s (rev (gs @ [(m, (a, c'))])) c'"
        using m ok c'(2) by auto
      ultimately show ?thesis using c' by blast
    next
      case False
      then have n: "n = t" using ok(4) by simp
      define adv where "adv = (if live si c then min d t else d)"
      have "0 < adv" "adv \<le> d" using d(3) assms(7) by (auto simp: adv_def)
      then obtain c' where c': "key_add c adv = Inr c'" "c < c'" "c' \<le> e"
        "live_count si c c' = unat (if live si c then adv else 0)" using d(2) by blast
      show ?thesis
      proof (cases "live si c")
        case True
        have "fragment_step si (x, e) t c fs = Inr (c', fs @ [(adv, (c, c'))])"
          using False True c'(1) snoc f d(1) disp by (simp add: fragment_step_def Let_def adv_def)
        moreover have "frags_rev si t s (rev (fs @ [(adv, (c, c'))])) c'"
          using assms(6) c' True \<open>0 < adv\<close> snoc f n by (auto simp: adv_def)
        ultimately show ?thesis using c' by blast
      next
        case dead: False
        have "fragment_step si (x, e) t c fs = Inr (c', gs @ [(n, (a, c'))])"
          using False dead c'(1) snoc f d(1) disp by (simp add: fragment_step_def Let_def adv_def)
        moreover have "frags_rev si t s (rev (gs @ [(n, (a, c'))])) c'"
          using ok c' dead live_count_append [of a c c' si] by auto
        ultimately show ?thesis using c' by blast
      qed
    qed
  qed
qed

lemma fragment_loop_ok:
  assumes "si_ok si" "is_contiguous_range (c, e)" "c \<le> e" "key_nat e - key_nat c < 2 ^ 32"
    "\<not> (field1 c = 1 \<and> field3 c = 0 \<and> field4 c = 0)" "frags_rev si t s (rev fs) c" "0 < t"
  shows "\<exists>fs'. fragment_loop si (x, e) t c fs = Some (Inr fs') \<and> frags_rev si t s (rev fs') e"
  using assms(2-6)
proof (induction "key_nat e - key_nat c" arbitrary: c fs rule: less_induct)
  case less
  show ?case
  proof (cases "c = e")
    case True
    then show ?thesis using less.prems by (subst fragment_loop.simps) simp
  next
    case False
    then have lt: "c < e" using less.prems(2) by simp
    obtain c' fs' where step: "fragment_step si (x, e) t c fs = Inr (c', fs')" "c < c'" "c' \<le> e"
      "frags_rev si t s (rev fs') c'"
      using fragment_step_ok [OF assms(1) less.prems(1) lt less.prems(3-5) assms(7)] by blast
    have n: "key_nat c < key_nat c'" "key_nat c' \<le> key_nat e"
      using step by (simp_all add: key_nat_less key_nat_le)
    have adv: "is_contiguous_range (c', e)" "\<not> (field1 c' = 1 \<and> field3 c' = 0 \<and> field4 c' = 0)"
      using contiguous_advance [OF less.prems(1) lt step(2,3)] less.prems(4) by auto
    have "\<exists>fs''. fragment_loop si (x, e) t c' fs' = Some (Inr fs'') \<and> frags_rev si t s (rev fs'') e"
      using n less.prems(3) by (intro less.hyps adv step) linarith+
    moreover have "fragment_loop si (x, e) t c fs = fragment_loop si (x, e) t c' fs'"
      using lt step(1) by (subst fragment_loop.simps) simp
    ultimately show ?thesis by simp
  qed
qed

text \<open>The same facts in the order of the fragments.\<close>

fun frag_chain :: "key \<Rightarrow> fragment_list \<Rightarrow> key \<Rightarrow> bool" where
  "frag_chain s [] e \<longleftrightarrow> s = e"
| "frag_chain s ((n, (a, b)) # fs) e \<longleftrightarrow> a = s \<and> a < b \<and> frag_chain b fs e"

lemma frag_chain_snoc:
  "frag_chain s (fs @ [(n, (a, b))]) e \<longleftrightarrow> frag_chain s fs a \<and> a < b \<and> b = e"
  by (induction s fs e rule: frag_chain.induct) auto

definition frags_exact :: "shard_identity \<Rightarrow> u32 \<Rightarrow> fragment_list \<Rightarrow> bool" where
  "frags_exact si t fs \<longleftrightarrow>
     (\<forall>(n, (a, b)) \<in> set fs. unat n = live_count si a b \<and> n \<le> t \<and> (1 < length fs \<longrightarrow> 0 < n)) \<and>
     (\<forall>f \<in> set (butlast fs). fst f = t)"

lemma frags_rev_exact:
  assumes "frags_rev si t s (rev fs) e" "0 < t"
  shows "frag_chain s fs e \<and> frags_exact si t fs"
  using assms(1)
proof (induction fs arbitrary: e rule: rev_induct)
  case Nil
  then show ?case by (simp add: frags_exact_def)
next
  case (snoc f fs)
  obtain n a b where f: "f = (n, (a, b))" by (metis prod.exhaust)
  have ok: "b = e" "a < e" "unat n = live_count si a e" "n \<le> t" "frags_rev si t s (rev fs) a"
    "fs \<noteq> [] \<Longrightarrow> 0 < n \<and> fst (last fs) = t"
    using snoc.prems f by (auto simp: hd_rev)
  note ih = snoc.IH [OF ok(5)]
  have "\<forall>g \<in> set fs. fst g = t"
    using ih ok(6) by (cases fs rule: rev_cases) (auto simp: frags_exact_def)
  then show ?case using ih ok f assms(2) by (auto simp: frag_chain_snoc frags_exact_def)
qed

definition range_ok :: "key_range \<Rightarrow> bool" where
  "range_ok r \<longleftrightarrow> fst r < snd r \<and> is_contiguous_range r \<and> key_nat (snd r) - key_nat (fst r) < 2 ^ 32
     \<and> \<not> (field1 (fst r) = 1 \<and> field3 (fst r) = 0 \<and> field4 (fst r) = 0)"

lemma live_count_le: "live_count si a b \<le> key_nat b - key_nat a"
  unfolding live_count_def card_key_range [symmetric] by (rule card_mono) auto

lemma live_count_refl [simp]: "live_count si a a = 0"
  using live_count_le [of si a a] by simp

lemma page_count_loop_ok:
  assumes "si_ok si" "is_contiguous_range (c, e)" "c \<le> e" "key_nat e - key_nat c < 2 ^ 32"
    "\<not> (field1 c = 1 \<and> field3 c = 0 \<and> field4 c = 0)"
    "unat n + (key_nat e - key_nat c) < 2 ^ 64"
  shows "\<exists>m. page_count_loop si (x, e) c n = Some (Inr m) \<and> unat m = unat n + live_count si c e"
  using assms(2-6)
proof (induction "key_nat e - key_nat c" arbitrary: c n rule: less_induct)
  case less
  show ?case
  proof (cases "c = e")
    case True
    then show ?thesis by (subst page_count_loop.simps) simp
  next
    case False
    then have lt: "c < e" using less.prems(2) by simp
    obtain d where d: "distance_to_next_boundary si (x, e) c = Inr d"
      "\<And>adv. 0 < adv \<Longrightarrow> adv \<le> d \<Longrightarrow> \<exists>c'. key_add c adv = Inr c' \<and> c < c' \<and> c' \<le> e \<and>
         live_count si c c' = unat (if live si c then adv else 0)" "0 < d"
      by (rule cursor_advance [OF assms(1) less.prems(1) lt less.prems(3,4), where s = x]) (rule that)
    obtain c' where c': "key_add c d = Inr c'" "c < c'" "c' \<le> e"
      "live_count si c c' = unat (if live si c then d else 0)" using d(2) [OF d(3)] by blast
    define n' where "n' = (if live si c then n + ucast d else n)"
    have k: "key_nat c' = key_nat c + unat d" "0 < unat d"
      using c'(1) d(3) by (simp_all add: key_add_Inr word_less_nat_alt)
    have le_e: "key_nat c' \<le> key_nat e" using c'(3) by (simp add: key_nat_le)
    note k = k le_e
    have "unat (ucast d :: u64) = unat d"
      by (simp add: unsigned_ucast_eq take_bit_nat_eq_self unat_lt_2p [THEN less_le_trans])
    then have n': "unat n' = unat n + live_count si c c'"
      using k less.prems(5) c'(4) by (simp add: n'_def unat_word_ariths)
    have le: "live_count si c c' \<le> unat d" using c'(4) by simp
    have adv: "is_contiguous_range (c', e)" "\<not> (field1 c' = 1 \<and> field3 c' = 0 \<and> field4 c' = 0)"
      using contiguous_advance [OF less.prems(1) lt c'(2,3)] less.prems(4) by auto
    have "\<exists>m. page_count_loop si (x, e) c' n' = Some (Inr m) \<and> unat m = unat n' + live_count si c' e"
    proof (rule less.hyps)
      show "key_nat e - key_nat c' < key_nat e - key_nat c" "key_nat e - key_nat c' < 2 ^ 32"
        using k less.prems(3) by linarith+
      show "unat n' + (key_nat e - key_nat c') < 2 ^ 64" using n' le k less.prems(5) by linarith
    qed (rule adv c'(3))+
    moreover have "page_count_loop si (x, e) c n = page_count_loop si (x, e) c' n'"
      using lt d(1) c'(1) is_key_disposable_live [OF assms(1), of c]
      by (subst page_count_loop.simps) (simp add: n'_def)
    moreover have "live_count si c e = live_count si c c' + live_count si c' e"
      using c' by (intro live_count_append) simp_all
    ultimately show ?thesis using n' by (simp add: add.assoc)
  qed
qed

lemma live_count_single:
  assumes "key_add s 1 = Inr e"
  shows "live_count si s e = (if live si s then 1 else 0)"
proof -
  have e: "key_nat e = key_nat s + 1" using assms by (simp add: key_add_Inr)
  have "k = s" if "s \<le> k" "k < e" for k
    using that e by (simp add: key_nat_le [symmetric] key_nat_less [symmetric] key_nat_eq [symmetric])
  then have "live_count si s e = (if live si s then key_nat e - key_nat s else 0)"
    by (intro live_count_uniform) blast
  then show ?thesis using e by simp
qed

lemma fragment_total:
  assumes "si_ok si" "range_ok (s, e)" "0 < t"
  shows "\<exists>fs. fragment si (s, e) t = Some (Inr fs) \<and> frag_chain s fs e \<and> frags_exact si t fs"
proof -
  have r: "s < e" "is_contiguous_range (s, e)" "key_nat e - key_nat s < 2 ^ 32"
    "\<not> (field1 s = 1 \<and> field3 s = 0 \<and> field4 s = 0)" using assms(2) by (simp_all add: range_ok_def)
  have "key_nat s < key_nat e" using r(1) by (simp add: key_nat_less)
  then have "key_nat s + unat (1 :: u32) < 2 ^ 144" using key_nat_bound [of e] by simp
  then obtain n where n: "key_add s 1 = Inr n" using key_add_defined [of s 1] by blast
  show ?thesis
  proof (cases "e = n")
    case True
    have "1 \<le> t" using assms(3) by (simp add: word_less_nat_alt word_le_nat_alt)
    then show ?thesis
      using n True is_key_disposable_live [OF assms(1), of s] live_count_single [of s e si] r(1)
      by (simp add: fragment_def frags_exact_def)
  next
    case False
    obtain fs where "fragment_loop si (s, e) t s [] = Some (Inr fs)" "frags_rev si t s (rev fs) e"
      using fragment_loop_ok [OF assms(1) r(2) less_imp_le [OF r(1)] r(3,4) _ assms(3), of s "[]" s] by auto
    then show ?thesis using n False r(2) frags_rev_exact [OF _ assms(3)] by (simp add: fragment_def)
  qed
qed

lemma page_count_total:
  assumes "si_ok si" "range_ok (s, e)"
  shows "page_count si (s, e) = Some (Inr (of_nat (live_count si s e)))"
proof -
  have r: "s < e" "is_contiguous_range (s, e)" "key_nat e - key_nat s < 2 ^ 32"
    "\<not> (field1 s = 1 \<and> field3 s = 0 \<and> field4 s = 0)" using assms(2) by (simp_all add: range_ok_def)
  have "key_nat s < key_nat e" using r(1) by (simp add: key_nat_less)
  then have "key_nat s + unat (1 :: u32) < 2 ^ 144" using key_nat_bound [of e] by simp
  then obtain n where n: "key_add s 1 = Inr n" using key_add_defined [of s 1] by blast
  have small: "live_count si s e < 2 ^ 32" using live_count_le [of si s e] r(3) by linarith
  consider "e = n" | "e \<noteq> n" "si_count si < 2" | "e \<noteq> n" "\<not> si_count si < 2" by blast
  then show ?thesis
  proof cases
    case 1
    then show ?thesis using n is_key_disposable_live [OF assms(1), of s] live_count_single [of s e si]
      by (simp add: page_count_def)
  next
    case 2
    then have "live si k" for k by (simp add: live_def is_key_disposable_def)
    then have "live_count si s e = key_nat e - key_nat s" by (simp add: live_count_def card_key_range)
    then have "contiguous_range_len (s, e) = of_nat (live_count si s e)"
      using contiguous_len [OF r(2,1,3)] by (metis of_nat_unat ucast_id)
    then show ?thesis using 2 n r(2) by (simp add: page_count_def)
  next
    case 3
    obtain m where m: "page_count_loop si (s, e) s 0 = Some (Inr m)" "unat m = live_count si s e"
      using page_count_loop_ok [OF assms(1) r(2) less_imp_le [OF r(1)] r(3,4), of 0 s] r(3) by auto
    then have "\<not> m > 0xffffffff" using small by (simp add: word_less_nat_alt)
    moreover have "ucast m = (of_nat (live_count si s e) :: u32)" using m(2) by (metis of_nat_unat)
    ultimately show ?thesis using 3 n r(2) m by (simp add: page_count_def)
  qed
qed

text \<open>C19: Cutting a contiguous range into fragments ends and is exact: the fragments are adjacent and
  cover the range; the size given with each is the number of its keys stored on the shard; no
  fragment is larger than the target, all but the last have exactly the target size, and none is
  empty on the shard unless it is the only one. The page count of the range is the number of its
  keys stored on the shard.\<close>

theorem fragment_exact:
  assumes "si_ok si" "range_ok (s, e)" "0 < t"
  shows "\<exists>fs. fragment si (s, e) t = Some (Inr fs) \<and> frag_chain s fs e \<and>
    (\<forall>(n, (a, b)) \<in> set fs. unat n = live_count si a b \<and> n \<le> t \<and> (1 < length fs \<longrightarrow> 0 < n)) \<and>
    (\<forall>f \<in> set (butlast fs). fst f = t) \<and>
    page_count si (s, e) = Some (Inr (of_nat (live_count si s e)))"
  using fragment_total [OF assms] page_count_total [OF assms(1,2)] by (auto simp: frags_exact_def)

theorem fragment_exact_witness:
  "\<exists>fs. fragment \<lparr>si_number = 1, si_count = 2, si_stripe_size = 8, si_layout = 1\<rparr>
      (Key 0 1663 5 16384 0 3, Key 0 1663 5 16384 0 1000) 10 = Some (Inr fs) \<and>
    frag_chain (Key 0 1663 5 16384 0 3) fs (Key 0 1663 5 16384 0 1000) \<and>
    (\<forall>f \<in> set (butlast fs). fst f = 10)"
proof -
  have "si_ok \<lparr>si_number = 1, si_count = 2, si_stripe_size = 8, si_layout = 1\<rparr>"
    by (simp add: si_ok_def si_is_broken_def LAYOUT_BROKEN_def)
  moreover have "range_ok (Key 0 1663 5 16384 0 3, Key 0 1663 5 16384 0 1000)"
    by (simp add: range_ok_def is_contiguous_range_def less_key_def key_less_def key_nat_def word_less_nat_alt)
  ultimately show ?thesis
    using fragment_exact [of "\<lparr>si_number = 1, si_count = 2, si_stripe_size = 8, si_layout = 1\<rparr>"
        "Key 0 1663 5 16384 0 3" "Key 0 1663 5 16384 0 1000" 10] by auto
qed

lemma key_add_0: "key_add k 0 = Inr k"
  by (simp add: key_add_Inr)

lemma fragment_loop_stuck:
  assumes "fragment_loop si r t c fs = Some y"
  shows "\<not> (t = 0 \<and> si_count si < 2 \<and> c < snd r)"
proof (rule fragment_loop.raw_induct [where P = "\<lambda>si r t c fs y. \<not> (t = 0 \<and> si_count si < 2 \<and> c < snd r)",
      OF _ assms], rule notI)
  fix loop si r fs and t :: u32 and c y
  assume ih: "\<And>si r t c fs y. loop si r t c fs = Some y \<Longrightarrow> \<not> (t = 0 \<and> si_count si < 2 \<and> c < snd r)"
    and body: "(if c < snd r then case fragment_step si r t c fs of Inl e \<Rightarrow> Some (Inl e)
        | Inr cf \<Rightarrow> loop si r t (fst cf) (snd cf) else Some (Inr fs)) = Some y"
    and stuck: "t = 0 \<and> si_count si < 2 \<and> c < snd r"
  have "\<exists>fs'. fragment_step si r t c fs = Inr (c, fs')" using stuck
    by (simp add: fragment_step_def distance_to_next_boundary_def is_key_disposable_def Let_def key_add_0)
  then obtain fs' where "fragment_step si r t c fs = Inr (c, fs')" ..
  then have "loop si r t c fs' = Some y" using body stuck by simp
  then show False using ih stuck by blast
qed

text \<open>C39: A target below the size of one block is never reached: for an unsharded tenant, partitioning
  a key space that begins with a contiguous range of more than one key does not end.\<close>

theorem partition_small_target_diverges:
  assumes "si_count si < 2" "s < e" "is_contiguous_range (s, e)" "key_add s 1 \<noteq> Inr e" "tgt < BLCKSZ"
  shows "ks_partition si ((s, e) # ks) tgt = None"
proof -
  have "tgt div BLCKSZ = 0" using assms(5) by (simp add: word_unat_eq_iff unat_div word_less_nat_alt)
  moreover have "key_nat s < key_nat e" using assms(2) by (simp add: key_nat_less)
  then have "key_nat s + unat (1 :: u32) < 2 ^ 144" using key_nat_bound [of e] by simp
  then obtain n where "key_add s 1 = Inr n" using key_add_defined [of s 1] by blast
  moreover have "fragment_loop si (s, e) 0 s [] = None"
    using fragment_loop_stuck [of si "(s, e)" 0 s "[]"] assms(1,2)
    by (cases "fragment_loop si (s, e) 0 s []") auto
  ultimately show ?thesis using assms(3,4) by (simp add: ks_partition_def fragment_def)
qed

theorem partition_small_target_diverges_witness:
  "ks_partition si_unsharded [(Key 0 1663 5 16384 0 0, Key 0 1663 5 16384 0 2)] 4096 = None"
  by (rule partition_small_target_diverges)
    (simp_all add: si_unsharded_def less_key_def key_less_def is_contiguous_range_def key_add_Inr key_nat_def
      BLCKSZ_def word_less_nat_alt)

subsection \<open>Partitions\<close>

definition live_size :: "shard_identity \<Rightarrow> keyspace \<Rightarrow> nat" where
  "live_size si ks = sum_list (map (\<lambda>r. live_count si (fst r) (snd r)) ks)"

text \<open>The state of the partitioning after the fragments \<open>fs\<close>.\<close>

definition part_inv :: "shard_identity \<Rightarrow> u32 \<Rightarrow> fragment_list \<Rightarrow> part_acc \<Rightarrow> bool" where
  "part_inv si t fs acc \<longleftrightarrow> (case acc of (parts, part, sz) \<Rightarrow>
     concat parts @ part = map snd fs \<and> unat sz = live_size si part \<and> live_size si part \<le> unat t \<and>
     (\<forall>p \<in> set parts. 0 < live_size si p \<and> live_size si p \<le> unat t))"

lemma partition_frag_inv:
  assumes "part_inv si t fs acc" "unat (fst f) = live_count si (fst (snd f)) (snd (snd f))" "fst f \<le> t"
  shows "part_inv si t (fs @ [f]) (partition_frag t acc f)"
proof -
  obtain parts part sz where acc: "acc = (parts, part, sz)" by (metis prod.exhaust)
  have inv: "concat parts @ part = map snd fs" "unat sz = live_size si part" "live_size si part \<le> unat t"
    "\<forall>p \<in> set parts. 0 < live_size si p \<and> live_size si p \<le> unat t"
    using assms(1) by (simp_all add: part_inv_def acc)
  have uc: "unat (ucast x :: u64) = unat x" for x :: u32
    by (simp add: unsigned_ucast_eq take_bit_nat_eq_self unat_lt_2p [THEN less_le_trans])
  have n: "unat (fst f) \<le> unat t" using assms(3) by (simp add: word_le_nat_alt)
  have sum: "unat (sz + ucast (fst f)) = unat sz + unat (fst f)"
    using inv(2,3) n unat_u32 [of t] by (simp add: unat_word_ariths uc)
  show ?thesis
  proof (cases "sz + ucast (fst f) > ucast t \<and> sz > 0")
    case True
    then have "0 < live_size si part" using inv(2) by (simp add: word_less_nat_alt)
    then show ?thesis using True inv n assms(2)
      by (simp add: part_inv_def partition_frag_def acc live_size_def uc)
  next
    case False
    have "unat sz + unat (fst f) \<le> unat t"
    proof (cases "sz > 0")
      case True
      with False have "\<not> ucast t < sz + ucast (fst f)" by blast
      then show ?thesis using sum by (simp only: word_less_nat_alt uc)
    qed (use n in \<open>simp add: word_less_nat_alt\<close>)
    moreover have "partition_frag t acc f = (parts, part @ [snd f], sz + ucast (fst f))"
      using False by (simp add: partition_frag_def acc)
    ultimately show ?thesis using inv assms(2) sum by (simp add: part_inv_def live_size_def)
  qed
qed

lemma partition_frags_inv:
  assumes "part_inv si t fs acc"
    "\<forall>f \<in> set gs. unat (fst f) = live_count si (fst (snd f)) (snd (snd f)) \<and> fst f \<le> t"
  shows "part_inv si t (fs @ gs) (foldl (partition_frag t) acc gs)"
  using assms
proof (induction gs arbitrary: fs acc)
  case (Cons f gs)
  then have "part_inv si t (fs @ [f]) (partition_frag t acc f)" using partition_frag_inv by simp
  from Cons.IH [OF this] Cons.prems(2) show ?case by simp
qed simp

lemma frag_chain_keyspace:
  assumes "frag_chain s fs e"
  shows "s \<le> e \<and> ks_ok (map snd fs) \<and> ks_keys (map snd fs) = range_keys (s, e) \<and>
    (\<forall>f \<in> set fs. s \<le> fst (snd f) \<and> snd (snd f) \<le> e)"
  using assms
proof (induction s fs e rule: frag_chain.induct)
  case (2 s n a b fs e)
  then have "b \<le> e" "a < b" "a = s" by auto
  with 2 show ?case by (auto simp: ks_ok_simps range_keys_def)
qed (auto simp: ks_ok_simps range_keys_def)

lemma partition_ranges_ok:
  assumes "si_ok si" "0 < t" "\<forall>r \<in> set rs. range_ok r" "part_inv si t fs acc"
  shows "\<exists>acc' gs. partition_ranges si t rs acc = Some (Inr acc') \<and> part_inv si t (fs @ gs) acc' \<and>
    ks_keys (map snd gs) = ks_keys rs \<and> (ks_ok rs \<longrightarrow> ks_ok (map snd gs)) \<and>
    (\<forall>g \<in> set gs. \<exists>r \<in> set rs. fst r \<le> fst (snd g) \<and> snd (snd g) \<le> snd r)"
  using assms(3,4)
proof (induction rs arbitrary: fs acc)
  case Nil
  then show ?case by (intro exI [of _ acc] exI [of _ "[]"]) simp
next
  case (Cons r rs)
  obtain hs where hs: "fragment si r t = Some (Inr hs)" "frag_chain (fst r) hs (snd r)" "frags_exact si t hs"
    using fragment_total [OF assms(1) _ assms(2), of "fst r" "snd r"] Cons.prems(1) by auto
  note chain = frag_chain_keyspace [OF hs(2)]
  have "part_inv si t (fs @ hs) (foldl (partition_frag t) acc hs)"
    using hs(3) by (intro partition_frags_inv Cons.prems) (auto simp: frags_exact_def)
  from Cons.IH [OF _ this] Cons.prems(1) obtain acc' gs where
    ih: "partition_ranges si t rs (foldl (partition_frag t) acc hs) = Some (Inr acc')"
      "part_inv si t ((fs @ hs) @ gs) acc'" "ks_keys (map snd gs) = ks_keys rs"
      "ks_ok rs \<Longrightarrow> ks_ok (map snd gs)"
      "\<forall>g \<in> set gs. \<exists>r \<in> set rs. fst r \<le> fst (snd g) \<and> snd (snd g) \<le> snd r" by auto
  have sep: "snd (snd h) \<le> fst (snd g)" if "ks_ok (r # rs)" "h \<in> set hs" "g \<in> set gs" for h g
    using that chain ih(5) by (fastforce simp: ks_ok_simps intro: order_trans)
  show ?case
  proof (intro exI conjI)
    show "partition_ranges si t (r # rs) acc = Some (Inr acc')" using hs(1) ih(1) by simp
    show "part_inv si t (fs @ hs @ gs) acc'" using ih(2) by simp
    show "ks_keys (map snd (hs @ gs)) = ks_keys (r # rs)" using chain ih(3) by simp
    show "ks_ok (r # rs) \<longrightarrow> ks_ok (map snd (hs @ gs))"
      using sep chain ih(4) by (auto simp: ks_ok_simps)
    show "\<forall>g \<in> set (hs @ gs). \<exists>q \<in> set (r # rs). fst q \<le> fst (snd g) \<and> snd (snd g) \<le> snd q"
      using chain ih(5) by auto
  qed
qed

text \<open>C17: Partitioning a key space of contiguous ranges ends. The parts in their order are again a key
  space with exactly the keys of the given one; every part has at most the target number of blocks
  stored on the shard, and every part but the last has at least one.\<close>

theorem partition_exact:
  assumes "si_ok si" "ks_ok ks" "\<forall>r \<in> set ks. range_ok r" "(ucast (tgt div BLCKSZ) :: u32) \<noteq> 0"
  shows "\<exists>parts. ks_partition si ks tgt = Some (Inr parts) \<and> ks_ok (concat parts) \<and>
    ks_keys (concat parts) = ks_keys ks \<and>
    (\<forall>p \<in> set parts. live_size si p \<le> unat (ucast (tgt div BLCKSZ) :: u32)) \<and>
    (\<forall>p \<in> set (butlast parts). 0 < live_size si p)"
proof -
  define t where "t = (ucast (tgt div BLCKSZ) :: u32)"
  have t: "0 < t" using assms(4) by (simp add: t_def word_gt_0)
  have init: "part_inv si t [] ([], [], 0)" by (simp add: part_inv_def live_size_def)
  obtain acc gs where acc: "partition_ranges si t ks ([], [], 0) = Some (Inr acc)"
    "part_inv si t gs acc" "ks_keys (map snd gs) = ks_keys ks" "ks_ok (map snd gs)"
    using partition_ranges_ok [OF assms(1) t assms(3) init] assms(2) by auto
  obtain parts part sz where a: "acc = (parts, part, sz)" by (metis prod.exhaust)
  define res where "res = (if part \<noteq> [] then parts @ [part] else parts)"
  have inv: "concat parts @ part = map snd gs" "live_size si part \<le> unat t"
    "\<forall>p \<in> set parts. 0 < live_size si p \<and> live_size si p \<le> unat t"
    using acc(2) by (simp_all add: part_inv_def a)
  have "concat res = map snd gs" using inv(1) by (auto simp: res_def)
  moreover have "ks_partition si ks tgt = Some (Inr res)"
    using acc(1) by (simp add: ks_partition_def t_def [symmetric] a res_def)
  moreover have "\<forall>p \<in> set res. live_size si p \<le> unat t" using inv by (simp add: res_def)
  moreover have "\<forall>p \<in> set (butlast res). 0 < live_size si p"
    using inv by (auto simp: res_def dest: in_set_butlastD)
  ultimately show ?thesis using acc(3,4) by (auto simp: t_def [symmetric])
qed

theorem partition_exact_witness:
  "\<exists>parts. ks_partition si_unsharded [(Key 0 1663 5 16384 0 0, Key 0 1663 5 16384 0 100)] 81920
      = Some (Inr parts) \<and>
    ks_keys (concat parts) = ks_keys [(Key 0 1663 5 16384 0 0, Key 0 1663 5 16384 0 100)] \<and>
    (\<forall>p \<in> set parts. live_size si_unsharded p \<le> 10)"
proof -
  have "si_ok si_unsharded" by (simp add: si_ok_def si_unsharded_def si_is_broken_def LAYOUT_BROKEN_def LAYOUT_V1_def)
  moreover have "range_ok (Key 0 1663 5 16384 0 0, Key 0 1663 5 16384 0 100)"
    by (simp add: range_ok_def is_contiguous_range_def less_key_def key_less_def key_nat_def word_less_nat_alt)
  ultimately show ?thesis
    using partition_exact [of si_unsharded "[(Key 0 1663 5 16384 0 0, Key 0 1663 5 16384 0 100)]" 81920]
    by (auto simp: BLCKSZ_def ks_ok_def range_ok_def)
qed

end
