(* ===== verification/Scheduler.thy ===== *)
theory Scheduler
  imports Prelude "HOL-Library.AList" "HOL-Library.Product_Lexorder" "HOL-Library.List_Lexorder"
    "HOL-Library.Char_ord" "HOL-Library.Multiset"
begin

text \<open>
  The scheduler of the storage controller, storage_controller/src/scheduler.rs, with the utilization
  of a pageserver (libs/pageserver_api/src/models/utilization.rs), the nodes (node.rs) and the
  intents of tenant shards (\<open>IntentState\<close> of tenant_shard.rs), whose changes the scheduler counts.
  A hash map is an association list with distinct keys; its order stands for the unspecified order
  of iteration. Counters are 64-bit words that wrap.
\<close>

type_synonym node_id = u64
type_synonym az = string

subsection \<open>Utilization\<close>

record utilization =
  ut_disk_usage_bytes :: u64
  ut_free_space_bytes :: u64
  ut_disk_wanted_bytes :: u64
  ut_disk_usable_pct :: u8
  ut_shard_count :: u32
  ut_max_shard_count :: u32
  ut_utilization_score :: "u64 option"

definition UTILIZATION_FULL :: u64 where "UTILIZATION_FULL = 1000000"

definition checked_div :: "u64 \<Rightarrow> u64 \<Rightarrow> u64 res" where
  "checked_div a b = (if b = 0 then Inl (Panic ''attempt to divide by zero'') else Inr (a div b))"

definition ut_score :: "utilization \<Rightarrow> u64 res" where
  "ut_score u =
     (let cap = ((ut_disk_usage_bytes u + ut_free_space_bytes u) * ucast (ut_disk_usable_pct u)) div 100 in
      rbind (checked_div (ut_disk_wanted_bytes u * UTILIZATION_FULL) cap) (\<lambda>disk.
      rbind (checked_div (ucast (ut_shard_count u) * UTILIZATION_FULL) (ucast (ut_max_shard_count u))) (\<lambda>shard.
      Inr (max disk shard))))"

definition cached_score :: "(utilization, u64) act" where
  "cached_score u = (case ut_utilization_score u of
     Some s \<Rightarrow> (Inr s, u)
   | None \<Rightarrow> (case ut_score u of
       Inl e \<Rightarrow> (Inl e, u)
     | Inr s \<Rightarrow> (Inr s, u\<lparr>ut_utilization_score := Some s\<rparr>)))"

definition ut_is_overloaded :: "u64 \<Rightarrow> bool" where
  "ut_is_overloaded score \<longleftrightarrow> score \<ge> 2 * UTILIZATION_FULL"

definition adjust_shard_count_max :: "u32 \<Rightarrow> utilization \<Rightarrow> utilization" where
  "adjust_shard_count_max n u =
     (if ut_shard_count u < n then u\<lparr>ut_shard_count := n, ut_utilization_score := None\<rparr> else u)"

subsection \<open>Nodes\<close>

datatype node_availability = NodeActive utilization | WarmingUp nat | Offline

datatype node_scheduling_policy = NsActive | NsFilling | NsPause | NsPauseForRestart | NsDraining

datatype may_schedule = MayYes utilization | MayNo

text \<open>The addresses of a node are not used by the scheduler; the flag stands for the cancellation
  token.\<close>

record node =
  nd_id :: node_id
  nd_availability :: node_availability
  nd_scheduling :: node_scheduling_policy
  nd_az :: az
  nd_cancelled :: bool

datatype availability_transition =
  ToActive | ToWarmingUpFromActive | ToWarmingUpFromOffline | ToOffline | Unchanged

fun availability_change :: "node_availability \<Rightarrow> node_availability \<Rightarrow> availability_transition" where
  "availability_change Offline (NodeActive u) = ToActive"
| "availability_change (NodeActive u) Offline = ToOffline"
| "availability_change (NodeActive u) (WarmingUp t) = ToWarmingUpFromActive"
| "availability_change (WarmingUp t) Offline = ToOffline"
| "availability_change (WarmingUp t) (NodeActive u) = ToActive"
| "availability_change Offline (WarmingUp t) = ToWarmingUpFromOffline"
| "availability_change _ _ = Unchanged"

definition get_availability_transition :: "node \<Rightarrow> node_availability \<Rightarrow> availability_transition" where
  "get_availability_transition self a = availability_change (nd_availability self) a"

definition set_availability :: "node_availability \<Rightarrow> node \<Rightarrow> node" where
  "set_availability a self =
     (let self = (case get_availability_transition self a of
         ToActive \<Rightarrow> self\<lparr>nd_cancelled := False\<rparr>
       | ToOffline \<Rightarrow> self\<lparr>nd_cancelled := True\<rparr>
       | ToWarmingUpFromActive \<Rightarrow> self\<lparr>nd_cancelled := True\<rparr>
       | _ \<Rightarrow> self) in
      case (nd_availability self, a) of
        (WarmingUp crnt, WarmingUp proposed) \<Rightarrow> self\<lparr>nd_availability := WarmingUp (max crnt proposed)\<rparr>
      | _ \<Rightarrow> self\<lparr>nd_availability := a\<rparr>)"

definition nd_is_available :: "node \<Rightarrow> bool" where
  "nd_is_available self \<longleftrightarrow>
     (case nd_availability self of NodeActive _ \<Rightarrow> True | _ \<Rightarrow> False) \<and> \<not> nd_cancelled self"

definition nd_may_schedule :: "node \<Rightarrow> may_schedule" where
  "nd_may_schedule self = (case nd_availability self of
     NodeActive u \<Rightarrow> (case nd_scheduling self of
         NsActive \<Rightarrow> MayYes u
       | NsDraining \<Rightarrow> MayNo
       | NsFilling \<Rightarrow> MayYes u
       | NsPause \<Rightarrow> MayNo
       | NsPauseForRestart \<Rightarrow> MayNo)
   | _ \<Rightarrow> MayNo)"

subsection \<open>Scores\<close>

record scheduler_node =
  scn_shard_count :: u64
  scn_attached_shard_count :: u64
  scn_home_shard_count :: u64
  scn_az :: az
  scn_may_schedule :: may_schedule

type_synonym scheduler = "(node_id \<times> scheduler_node) list"

datatype schedule_error = NoPageservers | ImpossibleConstraint

datatype az_match = AzYes | AzNo | AzUnknown

definition az_match_new :: "az \<Rightarrow> az option \<Rightarrow> az_match" where
  "az_match_new node_az preferred = (case preferred of
     Some p \<Rightarrow> if p = node_az then AzYes else AzNo | None \<Rightarrow> AzUnknown)"

datatype shard_tag = AttachedShardTag | SecondaryShardTag

definition attachment_az_score :: "az_match \<Rightarrow> nat" where
  "attachment_az_score m = (case m of AzYes \<Rightarrow> 0 | AzUnknown \<Rightarrow> 1 | AzNo \<Rightarrow> 2)"

definition secondary_az_score :: "az_match \<Rightarrow> nat" where
  "secondary_az_score m = (case m of AzNo \<Rightarrow> 0 | AzUnknown \<Rightarrow> 1 | AzYes \<Rightarrow> 2)"

text \<open>Both kinds of scores: the fields in the order of comparison.\<close>

record node_score =
  ns_az_match :: nat
  ns_affinity_score :: u64
  ns_utilization_score :: u64
  ns_total_count :: u64
  ns_node_id :: node_id

definition score_key :: "node_score \<Rightarrow> nat \<times> u64 \<times> u64 \<times> u64 \<times> u64" where
  "score_key s = (ns_az_match s, ns_affinity_score s, ns_utilization_score s, ns_total_count s,
     ns_node_id s)"

definition for_optimization :: "node_score \<Rightarrow> node_score" where
  "for_optimization s = s\<lparr>ns_utilization_score := 0, ns_total_count := 0, ns_node_id := 0\<rparr>"

definition ns_is_overloaded :: "node_score \<Rightarrow> bool" where
  "ns_is_overloaded s = ut_is_overloaded (ns_utilization_score s)"

datatype schedule_mode = ModeNormal | ModeSpeculative

record schedule_context =
  ctx_nodes :: "node_id \<rightharpoonup> u64"
  ctx_mode :: schedule_mode

definition ctx_new :: "schedule_mode \<Rightarrow> schedule_context" where
  "ctx_new m = \<lparr>ctx_nodes = Map.empty, ctx_mode = m\<rparr>"

definition AFFINITY_FREE :: u64 where "AFFINITY_FREE = 0"

definition ctx_affinity :: "schedule_context \<Rightarrow> node_id \<Rightarrow> u64" where
  "ctx_affinity c n = (case ctx_nodes c n of Some a \<Rightarrow> a | None \<Rightarrow> AFFINITY_FREE)"

definition ctx_avoid :: "node_id list \<Rightarrow> schedule_context \<Rightarrow> schedule_context" where
  "ctx_avoid ns c = foldl (\<lambda>c n. c\<lparr>ctx_nodes := (ctx_nodes c)(n \<mapsto> ctx_affinity c n + 1)\<rparr>) c ns"

definition generate_attached ::
  "node_id \<Rightarrow> az option \<Rightarrow> schedule_context \<Rightarrow> (scheduler_node, node_score option) act" where
  "generate_attached n preferred_az context nd = (case scn_may_schedule nd of
     MayNo \<Rightarrow> (Inr None, nd)
   | MayYes u \<Rightarrow> (case cached_score u of
       (Inl e, u) \<Rightarrow> (Inl e, nd\<lparr>scn_may_schedule := MayYes u\<rparr>)
     | (Inr s, u) \<Rightarrow> (Inr (Some \<lparr>
           ns_az_match = attachment_az_score (az_match_new (scn_az nd) preferred_az),
           ns_affinity_score = ctx_affinity context n, ns_utilization_score = s,
           ns_total_count = scn_attached_shard_count nd, ns_node_id = n\<rparr>),
         nd\<lparr>scn_may_schedule := MayYes u\<rparr>)))"

definition generate_secondary ::
  "node_id \<Rightarrow> az option \<Rightarrow> schedule_context \<Rightarrow> (scheduler_node, node_score option) act" where
  "generate_secondary n preferred_az context nd = (case scn_may_schedule nd of
     MayNo \<Rightarrow> (Inr None, nd)
   | MayYes u \<Rightarrow> (case cached_score u of
       (Inl e, u) \<Rightarrow> (Inl e, nd\<lparr>scn_may_schedule := MayYes u\<rparr>)
     | (Inr s, u) \<Rightarrow> (Inr (Some \<lparr>
           ns_az_match = secondary_az_score (az_match_new (scn_az nd) preferred_az),
           ns_affinity_score = ctx_affinity context n, ns_utilization_score = s,
           ns_total_count = scn_shard_count nd - scn_home_shard_count nd, ns_node_id = n\<rparr>),
         nd\<lparr>scn_may_schedule := MayYes u\<rparr>)))"

definition generate ::
  "shard_tag \<Rightarrow> node_id \<Rightarrow> az option \<Rightarrow> schedule_context \<Rightarrow> (scheduler_node, node_score option) act" where
  "generate tag = (case tag of AttachedShardTag \<Rightarrow> generate_attached | SecondaryShardTag \<Rightarrow> generate_secondary)"

subsection \<open>The scheduler\<close>

definition new_scheduler_node :: "node \<Rightarrow> scheduler_node" where
  "new_scheduler_node nd = \<lparr>scn_shard_count = 0, scn_attached_shard_count = 0, scn_home_shard_count = 0,
     scn_az = nd_az nd, scn_may_schedule = nd_may_schedule nd\<rparr>"

definition scheduler_new :: "node list \<Rightarrow> scheduler" where
  "scheduler_new nodes = foldl (\<lambda>s nd. AList.update (nd_id nd) (new_scheduler_node nd) s) [] nodes"

datatype ref_count_update = PromoteSecondary | Attach | Detach | DemoteAttached | AddSecondary
  | RemoveSecondary | ChangePreferredAzFrom "az option"

definition ref_counts :: "az option \<Rightarrow> ref_count_update \<Rightarrow> scheduler_node \<Rightarrow> scheduler_node" where
  "ref_counts preferred_az upd nd =
     (let home = (if Some (scn_az nd) = preferred_az then 1 else 0) in
      case upd of
        PromoteSecondary \<Rightarrow> nd\<lparr>scn_attached_shard_count := scn_attached_shard_count nd + 1\<rparr>
      | Attach \<Rightarrow> nd\<lparr>scn_shard_count := scn_shard_count nd + 1,
          scn_attached_shard_count := scn_attached_shard_count nd + 1,
          scn_home_shard_count := scn_home_shard_count nd + home\<rparr>
      | Detach \<Rightarrow> nd\<lparr>scn_shard_count := scn_shard_count nd - 1,
          scn_attached_shard_count := scn_attached_shard_count nd - 1,
          scn_home_shard_count := scn_home_shard_count nd - home\<rparr>
      | DemoteAttached \<Rightarrow> nd\<lparr>scn_attached_shard_count := scn_attached_shard_count nd - 1\<rparr>
      | AddSecondary \<Rightarrow> nd\<lparr>scn_shard_count := scn_shard_count nd + 1,
          scn_home_shard_count := scn_home_shard_count nd + home\<rparr>
      | RemoveSecondary \<Rightarrow> nd\<lparr>scn_shard_count := scn_shard_count nd - 1,
          scn_home_shard_count := scn_home_shard_count nd - home\<rparr>
      | ChangePreferredAzFrom old_az \<Rightarrow> nd\<lparr>scn_home_shard_count := scn_home_shard_count nd
          - (if Some (scn_az nd) = old_az then 1 else 0) + home\<rparr>)"

definition bump_utilization :: "ref_count_update \<Rightarrow> scheduler_node \<Rightarrow> scheduler_node" where
  "bump_utilization upd nd = (case (upd, scn_may_schedule nd) of
     (AddSecondary, MayYes u) \<Rightarrow>
       nd\<lparr>scn_may_schedule := MayYes (adjust_shard_count_max (ucast (scn_shard_count nd)) u)\<rparr>
   | (Attach, MayYes u) \<Rightarrow>
       nd\<lparr>scn_may_schedule := MayYes (adjust_shard_count_max (ucast (scn_shard_count nd)) u)\<rparr>
   | _ \<Rightarrow> nd)"

definition update_node_ref_counts ::
  "node_id \<Rightarrow> az option \<Rightarrow> ref_count_update \<Rightarrow> scheduler \<Rightarrow> scheduler" where
  "update_node_ref_counts n preferred_az upd s = (case map_of s n of
     None \<Rightarrow> s
   | Some nd \<Rightarrow> AList.update n (bump_utilization upd (ref_counts preferred_az upd nd)) s)"

definition expected_attached_shard_count :: "scheduler \<Rightarrow> u64 res" where
  "expected_attached_shard_count s =
     (if s = [] then Inl (Panic ''assertion failed: !self.nodes.is_empty()'')
      else Inr (sum_list (map (scn_attached_shard_count \<circ> snd) s) div of_nat (length s)))"

definition compute_fill_requirement :: "node_id \<Rightarrow> scheduler \<Rightarrow> u64 res" where
  "compute_fill_requirement n s = (case map_of s n of
     None \<Rightarrow> Inr 0
   | Some nd \<Rightarrow> rbind (expected_attached_shard_count s) (\<lambda>expected.
       Inr (if scn_attached_shard_count nd < expected then expected - scn_attached_shard_count nd else 0)))"

definition node_upsert :: "node \<Rightarrow> scheduler \<Rightarrow> scheduler" where
  "node_upsert nd s = (case map_of s (nd_id nd) of
     Some sn \<Rightarrow> AList.update (nd_id nd) (sn\<lparr>scn_may_schedule := (case nd_may_schedule nd of
         MayYes u \<Rightarrow> MayYes (adjust_shard_count_max (ucast (scn_shard_count sn)) u)
       | MayNo \<Rightarrow> MayNo)\<rparr>) s
   | None \<Rightarrow> AList.update (nd_id nd) (new_scheduler_node nd) s)"

definition node_remove :: "node_id \<Rightarrow> scheduler \<Rightarrow> scheduler" where
  "node_remove n s = AList.delete n s"

definition compute_node_score ::
  "shard_tag \<Rightarrow> node_id \<Rightarrow> az option \<Rightarrow> schedule_context \<Rightarrow> (scheduler, node_score option) act" where
  "compute_node_score tag n preferred_az context s = (case map_of s n of
     None \<Rightarrow> (Inr None, s)
   | Some nd \<Rightarrow> (case generate tag n preferred_az context nd of (r, nd) \<Rightarrow> (r, AList.update n nd s)))"

fun compute_node_scores ::
  "shard_tag \<Rightarrow> node_id list \<Rightarrow> az option \<Rightarrow> schedule_context \<Rightarrow> (scheduler, node_score list) act" where
  "compute_node_scores tag hard_exclude preferred_az context [] = (Inr [], [])"
| "compute_node_scores tag hard_exclude preferred_az context ((n, nd) # s) =
     (if n \<in> set hard_exclude then
        (case compute_node_scores tag hard_exclude preferred_az context s of
           (r, s) \<Rightarrow> (r, (n, nd) # s))
      else case generate tag n preferred_az context nd of
        (Inl e, nd) \<Rightarrow> (Inl e, (n, nd) # s)
      | (Inr sc, nd) \<Rightarrow> (case compute_node_scores tag hard_exclude preferred_az context s of
          (Inl e, s) \<Rightarrow> (Inl e, (n, nd) # s)
        | (Inr scs, s) \<Rightarrow> (Inr (case sc of Some x \<Rightarrow> x # scs | None \<Rightarrow> scs), (n, nd) # s)))"

definition schedule_shard ::
  "shard_tag \<Rightarrow> node_id list \<Rightarrow> az option \<Rightarrow> schedule_context \<Rightarrow> (scheduler, schedule_error + node_id) act" where
  "schedule_shard tag hard_exclude preferred_az context s =
     (if s = [] then (Inr (Inl NoPageservers), s)
      else abind (compute_node_scores tag hard_exclude preferred_az context) (\<lambda>scores.
        let non_overloaded = filter (\<lambda>i. \<not> ns_is_overloaded i) scores;
            scores = sort_key score_key (if non_overloaded \<noteq> [] then non_overloaded else scores) in
        areturn (if scores = [] then Inl ImpossibleConstraint else Inr (ns_node_id (hd scores)))) s)"

definition any_available_node :: "(scheduler, schedule_error + node_id) act" where
  "any_available_node = schedule_shard AttachedShardTag [] None (ctx_new ModeNormal)"

definition may_yes :: "may_schedule \<Rightarrow> bool" where
  "may_yes m \<longleftrightarrow> (case m of MayYes _ \<Rightarrow> True | MayNo \<Rightarrow> False)"

definition get_az_for_new_tenant :: "scheduler \<Rightarrow> az option" where
  "get_az_for_new_tenant s =
     (if s = [] then None
      else let azs = map (\<lambda>a. let ns = filter (\<lambda>nd. scn_az nd = a) (map snd s) in
               ((sum_list (map scn_home_shard_count ns), a), list_ex (may_yes \<circ> scn_may_schedule) ns))
             (remdups (map (scn_az \<circ> snd) s));
           azs = (if list_ex snd azs then filter snd azs else azs) in
        Some (snd (Min (set (map fst azs)))))"

definition get_node_az :: "scheduler \<Rightarrow> node_id \<Rightarrow> az option" where
  "get_node_az s n = map_option scn_az (map_of s n)"

fun filter_usable_nodes :: "scheduler \<Rightarrow> node_id list \<Rightarrow> (node_id \<times> az option) list res" where
  "filter_usable_nodes s [] = Inr []"
| "filter_usable_nodes s (n # ns) = (case map_of s n of
     None \<Rightarrow> Inl (Panic ''Referenced nodes always exist'')
   | Some nd \<Rightarrow> rbind (filter_usable_nodes s ns) (\<lambda>us.
       Inr (if may_yes (scn_may_schedule nd) then (n, Some (scn_az nd)) # us else us)))"

subsection \<open>Intents\<close>

record intent_state =
  in_attached :: "node_id option"
  in_secondary :: "node_id list"
  in_preferred_az_id :: "az option"

type_synonym 'a iact = "(intent_state \<times> scheduler, 'a) act"

definition intent_new :: "az option \<Rightarrow> intent_state" where
  "intent_new a = \<lparr>in_attached = None, in_secondary = [], in_preferred_az_id = a\<rparr>"

definition intent_single :: "node_id option \<Rightarrow> az option \<Rightarrow> scheduler \<Rightarrow> intent_state \<times> scheduler" where
  "intent_single n a s =
     (\<lparr>in_attached = n, in_secondary = [], in_preferred_az_id = a\<rparr>,
      case n of Some n \<Rightarrow> update_node_ref_counts n a Attach s | None \<Rightarrow> s)"

definition set_attached :: "node_id option \<Rightarrow> unit iact" where
  "set_attached new_attached = (\<lambda>(self, s).
     let paz = in_preferred_az_id self;
         (self, s) = (if in_attached self \<noteq> new_attached then
           let s = (case in_attached self of Some old \<Rightarrow> update_node_ref_counts old paz Detach s | None \<Rightarrow> s);
               s = (case new_attached of Some n \<Rightarrow> update_node_ref_counts n paz Attach s | None \<Rightarrow> s) in
           (self\<lparr>in_attached := new_attached\<rparr>, s)
         else (self, s)) in
     (case new_attached of
        Some n \<Rightarrow> rassert (n \<notin> set (in_secondary self)) ''assertion failed: !self.secondary.contains(new_attached)''
      | None \<Rightarrow> Inr (), (self, s)))"

definition promote_attached :: "node_id \<Rightarrow> unit iact" where
  "promote_attached n = (\<lambda>(self, s).
     let paz = in_preferred_az_id self; demoted = in_attached self;
         self = self\<lparr>in_secondary := filter (\<lambda>m. m \<noteq> n) (in_secondary self), in_attached := Some n\<rparr>;
         s = update_node_ref_counts n paz PromoteSecondary s;
         s = (case demoted of Some d \<Rightarrow> update_node_ref_counts d paz DemoteAttached s | None \<Rightarrow> s) in
     (Inr (), (self, s)))"

definition push_secondary :: "node_id \<Rightarrow> unit iact" where
  "push_secondary n = (\<lambda>(self, s).
     if n \<in> set (in_secondary self) then
       (Inl (Panic ''assertion failed: !self.secondary.contains(&new_secondary)''), (self, s))
     else if in_attached self = Some n then
       (Inl (Panic ''assertion failed: self.attached != Some(new_secondary)''), (self, s))
     else (Inr (), (self\<lparr>in_secondary := in_secondary self @ [n]\<rparr>,
       update_node_ref_counts n (in_preferred_az_id self) AddSecondary s)))"

definition remove_secondary :: "node_id \<Rightarrow> unit iact" where
  "remove_secondary n = (\<lambda>(self, s).
     if n \<in> set (in_secondary self) then
       (Inr (), (self\<lparr>in_secondary := remove1 n (in_secondary self)\<rparr>,
         update_node_ref_counts n (in_preferred_az_id self) RemoveSecondary s))
     else (Inr (), (self, s)))"

definition clear_secondary :: "unit iact" where
  "clear_secondary = (\<lambda>(self, s). (Inr (), (self\<lparr>in_secondary := []\<rparr>,
     foldl (\<lambda>s n. update_node_ref_counts n (in_preferred_az_id self) RemoveSecondary s) s (in_secondary self))))"

definition pop_secondary :: "unit iact" where
  "pop_secondary = (\<lambda>(self, s). (Inr (),
     if in_secondary self = [] then (self, s)
     else (self\<lparr>in_secondary := butlast (in_secondary self)\<rparr>,
       update_node_ref_counts (last (in_secondary self)) (in_preferred_az_id self) RemoveSecondary s)))"

definition intent_clear :: "unit iact" where
  "intent_clear = (\<lambda>(self, s).
     clear_secondary (self\<lparr>in_attached := None\<rparr>,
       case in_attached self of
         Some old \<Rightarrow> update_node_ref_counts old (in_preferred_az_id self) Detach s | None \<Rightarrow> s))"

definition all_pageservers :: "intent_state \<Rightarrow> node_id list" where
  "all_pageservers self = (case in_attached self of Some p \<Rightarrow> [p] | None \<Rightarrow> []) @ in_secondary self"

definition demote_attached :: "node_id \<Rightarrow> bool iact" where
  "demote_attached n = (\<lambda>(self, s).
     if in_attached self = Some n then
       (Inr True, (self\<lparr>in_attached := None, in_secondary := in_secondary self @ [n]\<rparr>,
         update_node_ref_counts n (in_preferred_az_id self) DemoteAttached s))
     else (Inr False, (self, s)))"

definition set_preferred_az :: "az option \<Rightarrow> unit iact" where
  "set_preferred_az new_az = (\<lambda>(self, s).
     let old_az = in_preferred_az_id self in
     if old_az \<noteq> new_az then
       (Inr (), (self\<lparr>in_preferred_az_id := new_az\<rparr>,
         foldl (\<lambda>s n. update_node_ref_counts n new_az (ChangePreferredAzFrom old_az) s) s
           (all_pageservers self)))
     else (Inr (), (self, s)))"

subsection \<open>The consistency check\<close>

definition scheduler_node_eq :: "scheduler_node \<Rightarrow> scheduler_node \<Rightarrow> bool" where
  "scheduler_node_eq self other \<longleftrightarrow>
     may_yes (scn_may_schedule self) = may_yes (scn_may_schedule other)
     \<and> scn_shard_count self = scn_shard_count other
     \<and> scn_attached_shard_count self = scn_attached_shard_count other
     \<and> scn_az self = scn_az other"

definition expect_location :: "u64 \<Rightarrow> az option \<Rightarrow> node_id \<Rightarrow> scheduler \<Rightarrow> scheduler res" where
  "expect_location attached preferred_az n e = (case map_of e n of
     None \<Rightarrow> Inl (Bail ''Tenant references nonexistent node'')
   | Some nd \<Rightarrow> Inr (AList.update n (nd\<lparr>scn_shard_count := scn_shard_count nd + 1,
       scn_attached_shard_count := scn_attached_shard_count nd + attached,
       scn_home_shard_count := scn_home_shard_count nd
         + (if Some (scn_az nd) = preferred_az then 1 else 0)\<rparr>) e))"

fun expect_secondaries :: "az option \<Rightarrow> node_id list \<Rightarrow> scheduler \<Rightarrow> scheduler res" where
  "expect_secondaries a [] e = Inr e"
| "expect_secondaries a (n # ns) e = rbind (expect_location 0 a n e) (expect_secondaries a ns)"

fun expect_shards :: "intent_state list \<Rightarrow> scheduler \<Rightarrow> scheduler res" where
  "expect_shards [] e = Inr e"
| "expect_shards (i # is) e =
     rbind (case in_attached i of
         Some n \<Rightarrow> expect_location 1 (in_preferred_az_id i) n e | None \<Rightarrow> Inr e) (\<lambda>e.
     rbind (expect_secondaries (in_preferred_az_id i) (in_secondary i) e) (expect_shards is))"

fun check_expected :: "scheduler \<Rightarrow> scheduler \<Rightarrow> unit res" where
  "check_expected s [] = Inr ()"
| "check_expected s ((n, e) # es) = (case map_of s n of
     None \<Rightarrow> Inl (Bail ''Node not found in Self'')
   | Some nd \<Rightarrow> if scheduler_node_eq nd e then check_expected s es else Inl (Bail ''Inconsistent state''))"

definition consistency_check :: "node list \<Rightarrow> intent_state list \<Rightarrow> scheduler \<Rightarrow> unit res" where
  "consistency_check nodes shards s =
     rbind (expect_shards shards (scheduler_new nodes)) (\<lambda>e.
     rbind (check_expected s e) (\<lambda>_.
       if length e \<noteq> length s \<and> list_ex (\<lambda>n. map_of e n = None) (map fst s)
       then Inl (Bail ''Node found in Self but not in expected nodes'') else Inr ()))"

subsection \<open>Counting references\<close>

text \<open>What the scheduler remembers of a node, without its utilization: the counts and the zone.\<close>

type_synonym tally = "u64 \<times> u64 \<times> u64 \<times> az"

definition tally :: "scheduler_node \<Rightarrow> tally" where
  "tally nd = (scn_shard_count nd, scn_attached_shard_count nd, scn_home_shard_count nd, scn_az nd)"

definition tallies :: "scheduler \<Rightarrow> node_id \<Rightarrow> tally option" where
  "tallies s n = map_option tally (map_of s n)"

fun tally_update :: "az option \<Rightarrow> ref_count_update \<Rightarrow> tally \<Rightarrow> tally" where
  "tally_update p PromoteSecondary (c, t, h, a) = (c, t + 1, h, a)"
| "tally_update p DemoteAttached (c, t, h, a) = (c, t - 1, h, a)"
| "tally_update p Attach (c, t, h, a) = (c + 1, t + 1, h + of_bool (Some a = p), a)"
| "tally_update p Detach (c, t, h, a) = (c - 1, t - 1, h - of_bool (Some a = p), a)"
| "tally_update p AddSecondary (c, t, h, a) = (c + 1, t, h + of_bool (Some a = p), a)"
| "tally_update p RemoveSecondary (c, t, h, a) = (c - 1, t, h - of_bool (Some a = p), a)"
| "tally_update p (ChangePreferredAzFrom q) (c, t, h, a) =
     (c, t, h - of_bool (Some a = q) + of_bool (Some a = p), a)"

text \<open>The references of a list of intents to a node.\<close>

definition refs_to :: "intent_state \<Rightarrow> node_id \<Rightarrow> u64" where
  "refs_to i n = of_nat (count_list (all_pageservers i) n)"

definition shard_refs :: "intent_state list \<Rightarrow> node_id \<Rightarrow> u64" where
  "shard_refs is n = (\<Sum>i\<leftarrow>is. refs_to i n)"

definition attached_refs :: "intent_state list \<Rightarrow> node_id \<Rightarrow> u64" where
  "attached_refs is n = (\<Sum>i\<leftarrow>is. of_bool (in_attached i = Some n))"

definition home_refs :: "intent_state list \<Rightarrow> node_id \<Rightarrow> az \<Rightarrow> u64" where
  "home_refs is n a = (\<Sum>i\<leftarrow>is. of_bool (Some a = in_preferred_az_id i) * refs_to i n)"

lemma map_of_AList_update: "map_of (AList.update k v s) n = (if n = k then Some v else map_of s n)"
  by (simp add: update_conv')

lemma tally_ref_counts: "tally (bump_utilization u (ref_counts p u nd)) = tally_update p u (tally nd)"
  by (cases u; cases "scn_may_schedule nd")
    (auto simp: tally_def ref_counts_def bump_utilization_def Let_def)

lemma tallies_update_node_ref_counts:
  "tallies (update_node_ref_counts n p u s) =
     (tallies s)(n := map_option (tally_update p u) (tallies s n))"
  by (rule ext) (auto simp: tallies_def update_node_ref_counts_def map_of_AList_update tally_ref_counts
      split: option.split)

lemma keys_AList_update:
  "map_of s n \<noteq> None \<Longrightarrow> map fst (AList.update n v s) = map fst s"
  by (auto simp: update_keys dest: map_of_SomeD intro: rev_image_eqI)

lemma map_fst_update_node_ref_counts [simp]:
  "map fst (update_node_ref_counts n p u s) = map fst s"
  by (auto simp: update_node_ref_counts_def keys_AList_update split: option.split)

text \<open>The part of a node that no change of an intent touches.\<close>

definition static :: "scheduler \<Rightarrow> node_id \<Rightarrow> (az \<times> bool) option" where
  "static s n = map_option (\<lambda>nd. (scn_az nd, may_yes (scn_may_schedule nd))) (map_of s n)"

lemma static_update_node_ref_counts [simp]: "static (update_node_ref_counts n p u s) = static s"
proof (rule ext)
  have "(scn_az (bump_utilization u (ref_counts p u nd)),
      may_yes (scn_may_schedule (bump_utilization u (ref_counts p u nd))))
    = (scn_az nd, may_yes (scn_may_schedule nd))" for nd
    by (cases u; cases "scn_may_schedule nd")
      (simp_all add: ref_counts_def bump_utilization_def may_yes_def Let_def)
  then show "static (update_node_ref_counts n p u s) m = static s m" for m
    by (auto simp: static_def update_node_ref_counts_def map_of_AList_update split: option.split)
qed

definition known :: "scheduler \<Rightarrow> node_id set" where
  "known s = fst ` set s"

lemma known_cong: "map fst s' = map fst s \<Longrightarrow> known s' = known s"
  unfolding known_def by (metis list.set_map)

definition intent_wf :: "intent_state \<Rightarrow> bool" where
  "intent_wf i \<longleftrightarrow> distinct (all_pageservers i)"

text \<open>The abstract scheduler: its counts are those of the intents, and the intents refer to nodes it
  knows.\<close>

definition refs_ok :: "scheduler \<Rightarrow> intent_state list \<Rightarrow> bool" where
  "refs_ok s is \<longleftrightarrow>
     (\<forall>n c t h a. tallies s n = Some (c, t, h, a) \<longrightarrow>
        c = shard_refs is n \<and> t = attached_refs is n \<and> h = home_refs is n a)
     \<and> (\<forall>i\<in>set is. intent_wf i \<and> set (all_pageservers i) \<subseteq> known s)"

lemma refs_Cons:
  "shard_refs (i # is) n = refs_to i n + shard_refs is n"
  "attached_refs (i # is) n = of_bool (in_attached i = Some n) + attached_refs is n"
  "home_refs (i # is) n a = of_bool (Some a = in_preferred_az_id i) * refs_to i n + home_refs is n a"
  by (simp_all add: shard_refs_def attached_refs_def home_refs_def)

lemma refs_perm:
  assumes "mset is = mset js"
  shows "shard_refs is n = shard_refs js n" "attached_refs is n = attached_refs js n"
    "home_refs is n a = home_refs js n a"
  unfolding shard_refs_def attached_refs_def home_refs_def sum_mset_sum_list [symmetric] mset_map assms
  by (rule refl)+

lemma refs_ok_perm:
  assumes "mset is = mset js"
  shows "refs_ok s is = refs_ok s js"
  unfolding refs_ok_def refs_perm [OF assms] mset_eq_setD [OF assms] by (rule refl)

lemma refs_ok_nth:
  assumes "k < length is"
  shows "refs_ok s (is[k := i]) = refs_ok s (i # take k is @ drop (Suc k) is)"
  by (rule refs_ok_perm) (simp add: upd_conv_take_nth_drop assms)

lemma tallies_None: "tallies s n = None \<longleftrightarrow> n \<notin> known s"
  by (simp add: tallies_def map_of_eq_None_iff known_def)

lemma refs_ok_change:
  assumes "refs_ok s (i # is)" and "map fst s' = map fst s"
    and "\<And>n c t h a. tallies s n = Some (c, t, h, a) \<Longrightarrow> tallies s' n = Some
      (c + refs_to i' n - refs_to i n,
       t + of_bool (in_attached i' = Some n) - of_bool (in_attached i = Some n),
       h + of_bool (Some a = in_preferred_az_id i') * refs_to i' n
         - of_bool (Some a = in_preferred_az_id i) * refs_to i n, a)"
    and "intent_wf i'" and "set (all_pageservers i') \<subseteq> known s"
  shows "refs_ok s' (i' # is)"
proof -
  have keys: "known s' = known s"
    by (rule known_cong) (rule assms(2))
  have "c = shard_refs (i' # is) n \<and> t = attached_refs (i' # is) n \<and> h = home_refs (i' # is) n a"
    if "tallies s' n = Some (c, t, h, a)" for n c t h a
  proof -
    have "tallies s n \<noteq> None"
      unfolding tallies_None keys [symmetric] using tallies_None [of s' n] that by simp
    then obtain c0 t0 h0 a0 where old: "tallies s n = Some (c0, t0, h0, a0)"
      by auto
    have "c0 = shard_refs (i # is) n \<and> t0 = attached_refs (i # is) n \<and> h0 = home_refs (i # is) n a0"
      using assms(1) old unfolding refs_ok_def by blast
    then show ?thesis
      using assms(3) [OF old] that unfolding refs_Cons by auto
  qed
  then show ?thesis
    using assms unfolding refs_ok_def keys by simp
qed

text \<open>One intent and the scheduler change together: the counts stay those of the intents, whatever the
  other intents are.\<close>

definition counted :: "intent_state \<times> scheduler \<Rightarrow> intent_state \<times> scheduler \<Rightarrow> bool" where
  "counted = (\<lambda>(i, s) (i', s'). (\<forall>is. refs_ok s (i # is) \<longrightarrow> refs_ok s' (i' # is))
     \<and> map fst s' = map fst s \<and> static s' = static s)"

lemma counted_refl [simp, intro]: "counted st st"
  by (simp add: counted_def split: prod.split)

lemma counted_trans [trans]: "counted st st' \<Longrightarrow> counted st' st'' \<Longrightarrow> counted st st''"
  by (simp add: counted_def split: prod.splits)

text \<open>The contract of an operation on an intent: it keeps the counts, wherever the intent stands among
  those of all shards.\<close>

locale ref_counted =
  fixes pre :: "intent_state \<Rightarrow> scheduler \<Rightarrow> bool" and f :: "'a iact"
  assumes counts: "refs_ok s (i # is) \<Longrightarrow> pre i s \<Longrightarrow> f (i, s) = (Inr r, (i', s')) \<Longrightarrow>
      refs_ok s' (i' # is)"
    and frame: "f (i, s) = (res, (i', s')) \<Longrightarrow> map fst s' = map fst s \<and> static s' = static s"
begin

lemma step: "pre i s \<Longrightarrow> f (i, s) = (Inr r, st) \<Longrightarrow> counted (i, s) st"
  using counts frame by (cases st) (force simp: counted_def)

lemma at_index:
  assumes "refs_ok s is" and "k < length is" and "pre (is ! k) s" and "f (is ! k, s) = (Inr r, (i', s'))"
  shows "refs_ok s' (is[k := i'])"
proof -
  have "refs_ok s (is ! k # take k is @ drop (Suc k) is)"
    using assms(1) refs_ok_nth [OF assms(2), of s "is ! k"] by simp
  from counts [OF this assms(3, 4)] show ?thesis
    unfolding refs_ok_nth [OF assms(2)] .
qed

end

lemma refs_to_sum:
  "refs_to i n = of_bool (in_attached i = Some n) + of_nat (count_list (in_secondary i) n)"
  by (auto simp: refs_to_def all_pageservers_def split: option.split)

lemma intent_wf_iff:
  "intent_wf i \<longleftrightarrow> distinct (in_secondary i) \<and> (\<forall>n. in_attached i = Some n \<longrightarrow> n \<notin> set (in_secondary i))"
  by (auto simp: intent_wf_def all_pageservers_def split: option.split)

lemma all_pageservers_subset:
  "set (all_pageservers i) \<subseteq> K \<longleftrightarrow>
     set (in_secondary i) \<subseteq> K \<and> (\<forall>n. in_attached i = Some n \<longrightarrow> n \<in> K)"
  by (auto simp: all_pageservers_def split: option.split)

lemmas tally_rules = refs_to_sum tallies_update_node_ref_counts

lemma refs_ok_head:
  assumes "refs_ok s (i # is)"
  shows "distinct (in_secondary i)" "in_attached i = Some n \<Longrightarrow> n \<notin> set (in_secondary i)"
    "set (in_secondary i) \<subseteq> known s" "in_attached i = Some n \<Longrightarrow> n \<in> known s"
  using assms by (simp_all add: refs_ok_def intent_wf_iff all_pageservers_subset)

interpretation push: ref_counted "\<lambda>_ s. n \<in> known s" "push_secondary n" for n
proof
  show "refs_ok s' (i' # is)"
    if "refs_ok s (i # is)" "n \<in> known s" "push_secondary n (i, s) = (Inr r, (i', s'))"
    for s i "is" r i' s'
  proof -
    have n: "n \<notin> set (in_secondary i)" "in_attached i \<noteq> Some n"
      and i': "i' = i\<lparr>in_secondary := in_secondary i @ [n]\<rparr>"
      and s': "s' = update_node_ref_counts n (in_preferred_az_id i) AddSecondary s"
      using that(3) by (auto simp: push_secondary_def split: if_splits)
    show ?thesis
    proof (rule refs_ok_change [OF that(1)])
      show "intent_wf i'" "set (all_pageservers i') \<subseteq> known s"
        using refs_ok_head [OF that(1)] n that(2) by (auto simp: i' intent_wf_iff all_pageservers_subset)
    qed (auto simp: i' s' tally_rules)
  qed
  show "map fst s' = map fst s \<and> static s' = static s" if "push_secondary n (i, s) = (r, (i', s'))" for i s r i' s'
    using that by (auto simp: push_secondary_def split: if_splits)
qed

lemma count_list_distinct: "distinct xs \<Longrightarrow> count_list xs n = of_bool (n \<in> set xs)"
  by (induction xs) auto

interpretation remove: ref_counted "\<lambda>_ _. True" "remove_secondary n" for n
proof
  show "refs_ok s' (i' # is)"
    if "refs_ok s (i # is)" True "remove_secondary n (i, s) = (Inr r, (i', s'))" for s i "is" r i' s'
  proof (cases "n \<in> set (in_secondary i)")
    case True
    then have i': "i' = i\<lparr>in_secondary := remove1 n (in_secondary i)\<rparr>"
      and s': "s' = update_node_ref_counts n (in_preferred_az_id i) RemoveSecondary s"
      using that(3) by (auto simp: remove_secondary_def)
    show ?thesis
    proof (rule refs_ok_change [OF that(1)])
      show "intent_wf i'" "set (all_pageservers i') \<subseteq> known s"
        using refs_ok_head [OF that(1)] set_remove1_subset [of n "in_secondary i"]
        by (auto simp: i' intent_wf_iff all_pageservers_subset)
    qed (use True in \<open>auto simp: i' s' tally_rules count_list_distinct [OF refs_ok_head(1) [OF that(1)]]\<close>)
  next
    case False
    with that show ?thesis by (simp add: remove_secondary_def)
  qed
  show "map fst s' = map fst s \<and> static s' = static s" if "remove_secondary n (i, s) = (r, (i', s'))" for i s r i' s'
    using that by (auto simp: remove_secondary_def split: if_splits)
qed

interpretation pop: ref_counted "\<lambda>_ _. True" pop_secondary
proof
  show "refs_ok s' (i' # is)"
    if "refs_ok s (i # is)" True "pop_secondary (i, s) = (Inr r, (i', s'))" for s i "is" r i' s'
  proof (cases "in_secondary i" rule: rev_cases)
    case (snoc xs n)
    then have i': "i' = i\<lparr>in_secondary := xs\<rparr>"
      and s': "s' = update_node_ref_counts n (in_preferred_az_id i) RemoveSecondary s"
      using that(3) by (auto simp: pop_secondary_def)
    show ?thesis
    proof (rule refs_ok_change [OF that(1)])
      show "intent_wf i'" "set (all_pageservers i') \<subseteq> known s"
        using refs_ok_head [OF that(1)] by (auto simp: i' intent_wf_iff all_pageservers_subset snoc)
    qed (auto simp: i' s' tally_rules snoc)
  next
    case Nil
    with that show ?thesis by (simp add: pop_secondary_def)
  qed
  show "map fst s' = map fst s \<and> static s' = static s" if "pop_secondary (i, s) = (r, (i', s'))" for i s r i' s'
    using that by (auto simp: pop_secondary_def split: if_splits)
qed

interpretation demote: ref_counted "\<lambda>_ _. True" "demote_attached n" for n
proof
  show "refs_ok s' (i' # is)"
    if "refs_ok s (i # is)" True "demote_attached n (i, s) = (Inr r, (i', s'))" for s i "is" r i' s'
  proof (cases "in_attached i = Some n")
    case True
    then have i': "i' = i\<lparr>in_attached := None, in_secondary := in_secondary i @ [n]\<rparr>"
      and s': "s' = update_node_ref_counts n (in_preferred_az_id i) DemoteAttached s"
      using that(3) by (auto simp: demote_attached_def)
    show ?thesis
    proof (rule refs_ok_change [OF that(1)])
      show "intent_wf i'" "set (all_pageservers i') \<subseteq> known s"
        using refs_ok_head [OF that(1)] True by (auto simp: i' intent_wf_iff all_pageservers_subset)
    qed (use True in \<open>auto simp: i' s' tally_rules\<close>)
  next
    case False
    with that show ?thesis by (simp add: demote_attached_def)
  qed
  show "map fst s' = map fst s \<and> static s' = static s" if "demote_attached n (i, s) = (r, (i', s'))" for i s r i' s'
    using that by (auto simp: demote_attached_def split: if_splits)
qed

text \<open>Promotion swaps no locations when nothing is attached, as in every place that calls it.\<close>

interpretation promote: ref_counted
  "\<lambda>i _. in_attached i = None \<and> n \<in> set (in_secondary i)" "promote_attached n" for n
proof
  show "refs_ok s' (i' # is)"
    if "refs_ok s (i # is)" "in_attached i = None \<and> n \<in> set (in_secondary i)"
      "promote_attached n (i, s) = (Inr r, (i', s'))" for s i "is" r i' s'
  proof -
    have i': "i' = i\<lparr>in_secondary := filter (\<lambda>m. m \<noteq> n) (in_secondary i), in_attached := Some n\<rparr>"
      and s': "s' = update_node_ref_counts n (in_preferred_az_id i) PromoteSecondary s"
      using that(2,3) by (auto simp: promote_attached_def Let_def)
    show ?thesis
    proof (rule refs_ok_change [OF that(1)])
      show "intent_wf i'" "set (all_pageservers i') \<subseteq> known s"
        using refs_ok_head [OF that(1)] that(2) by (auto simp: i' intent_wf_iff all_pageservers_subset)
    qed (use that(2) refs_ok_head(1) [OF that(1)] in \<open>auto simp: i' s' tally_rules count_list_distinct\<close>)
  qed
  show "map fst s' = map fst s \<and> static s' = static s" if "promote_attached n (i, s) = (r, (i', s'))" for i s r i' s'
    using that by (auto simp: promote_attached_def Let_def split: option.splits)
qed

lemma tallies_update_all:
  "tallies (foldl (\<lambda>s n. update_node_ref_counts n p u s) s ns) m =
     map_option (tally_update p u ^^ count_list ns m) (tallies s m)"
  by (induction ns arbitrary: s)
    (auto simp: tallies_update_node_ref_counts option.map_comp funpow_swap1 comp_def option.map_id0)

lemma map_fst_update_all [simp]:
  "map fst (foldl (\<lambda>s n. update_node_ref_counts n p u s) s ns) = map fst s"
  by (induction ns arbitrary: s) simp_all

lemma static_update_all [simp]:
  "static (foldl (\<lambda>s n. update_node_ref_counts n p u s) s ns) = static s"
  by (induction ns arbitrary: s) simp_all

lemma tally_update_funpow:
  "(tally_update p RemoveSecondary ^^ k) (c, t, h, a) = (c - of_nat k, t, h - of_bool (Some a = p) * of_nat k, a)"
  "(tally_update p (ChangePreferredAzFrom q) ^^ k) (c, t, h, a) =
     (c, t, h - of_bool (Some a = q) * of_nat k + of_bool (Some a = p) * of_nat k, a)"
  by (induction k) (auto simp: algebra_simps)

interpretation clear_sec: ref_counted "\<lambda>_ _. True" clear_secondary
proof
  show "refs_ok s' (i' # is)"
    if "refs_ok s (i # is)" True "clear_secondary (i, s) = (Inr r, (i', s'))" for s i "is" r i' s'
  proof -
    have i': "i' = i\<lparr>in_secondary := []\<rparr>"
      and s': "s' = foldl (\<lambda>s n. update_node_ref_counts n (in_preferred_az_id i) RemoveSecondary s) s (in_secondary i)"
      using that(3) by (simp_all add: clear_secondary_def)
    show ?thesis
    proof (rule refs_ok_change [OF that(1)])
      show "intent_wf i'" "set (all_pageservers i') \<subseteq> known s"
        using refs_ok_head [OF that(1)] by (auto simp: i' intent_wf_iff all_pageservers_subset)
    qed (simp_all add: i' s' tally_rules tallies_update_all tally_update_funpow algebra_simps)
  qed
  show "map fst s' = map fst s \<and> static s' = static s" if "clear_secondary (i, s) = (r, (i', s'))" for i s r i' s'
    using that by (auto simp: clear_secondary_def)
qed

lemma refs_ok_detach:
  assumes "refs_ok s (i # is)" and "in_attached i = Some n"
  shows "refs_ok (update_node_ref_counts n (in_preferred_az_id i) Detach s) (i\<lparr>in_attached := None\<rparr> # is)"
proof (rule refs_ok_change [OF assms(1)])
  show "intent_wf (i\<lparr>in_attached := None\<rparr>)" "set (all_pageservers (i\<lparr>in_attached := None\<rparr>)) \<subseteq> known s"
    using refs_ok_head [OF assms(1)] by (auto simp: intent_wf_iff all_pageservers_subset)
qed (use assms(2) in \<open>auto simp: tally_rules\<close>)

lemma refs_ok_attach:
  assumes "refs_ok s (i # is)" and "in_attached i = None" and "n \<in> known s" and "n \<notin> set (in_secondary i)"
  shows "refs_ok (update_node_ref_counts n (in_preferred_az_id i) Attach s) (i\<lparr>in_attached := Some n\<rparr> # is)"
proof (rule refs_ok_change [OF assms(1)])
  show "intent_wf (i\<lparr>in_attached := Some n\<rparr>)" "set (all_pageservers (i\<lparr>in_attached := Some n\<rparr>)) \<subseteq> known s"
    using refs_ok_head [OF assms(1)] assms(3,4) by (auto simp: intent_wf_iff all_pageservers_subset)
qed (use assms(2) in \<open>auto simp: tally_rules\<close>)

interpretation clear: ref_counted "\<lambda>_ _. True" intent_clear
proof
  show "refs_ok s' (i' # is)"
    if "refs_ok s (i # is)" True "intent_clear (i, s) = (Inr r, (i', s'))" for s i "is" r i' s'
  proof (cases "in_attached i")
    case None
    then have eq: "i\<lparr>in_attached := None\<rparr> = i"
      by (cases i) simp
    show ?thesis
      using that(3) clear_sec.counts [OF that(1)] by (simp add: intent_clear_def None eq)
  next
    case (Some n)
    then show ?thesis
      using that clear_sec.counts [OF refs_ok_detach [OF that(1) Some]] by (simp add: intent_clear_def)
  qed
  show "map fst s' = map fst s \<and> static s' = static s" if "intent_clear (i, s) = (r, (i', s'))" for i s r i' s'
    using that by (auto simp: intent_clear_def dest!: clear_sec.frame split: option.splits)
qed

interpretation attach: ref_counted "\<lambda>_ s. \<forall>n. new_attached = Some n \<longrightarrow> n \<in> known s" "set_attached new_attached"
  for new_attached
proof
  show "refs_ok s' (i' # is)"
    if "refs_ok s (i # is)" "\<forall>n. new_attached = Some n \<longrightarrow> n \<in> known s"
      "set_attached new_attached (i, s) = (Inr r, (i', s'))" for s i "is" r i' s'
  proof (cases "in_attached i = new_attached")
    case True
    with that show ?thesis
      by (auto simp: set_attached_def rassert_def split: option.splits if_splits)
  next
    case False
    define i0 where "i0 = i\<lparr>in_attached := None\<rparr>"
    define s0 where "s0 = (case in_attached i of
      Some old \<Rightarrow> update_node_ref_counts old (in_preferred_az_id i) Detach s | None \<Rightarrow> s)"
    have ok: "refs_ok s0 (i0 # is)"
    proof (cases "in_attached i")
      case None
      then have "i0 = i" "s0 = s"
        by (cases i, simp_all add: i0_def s0_def)
      then show ?thesis using that(1) by simp
    next
      case (Some old)
      then show ?thesis
        using refs_ok_detach [OF that(1) Some] by (simp add: i0_def s0_def)
    qed
    have "known s0 = known s"
      by (rule known_cong) (simp add: s0_def split: option.split)
    then show ?thesis
      using that False ok refs_ok_attach [OF ok]
      by (auto simp: set_attached_def rassert_def i0_def s0_def [symmetric] Let_def split: option.splits if_splits)
  qed
  show "map fst s' = map fst s \<and> static s' = static s" if "set_attached new_attached (i, s) = (r, (i', s'))" for i s r i' s'
    using that by (auto simp: set_attached_def Let_def split: option.splits if_splits)
qed

interpretation az: ref_counted "\<lambda>_ _. True" "set_preferred_az a" for a
proof
  show "refs_ok s' (i' # is)"
    if "refs_ok s (i # is)" True "set_preferred_az a (i, s) = (Inr r, (i', s'))" for s i "is" r i' s'
  proof (cases "in_preferred_az_id i = a")
    case True
    with that show ?thesis by (simp add: set_preferred_az_def Let_def)
  next
    case False
    then have i': "i' = i\<lparr>in_preferred_az_id := a\<rparr>"
      and s': "s' = foldl (\<lambda>s n. update_node_ref_counts n a (ChangePreferredAzFrom (in_preferred_az_id i)) s)
        s (all_pageservers i)"
      using that(3) by (auto simp: set_preferred_az_def Let_def)
    show ?thesis
    proof (rule refs_ok_change [OF that(1)])
      show "intent_wf i'" "set (all_pageservers i') \<subseteq> known s"
        using refs_ok_head [OF that(1)] by (auto simp: i' intent_wf_iff all_pageservers_subset)
    qed (simp_all add: i' s' tallies_update_all tally_update_funpow refs_to_def all_pageservers_def)
  qed
  show "map fst s' = map fst s \<and> static s' = static s" if "set_preferred_az a (i, s) = (r, (i', s'))" for i s r i' s'
    using that by (auto simp: set_preferred_az_def Let_def split: if_splits)
qed

end
