(* ===== verification/SchedulerSpec.thy ===== *)
theory SchedulerSpec
  imports Scheduler
begin

text \<open>
  What the scheduler promises: its self-check accepts exactly the states whose counts are those of
  the intents, and it picks the eligible node with the lowest score, whatever the order of its hash
  map.
\<close>

subsection \<open>The consistency check is exact\<close>

text \<open>What the check sees of a node.\<close>

definition view :: "scheduler \<Rightarrow> node_id \<Rightarrow> (tally \<times> bool) option" where
  "view s n = map_option (\<lambda>nd. (tally nd, may_yes (scn_may_schedule nd))) (map_of s n)"

lemma known_iff: "n \<in> known s \<longleftrightarrow> (\<exists>nd. map_of s n = Some nd)"
  using map_of_eq_None_iff [of s n] by (auto simp: known_def)

lemma view_None: "view s n = None \<longleftrightarrow> n \<notin> known s"
  by (auto simp: view_def known_iff)

fun add_refs :: "u64 \<Rightarrow> u64 \<Rightarrow> (az \<Rightarrow> u64) \<Rightarrow> tally \<times> bool \<Rightarrow> tally \<times> bool" where
  "add_refs c' t' h' ((c, t, h, a), m) = ((c + c', t + t', h + h' a, a), m)"

lemma add_refs_add:
  "add_refs c t h (add_refs c' t' h' x) = add_refs (c' + c) (t' + t) (\<lambda>a. h' a + h a) x"
  by (cases x) (auto simp: add.assoc)

lemma add_refs_0 [simp]: "add_refs 0 0 (\<lambda>_. 0) = id"
  by (rule ext) auto

lemma expect_location_exact:
  assumes "expect_location t p n e = Inr e'"
  shows "map fst e' = map fst e" "n \<in> known e"
    "view e' m = map_option (add_refs (of_bool (m = n)) (if m = n then t else 0)
       (\<lambda>a. of_bool (Some a = p) * of_bool (m = n))) (view e m)"
  using assms by (auto simp: expect_location_def view_def tally_def known_iff map_of_AList_update
      keys_AList_update option.map_id split: option.splits)

lemma expect_location_defined:
  "n \<in> known e \<Longrightarrow> \<exists>e'. expect_location t p n e = Inr e'"
  by (auto simp: expect_location_def known_iff)

lemma expect_secondaries_exact:
  assumes "expect_secondaries p ns e = Inr e'"
  shows "map fst e' = map fst e \<and> set ns \<subseteq> known e \<and>
    view e' m = map_option (add_refs (of_nat (count_list ns m)) 0
       (\<lambda>a. of_bool (Some a = p) * of_nat (count_list ns m))) (view e m)"
  using assms
proof (induction ns arbitrary: e)
  case (Cons n ns)
  then obtain e1 where e1: "expect_location 0 p n e = Inr e1" "expect_secondaries p ns e1 = Inr e'"
    by (auto simp: rbind_eq_Inr)
  note IH = Cons.IH [OF e1(2)] and loc = expect_location_exact [OF e1(1)]
  have "view e' m = map_option (add_refs (of_nat (count_list (n # ns) m)) 0
      (\<lambda>a. of_bool (Some a = p) * of_nat (count_list (n # ns) m))) (view e m)"
    using IH by (auto simp: loc(3) option.map_comp comp_def add_refs_add algebra_simps)
  then show ?case
    using IH loc(1,2) known_cong [OF loc(1)] by auto
qed (simp add: option.map_id)

lemma expect_secondaries_defined:
  "set ns \<subseteq> known e \<Longrightarrow> \<exists>e'. expect_secondaries p ns e = Inr e'"
proof (induction ns arbitrary: e)
  case (Cons n ns)
  then obtain e1 where e1: "expect_location 0 p n e = Inr e1"
    using expect_location_defined by fastforce
  then show ?case
    using Cons known_cong [OF expect_location_exact(1) [OF e1]] by simp
qed simp

lemma expect_shards_step:
  assumes "(case in_attached i of Some n \<Rightarrow> expect_location 1 p n e | None \<Rightarrow> Inr e) = Inr e1"
    and "expect_secondaries p (in_secondary i) e1 = Inr e2" and "p = in_preferred_az_id i"
  shows "map fst e2 = map fst e \<and> set (all_pageservers i) \<subseteq> known e \<and>
    view e2 m = map_option (add_refs (refs_to i m) (of_bool (in_attached i = Some m))
       (\<lambda>a. of_bool (Some a = in_preferred_az_id i) * refs_to i m)) (view e m)"
proof -
  have one: "map fst e1 = map fst e \<and> (\<forall>n. in_attached i = Some n \<longrightarrow> n \<in> known e) \<and>
    view e1 m = map_option (add_refs (of_bool (in_attached i = Some m)) (of_bool (in_attached i = Some m))
       (\<lambda>a. of_bool (Some a = p) * of_bool (in_attached i = Some m))) (view e m)"
  proof (cases "in_attached i")
    case None
    with assms(1) show ?thesis by (simp add: option.map_id)
  next
    case (Some n)
    with assms(1) have "expect_location 1 p n e = Inr e1" by simp
    from expect_location_exact [OF this] show ?thesis
      by (auto simp: Some)
  qed
  show ?thesis
    using one expect_secondaries_exact [OF assms(2), of m] known_cong [of e1 e]
    by (auto simp: all_pageservers_subset refs_to_sum assms(3) option.map_comp comp_def add_refs_add
        algebra_simps)
qed

lemma expect_shards_exact:
  assumes "expect_shards is e = Inr e'"
  shows "map fst e' = map fst e \<and> (\<forall>i\<in>set is. set (all_pageservers i) \<subseteq> known e) \<and>
    view e' m = map_option (add_refs (shard_refs is m) (attached_refs is m) (home_refs is m)) (view e m)"
  using assms
proof (induction "is" arbitrary: e)
  case Nil
  then show ?case
    by (simp add: shard_refs_def attached_refs_def home_refs_def id_def [abs_def] option.map_ident)
next
  case (Cons i "is")
  then obtain e1 e2 where
    e1: "(case in_attached i of Some n \<Rightarrow> expect_location 1 (in_preferred_az_id i) n e | None \<Rightarrow> Inr e) = Inr e1"
    and e2: "expect_secondaries (in_preferred_az_id i) (in_secondary i) e1 = Inr e2"
    and rest: "expect_shards is e2 = Inr e'"
    by (auto simp: rbind_eq_Inr)
  note IH = Cons.IH [OF rest] and step = expect_shards_step [OF e1 e2 refl]
  have home: "home_refs (i # is) m =
      (\<lambda>a. of_bool (Some a = in_preferred_az_id i) * refs_to i m + home_refs is m a)"
    by (rule ext) (rule refs_Cons)
  have "view e' m = map_option (add_refs (shard_refs (i # is) m) (attached_refs (i # is) m)
      (home_refs (i # is) m)) (view e m)"
    using IH step [of m] by (simp add: option.map_comp comp_def add_refs_add refs_Cons(1,2) home)
  then show ?case
    using IH step known_cong [of e2 e] by auto
qed

lemma expect_shards_defined:
  "\<forall>i\<in>set is. set (all_pageservers i) \<subseteq> known e \<Longrightarrow> \<exists>e'. expect_shards is e = Inr e'"
proof (induction "is" arbitrary: e)
  case (Cons i "is")
  then have i: "set (in_secondary i) \<subseteq> known e" "in_attached i = Some n \<Longrightarrow> n \<in> known e" for n
    by (auto simp: all_pageservers_subset)
  have "\<exists>e1. (case in_attached i of Some n \<Rightarrow> expect_location 1 (in_preferred_az_id i) n e | None \<Rightarrow> Inr e) = Inr e1
      \<and> map fst e1 = map fst e"
  proof (cases "in_attached i")
    case (Some n)
    from expect_location_defined [OF i(2) [OF Some]]
    obtain e1 where "expect_location 1 (in_preferred_az_id i) n e = Inr e1" by blast
    with expect_location_exact(1) [OF this] show ?thesis by (simp add: Some)
  qed simp
  then obtain e1 where
    e1: "(case in_attached i of Some n \<Rightarrow> expect_location 1 (in_preferred_az_id i) n e | None \<Rightarrow> Inr e) = Inr e1"
    and "known e1 = known e"
    using known_cong by blast
  moreover from this obtain e2 where e2: "expect_secondaries (in_preferred_az_id i) (in_secondary i) e1 = Inr e2"
    using i(1) expect_secondaries_defined by metis
  ultimately show ?case
    using Cons known_cong [of e2 e] expect_shards_step [OF e1 e2 refl] by simp
qed simp

lemma check_expected_exact:
  assumes "distinct (map fst e)"
  shows "check_expected s e = Inr () \<longleftrightarrow>
    (\<forall>n x. map_of e n = Some x \<longrightarrow> (\<exists>nd. map_of s n = Some nd \<and> scheduler_node_eq nd x))"
proof -
  have "check_expected s e = Inr () \<longleftrightarrow>
    (\<forall>(n, x)\<in>set e. \<exists>nd. map_of s n = Some nd \<and> scheduler_node_eq nd x)"
    by (induction e rule: check_expected.induct) (auto split: option.split)
  with assms show ?thesis
    by (auto dest: map_of_SomeD)
qed

lemma scheduler_new_snoc:
  "scheduler_new (nodes @ [nd]) = AList.update (nd_id nd) (new_scheduler_node nd) (scheduler_new nodes)"
  by (simp add: scheduler_new_def)

lemma scheduler_new_distinct: "distinct (map fst (scheduler_new nodes))"
  by (induction nodes rule: rev_induct) (simp_all add: scheduler_new_snoc distinct_update, simp add: scheduler_new_def)

lemma scheduler_new_known: "known (scheduler_new nodes) = nd_id ` set nodes"
  by (induction nodes rule: rev_induct)
    (auto simp: scheduler_new_snoc known_iff map_of_AList_update set_eq_iff, simp add: scheduler_new_def)

lemma scheduler_new_lookup:
  "distinct (map nd_id nodes) \<Longrightarrow> nd \<in> set nodes \<Longrightarrow>
     map_of (scheduler_new nodes) (nd_id nd) = Some (new_scheduler_node nd)"
  by (induction nodes rule: rev_induct)
    (auto simp: scheduler_new_snoc map_of_AList_update intro: rev_image_eqI dest: sym [of "nd_id nd"])

lemma extra_nodes_exact:
  assumes "distinct (map fst e)" and "distinct (map fst s)" and "known e \<subseteq> known s"
  shows "length e \<noteq> length s \<and> list_ex (\<lambda>n. map_of e n = None) (map fst s) \<longleftrightarrow> known e \<noteq> known s"
proof -
  have len: "length e = card (known e)" "length s = card (known s)"
    using distinct_card [OF assms(1)] distinct_card [OF assms(2)] by (simp_all add: known_def)
  have "finite (known s)"
    by (simp add: known_def)
  then have "length e = length s \<longleftrightarrow> known e = known s"
    unfolding len using card_subset_eq [OF _ assms(3)] by auto
  moreover have "list_ex (\<lambda>n. map_of e n = None) (map fst s) \<longleftrightarrow> \<not> known s \<subseteq> known e"
    by (auto simp: list_ex_iff known_def map_of_eq_None_iff)
  ultimately show ?thesis
    using assms(3) by auto
qed

lemma expected_node:
  assumes "distinct (map nd_id nodes)" and "expect_shards is (scheduler_new nodes) = Inr e" and "nd \<in> set nodes"
  shows "view e (nd_id nd) = Some ((shard_refs is (nd_id nd), attached_refs is (nd_id nd),
    home_refs is (nd_id nd) (nd_az nd), nd_az nd), may_yes (nd_may_schedule nd))"
  using expect_shards_exact [OF assms(2), of "nd_id nd"] scheduler_new_lookup [OF assms(1,3)]
  by (simp add: view_def new_scheduler_node_def tally_def)

text \<open>C0: The consistency check of the scheduler is exact. With one entry per node on both sides, it
  returns without an error precisely when every location of every shard is on a registered node, the
  scheduler knows exactly the registered nodes, and for each of them the numbers of shards and of
  attached shards are those of the intents and the zone and the eligibility are those of the node.
  The number of home shards is not among what it compares.\<close>

theorem consistency_check_exact:
  assumes "distinct (map fst s)" and "distinct (map nd_id nodes)"
  shows "consistency_check nodes is s = Inr () \<longleftrightarrow>
    (\<forall>i\<in>set is. set (all_pageservers i) \<subseteq> nd_id ` set nodes) \<and> fst ` set s = nd_id ` set nodes \<and>
    (\<forall>nd\<in>set nodes. \<exists>sn. map_of s (nd_id nd) = Some sn
       \<and> scn_shard_count sn = shard_refs is (nd_id nd)
       \<and> scn_attached_shard_count sn = attached_refs is (nd_id nd)
       \<and> scn_az sn = nd_az nd \<and> may_yes (scn_may_schedule sn) = may_yes (nd_may_schedule nd))"
    (is "?check = (?refs \<and> ?dom \<and> ?counts)")
proof (cases ?refs)
  case False
  then have "expect_shards is (scheduler_new nodes) \<noteq> Inr e" for e
    using expect_shards_exact [of "is" "scheduler_new nodes" e] by (auto simp: scheduler_new_known)
  with False show ?thesis
    by (auto simp: consistency_check_def rbind_eq_Inr)
next
  case True
  then obtain e where e: "expect_shards is (scheduler_new nodes) = Inr e"
    using expect_shards_defined [of "is" "scheduler_new nodes"] by (auto simp: scheduler_new_known)
  then have keys: "map fst e = map fst (scheduler_new nodes)"
    using expect_shards_exact by blast
  then have dist: "distinct (map fst e)" and known: "known e = nd_id ` set nodes"
    using scheduler_new_distinct known_cong [OF keys] by (simp_all add: scheduler_new_known)
  have "check_expected s e = Inr () \<longleftrightarrow> ?counts"
    (is "_ \<longleftrightarrow> (\<forall>nd\<in>set nodes. ?ok nd)")
  proof -
    have one: "(\<forall>x. map_of e (nd_id nd) = Some x \<longrightarrow> (\<exists>sn. map_of s (nd_id nd) = Some sn \<and> scheduler_node_eq sn x))
        \<longleftrightarrow> ?ok nd" if "nd \<in> set nodes" for nd
      using expected_node [OF assms(2) e that]
      by (auto simp: view_def tally_def scheduler_node_eq_def)
    have "map_of e n = Some x \<Longrightarrow> n \<in> nd_id ` set nodes" for n x
      using known_iff [of n e] known by auto
    then show ?thesis
      unfolding check_expected_exact [OF dist] using one by blast
  qed
  moreover have "?counts \<Longrightarrow> known e \<subseteq> known s"
    unfolding known by (auto simp: known_iff)
  ultimately show ?thesis
    using True extra_nodes_exact [OF dist assms(1)] known
    by (auto simp: consistency_check_def e rbind_eq_Inr known_def)
qed

subsection \<open>The lowest score wins\<close>

lemma generate_keeps:
  assumes "generate tag n p c nd = (r, nd')"
  shows "tally nd' = tally nd" "may_yes (scn_may_schedule nd') = may_yes (scn_may_schedule nd)"
  using assms by (auto simp: generate_def generate_attached_def generate_secondary_def tally_def may_yes_def
      split: shard_tag.splits may_schedule.splits prod.splits sum.splits)

lemma generate_Some:
  "fst (generate tag n p c nd) = Inr (Some sc) \<Longrightarrow> ns_node_id sc = n \<and> may_yes (scn_may_schedule nd)"
  "may_yes (scn_may_schedule nd) \<Longrightarrow> fst (generate tag n p c nd) = Inr x \<Longrightarrow> \<exists>sc. x = Some sc"
  by (auto simp: generate_def generate_attached_def generate_secondary_def may_yes_def
      split: shard_tag.splits may_schedule.splits prod.splits sum.splits)

definition eligible :: "shard_tag \<Rightarrow> node_id list \<Rightarrow> az option \<Rightarrow> schedule_context \<Rightarrow> scheduler \<Rightarrow> node_score set" where
  "eligible tag ex p c s =
     {sc. \<exists>(n, nd)\<in>set s. n \<notin> set ex \<and> fst (generate tag n p c nd) = Inr (Some sc)}"

definition score_fails :: "shard_tag \<Rightarrow> node_id list \<Rightarrow> az option \<Rightarrow> schedule_context \<Rightarrow> scheduler \<Rightarrow> bool" where
  "score_fails tag ex p c s \<longleftrightarrow>
     (\<exists>(n, nd)\<in>set s. n \<notin> set ex \<and> (\<exists>e. fst (generate tag n p c nd) = Inl e))"

lemma view_Cons:
  assumes "view s' = view s"
    and "tally nd' = tally nd \<and> may_yes (scn_may_schedule nd') = may_yes (scn_may_schedule nd)"
  shows "view ((n, nd') # s') = view ((n, nd) # s)"
  using assms by (auto simp: view_def fun_eq_iff)

lemma compute_node_scores_keeps:
  "compute_node_scores tag ex p c s = (r, s') \<Longrightarrow> map fst s' = map fst s \<and> view s' = view s"
proof (induction s arbitrary: r s')
  case (Cons x s)
  obtain n nd where x: "x = (n, nd)" by fastforce
  obtain g nd' where gen: "generate tag n p c nd = (g, nd')" by fastforce
  obtain r1 s1 where rec: "compute_node_scores tag ex p c s = (r1, s1)" by fastforce
  note IH = Cons.IH [OF rec] and nd' = generate_keeps [OF gen]
  have "s' = (n, nd) # s1 \<or> s' = (n, nd') # s \<or> s' = (n, nd') # s1"
    using Cons.prems by (auto simp: x gen rec split: if_splits sum.splits)
  moreover have "view ((n, nd) # s1) = view ((n, nd) # s)" "view ((n, nd') # s) = view ((n, nd) # s)"
    "view ((n, nd') # s1) = view ((n, nd) # s)"
    by (rule view_Cons; use IH nd' in simp)+
  ultimately show ?case
    using IH unfolding x by (elim disjE) simp_all
qed simp

lemma compute_node_scores_result:
  "case fst (compute_node_scores tag ex p c s) of
     Inl e \<Rightarrow> score_fails tag ex p c s
   | Inr scs \<Rightarrow> \<not> score_fails tag ex p c s \<and> set scs = eligible tag ex p c s"
proof (induction s)
  case (Cons x s)
  obtain n nd where x: "x = (n, nd)" by fastforce
  obtain g nd' where gen: "generate tag n p c nd = (g, nd')" by fastforce
  obtain r1 s1 where rec: "compute_node_scores tag ex p c s = (r1, s1)" by fastforce
  have fails: "score_fails tag ex p c (x # s) \<longleftrightarrow>
      n \<notin> set ex \<and> (\<exists>e. g = Inl e) \<or> score_fails tag ex p c s"
    by (auto simp: score_fails_def x gen)
  have elig: "eligible tag ex p c (x # s) =
      {sc. n \<notin> set ex \<and> g = Inr (Some sc)} \<union> eligible tag ex p c s"
    by (auto simp: eligible_def x gen)
  show ?case
    using Cons unfolding fails elig
    by (cases g; cases r1) (auto simp: x gen rec split: option.splits)
qed (simp add: score_fails_def eligible_def)

lemma hd_sort_key:
  assumes "xs \<noteq> []"
  shows "hd (sort_key f xs) \<in> set xs" "y \<in> set xs \<Longrightarrow> f (hd (sort_key f xs)) \<le> f y"
proof -
  obtain z zs where z: "sort_key f xs = z # zs"
    using assms by (metis list.exhaust length_0_conv length_sort)
  then have set: "set xs = set (z # zs)"
    using set_sort [of f xs] by simp
  then show "hd (sort_key f xs) \<in> set xs"
    by (simp add: z)
  have "sorted (f z # map f zs)"
    using sorted_sort_key [of f xs] by (simp add: z)
  then show "f (hd (sort_key f xs)) \<le> f y" if "y \<in> set xs"
    using that unfolding z set by auto
qed

text \<open>Those that are compared: overloaded nodes only if there is nothing else.\<close>

definition contenders :: "node_score set \<Rightarrow> node_score set" where
  "contenders E = (if \<exists>sc\<in>E. \<not> ns_is_overloaded sc then {sc \<in> E. \<not> ns_is_overloaded sc} else E)"

definition lowest :: "node_score set \<Rightarrow> node_id \<Rightarrow> bool" where
  "lowest F n \<longleftrightarrow> (\<exists>sc\<in>F. ns_node_id sc = n \<and> (\<forall>sc'\<in>F. score_key sc \<le> score_key sc'))"

lemma lowest_unique: "lowest F n \<Longrightarrow> lowest F m \<Longrightarrow> n = m"
  unfolding lowest_def by (metis order_antisym score_key_def prod.inject)

lemma schedule_shard_compute:
  assumes "s \<noteq> []" and "compute_node_scores tag ex p c s = (r, s')"
  shows "schedule_shard tag ex p c s = (case r of Inl e \<Rightarrow> (Inl e, s')
    | Inr scores \<Rightarrow> (let fine = filter (\<lambda>i. \<not> ns_is_overloaded i) scores;
        scores = sort_key score_key (if fine \<noteq> [] then fine else scores) in
        (Inr (if scores = [] then Inl ImpossibleConstraint else Inr (ns_node_id (hd scores))), s')))"
  using assms by (cases r) (simp_all add: schedule_shard_def abind_def areturn_def Let_def)

lemma lowest_hd_sort:
  assumes "set scs = E" and "E \<noteq> {}"
  shows "(let fine = filter (\<lambda>i. \<not> ns_is_overloaded i) scs;
      sorted = sort_key score_key (if fine \<noteq> [] then fine else scs) in
      sorted \<noteq> [] \<and> lowest (contenders E) (ns_node_id (hd sorted)))"
proof -
  define fine where "fine = filter (\<lambda>i. \<not> ns_is_overloaded i) scs"
  define xs where "xs = (if fine \<noteq> [] then fine else scs)"
  have set: "set xs = contenders E"
    using assms(1) by (auto simp: xs_def fine_def contenders_def filter_empty_conv)
  have ne: "xs \<noteq> []"
    using assms by (auto simp: xs_def)
  then have "sort_key score_key xs \<noteq> []"
    by (metis length_0_conv length_sort)
  moreover have "lowest (contenders E) (ns_node_id (hd (sort_key score_key xs)))"
    using hd_sort_key [OF ne, where f = score_key] unfolding lowest_def set by blast
  ultimately show ?thesis
    by (simp add: Let_def fine_def [symmetric] xs_def [symmetric])
qed

lemma schedule_shard_outcome:
  "(case fst (schedule_shard tag ex p c s) of
      Inl e \<Rightarrow> s \<noteq> [] \<and> score_fails tag ex p c s
    | Inr (Inl NoPageservers) \<Rightarrow> s = []
    | Inr (Inl ImpossibleConstraint) \<Rightarrow>
        s \<noteq> [] \<and> \<not> score_fails tag ex p c s \<and> eligible tag ex p c s = {}
    | Inr (Inr n) \<Rightarrow> \<not> score_fails tag ex p c s \<and> lowest (contenders (eligible tag ex p c s)) n)
   \<and> map fst (snd (schedule_shard tag ex p c s)) = map fst s
   \<and> view (snd (schedule_shard tag ex p c s)) = view s"
proof (cases "s = []")
  case True
  then show ?thesis by (simp add: schedule_shard_def)
next
  case False
  obtain r s' where comp: "compute_node_scores tag ex p c s = (r, s')" by fastforce
  note keeps = compute_node_scores_keeps [OF comp] and sched = schedule_shard_compute [OF False comp]
  show ?thesis
  proof (cases r)
    case (Inl e)
    then show ?thesis
      using compute_node_scores_result [of tag ex p c s] keeps False by (simp add: sched comp)
  next
    case (Inr scs)
    then have res: "\<not> score_fails tag ex p c s" "set scs = eligible tag ex p c s"
      using compute_node_scores_result [of tag ex p c s] by (simp_all add: comp)
    show ?thesis
    proof (cases "scs = []")
      case True
      then show ?thesis using res keeps False by (simp add: sched Inr)
    next
      case ne: False
      then have "eligible tag ex p c s \<noteq> {}" using res(2) by auto
      from lowest_hd_sort [OF res(2) this] show ?thesis
        using res keeps by (simp add: sched Inr Let_def)
    qed
  qed
qed

lemma schedule_shard_node:
  assumes "schedule_shard tag ex p c s = (Inr (Inr n), s')"
  shows "n \<in> known s" "n \<notin> set ex"
proof -
  have "lowest (contenders (eligible tag ex p c s)) n"
    using schedule_shard_outcome [where s = s and tag = tag and ex = ex and p = p and c = c] by (simp add: assms)
  then have "\<exists>sc\<in>eligible tag ex p c s. ns_node_id sc = n"
    by (auto simp: lowest_def contenders_def split: if_splits)
  then show "n \<in> known s" "n \<notin> set ex"
    by (force simp: eligible_def known_def dest: generate_Some(1))+
qed

lemma schedule_shard_keeps:
  assumes "schedule_shard tag ex p c s = (r, s')"
  shows "map fst s' = map fst s" "view s' = view s"
  using schedule_shard_outcome [where s = s and tag = tag and ex = ex and p = p and c = c] by (simp_all add: assms)

text \<open>C0: Which node the scheduler selects. Without nodes it answers that there are none; it panics only
  when the score of an eligible node cannot be computed; when no node outside the excluded ones may be
  scheduled it answers that the constraint is impossible; and otherwise it returns a node whose score
  is the lowest of the nodes it may use, where overloaded nodes are considered only if all are. Counts,
  zones and eligibility of all nodes are unchanged. The order of the hash map does not matter: unless
  a score cannot be computed, schedulers with the same entries select the same node.\<close>

theorem schedule_shard_exact:
  assumes "set s' = set s" and "\<not> score_fails tag ex p c s"
  shows "(case fst (schedule_shard tag ex p c s) of
      Inl e \<Rightarrow> False
    | Inr (Inl NoPageservers) \<Rightarrow> s = []
    | Inr (Inl ImpossibleConstraint) \<Rightarrow> s \<noteq> [] \<and> eligible tag ex p c s = {}
    | Inr (Inr n) \<Rightarrow> lowest (contenders (eligible tag ex p c s)) n)
   \<and> view (snd (schedule_shard tag ex p c s)) = view s
   \<and> fst (schedule_shard tag ex p c s') = fst (schedule_shard tag ex p c s)"
proof -
  have same: "score_fails tag ex p c s' = score_fails tag ex p c s" "eligible tag ex p c s' = eligible tag ex p c s"
    "s' = [] \<longleftrightarrow> s = []"
    using assms(1) by (auto simp: score_fails_def eligible_def)
  have none: "\<not> lowest (contenders {}) n" for n
    by (simp add: lowest_def contenders_def)
  note out = schedule_shard_outcome [where tag = tag and ex = ex and p = p and c = c]
  have "fst (schedule_shard tag ex p c s') = fst (schedule_shard tag ex p c s)"
  proof (cases "s = []")
    case False
    then show ?thesis
      using out [of s] out [of s'] assms(2) unfolding same
      by (auto simp: none split: sum.splits schedule_error.splits dest: lowest_unique)
  qed (use same(3) in simp)
  then show ?thesis
    using out [of s] assms(2) by (auto split: sum.splits schedule_error.splits)
qed

subsection \<open>Computing scores keeps the counts\<close>

lemma view_eqD:
  assumes "view s' = view s"
  shows "tallies s' = tallies s" "static s' = static s" "known s' = known s"
proof -
  have tal: "tallies s = map_option fst \<circ> view s"
    and sta: "static s = map_option (\<lambda>((c, t, h, a), m). (a, m)) \<circ> view s" for s
    by (simp_all add: fun_eq_iff tallies_def static_def view_def option.map_comp comp_def tally_def [abs_def])
  show "tallies s' = tallies s" "static s' = static s"
    unfolding tal sta assms by (rule refl)+
  have "n \<notin> known s' \<longleftrightarrow> n \<notin> known s" for n
    unfolding view_None [symmetric] assms ..
  then show "known s' = known s"
    by blast
qed

lemma refs_ok_view:
  assumes "view s' = view s"
  shows "refs_ok s' is = refs_ok s is"
  unfolding refs_ok_def view_eqD [OF assms] ..

lemma compute_node_score_keeps:
  assumes "compute_node_score tag n p c s = (r, s')"
  shows "map fst s' = map fst s" "view s' = view s"
proof -
  have "map fst s' = map fst s \<and> view s' = view s"
  proof (cases "map_of s n")
    case None
    with assms show ?thesis by (simp add: compute_node_score_def)
  next
    case (Some nd)
    obtain g nd' where gen: "generate tag n p c nd = (g, nd')" by fastforce
    with assms Some have s': "s' = AList.update n nd' s"
      by (simp add: compute_node_score_def)
    have "view s' m = view s m" for m
      using generate_keeps [OF gen] by (simp add: s' view_def map_of_AList_update Some)
    then show ?thesis
      by (simp add: s' keys_AList_update Some fun_eq_iff)
  qed
  then show "map fst s' = map fst s" "view s' = view s" by simp_all
qed

lemma static_None: "static s n = None \<longleftrightarrow> n \<notin> known s"
  by (auto simp: static_def known_iff)

lemma static_known:
  assumes "static s' = static s"
  shows "known s' = known s"
proof -
  have "n \<notin> known s' \<longleftrightarrow> n \<notin> known s" for n
    unfolding static_None [symmetric] assms ..
  then show ?thesis by blast
qed

lemma counted_view:
  assumes "map fst s' = map fst s" and "view s' = view s"
  shows "counted (i, s) (i, s')"
  unfolding counted_def case_prod_conv refs_ok_view [OF assms(2)] view_eqD(2) [OF assms(2)] assms(1) by simp

lemma schedule_shard_counted:
  "schedule_shard tag ex p c s = (r, s') \<Longrightarrow> counted (i, s) (i, s')"
  by (rule counted_view; rule schedule_shard_keeps)

end
