(* ===== verification/TenantSched.thy ===== *)
theory TenantSched
  imports SchedulerSpec Shards
begin

text \<open>
  The scheduling of tenant shards, \<open>TenantShard\<close> of storage_controller/src/tenant_shard.rs: how a
  shard's intent is brought in line with its placement policy, promoted, optimized, and derived from
  what pageservers report. Of a shard the model keeps what these functions read and write; the
  generation, the configuration and the reconciler are left out.
\<close>

datatype placement_policy = Attached nat | Secondary | Detached

definition want_secondaries :: "placement_policy \<Rightarrow> nat" where
  "want_secondaries p = (case p of Attached secondary_count \<Rightarrow> secondary_count | Secondary \<Rightarrow> 1 | Detached \<Rightarrow> 0)"

datatype shard_scheduling_policy = SsActive | SsEssential | SsPause | SsStop

datatype location_config_mode = LmAttachedSingle | LmAttachedMulti | LmAttachedStale | LmSecondary | LmDetached

record location_config =
  lc_mode :: location_config_mode
  lc_generation :: "u32 option"

record tenant_shard =
  ts_tenant_shard_id :: tenant_shard_id
  ts_shard_count :: shard_count
  ts_sequence :: u64
  ts_policy :: placement_policy
  ts_intent :: intent_state
  ts_observed :: "(node_id \<times> location_config option) list"
  ts_preferred_node :: "node_id option"
  ts_scheduling_policy :: shard_scheduling_policy

type_synonym 'a tact = "(tenant_shard \<times> scheduler, 'a) act"

definition tenant_shard_new :: "tenant_shard_id \<Rightarrow> shard_count \<Rightarrow> placement_policy \<Rightarrow> az option \<Rightarrow> tenant_shard" where
  "tenant_shard_new tid shards policy a = \<lparr>ts_tenant_shard_id = tid, ts_shard_count = shards, ts_sequence = 1,
     ts_policy = policy, ts_intent = intent_new a, ts_observed = [], ts_preferred_node = None,
     ts_scheduling_policy = SsActive\<rparr>"

subsection \<open>Threading the shard and the scheduler\<close>

definition on_intent :: "'a iact \<Rightarrow> 'a tact" where
  "on_intent f = (\<lambda>(self, s). case f (ts_intent self, s) of (r, (i, s)) \<Rightarrow> (r, (self\<lparr>ts_intent := i\<rparr>, s)))"

definition on_scheduler :: "(scheduler, 'a) act \<Rightarrow> 'a tact" where
  "on_scheduler f = (\<lambda>(self, s). case f s of (r, s) \<Rightarrow> (r, (self, s)))"

text \<open>The question mark operator on a scheduling error.\<close>

definition sbind :: "('s, schedule_error + 'a) act \<Rightarrow> ('a \<Rightarrow> ('s, schedule_error + 'b) act) \<Rightarrow>
  ('s, schedule_error + 'b) act" where
  "sbind m f = abind m (\<lambda>r. case r of Inl e \<Rightarrow> areturn (Inl e) | Inr x \<Rightarrow> f x)"

definition project_detach :: "intent_state \<Rightarrow> schedule_context \<Rightarrow> schedule_context" where
  "project_detach i c = foldl (\<lambda>c n. case ctx_nodes c n of
       Some a \<Rightarrow> c\<lparr>ctx_nodes := (ctx_nodes c)(n \<mapsto> a - 1)\<rparr> | None \<Rightarrow> c) c (all_pageservers i)"

subsection \<open>Intent from observed locations\<close>

definition generation_key :: "u32 option \<Rightarrow> nat" where
  "generation_key g = (case g of None \<Rightarrow> 0 | Some g \<Rightarrow> Suc (unat g))"

definition observed_attached :: "(node_id \<times> location_config option) list \<Rightarrow> (node_id \<times> u32 option) list" where
  "observed_attached ls = List.map_filter (\<lambda>(n, l). case l of
       Some conf \<Rightarrow> if lc_mode conf \<in> {LmAttachedMulti, LmAttachedSingle, LmAttachedStale}
         then Some (n, lc_generation conf) else None
     | None \<Rightarrow> None) ls"

fun push_observed :: "node_id list \<Rightarrow> unit tact" where
  "push_observed [] = areturn ()"
| "push_observed (n # ns) = (\<lambda>(self, s).
     if Some n \<noteq> in_attached (ts_intent self)
     then abind (on_intent (push_secondary n)) (\<lambda>_. push_observed ns) (self, s)
     else push_observed ns (self, s))"

definition intent_from_observed :: "unit tact" where
  "intent_from_observed = (\<lambda>(self, s).
     let attached_locs = sort_key (generation_key \<circ> snd) (observed_attached (ts_observed self)) in
     abind (if attached_locs = [] then areturn ()
            else on_intent (set_attached (Some (fst (last attached_locs)))))
       (\<lambda>_. push_observed (map fst (ts_observed self))) (self, s))"

subsection \<open>Scheduling\<close>

definition preferred_secondary :: "tenant_shard \<Rightarrow> scheduler \<Rightarrow> node_id option res" where
  "preferred_secondary self s =
     rbind (filter_usable_nodes s (in_secondary (ts_intent self))) (\<lambda>candidates.
       let candidates = sort (map (\<lambda>(n, a).
             (if a = in_preferred_az_id (ts_intent self) then 1 else 0 :: nat, n)) candidates) in
       Inr (if candidates = [] then None else Some (snd (hd candidates))))"

definition schedule_attached :: "schedule_context \<Rightarrow> (schedule_error + bool \<times> node_id) tact" where
  "schedule_attached context = (\<lambda>(self, s). case in_attached (ts_intent self) of
     Some n \<Rightarrow> (Inr (Inr (False, n)), (self, s))
   | None \<Rightarrow> (case preferred_secondary self s of
       Inl e \<Rightarrow> (Inl e, (self, s))
     | Inr (Some n) \<Rightarrow>
         abind (on_intent (promote_attached n)) (\<lambda>_. areturn (Inr (True, n))) (self, s)
     | Inr None \<Rightarrow>
         sbind (on_scheduler (schedule_shard AttachedShardTag (in_secondary (ts_intent self))
             (in_preferred_az_id (ts_intent self)) context)) (\<lambda>n.
         abind (on_intent (set_attached (Some n))) (\<lambda>_. areturn (Inr (True, n)))) (self, s)))"

lemma push_secondary_length:
  "push_secondary n (i, s) = (Inr r, (i', s')) \<Longrightarrow> length (in_secondary i') = Suc (length (in_secondary i))"
  by (auto simp: push_secondary_def split: if_splits)

text \<open>The loop that adds secondaries while there are fewer than the policy asks for.\<close>

function add_secondaries ::
  "nat \<Rightarrow> schedule_context \<Rightarrow> node_id list \<Rightarrow> bool \<Rightarrow> intent_state \<times> scheduler \<Rightarrow>
    (schedule_error + bool) res \<times> (intent_state \<times> scheduler)" where
  "add_secondaries secondary_count context used_pageservers modified (i, s) =
     (if length (in_secondary i) < secondary_count then
        (case schedule_shard SecondaryShardTag used_pageservers (in_preferred_az_id i) context s of
           (Inl e, s) \<Rightarrow> (Inl e, (i, s))
         | (Inr (Inl e), s) \<Rightarrow> (Inr (Inl e), (i, s))
         | (Inr (Inr n), s) \<Rightarrow> (case push_secondary n (i, s) of
             (Inl e, (i, s)) \<Rightarrow> (Inl e, (i, s))
           | (Inr _, (i, s)) \<Rightarrow> add_secondaries secondary_count context (used_pageservers @ [n]) True (i, s)))
      else (Inr (Inr modified), (i, s)))"
  by pat_completeness auto
termination
  by (relation "measure (\<lambda>(secondary_count, _, _, _, i, _). secondary_count - length (in_secondary i))")
    (simp, auto dest!: sym [of _ "push_secondary _ _"] push_secondary_length)

lemma remove_secondary_length:
  "n \<in> set (in_secondary i) \<Longrightarrow> remove_secondary n (i, s) = (r, (i', s')) \<Longrightarrow>
     length (in_secondary i') < length (in_secondary i)"
  using length_pos_if_in_set [of n "in_secondary i"] by (auto simp: remove_secondary_def length_remove1)

text \<open>The loop that removes all secondaries but one, those outside the preferred zone first.\<close>

definition secondary_to_remove :: "intent_state \<Rightarrow> scheduler \<Rightarrow> node_id" where
  "secondary_to_remove i s =
     last (sort_key (\<lambda>n. get_node_az s n \<noteq> in_preferred_az_id i) (in_secondary i))"

lemma secondary_to_remove_in: "in_secondary i \<noteq> [] \<Longrightarrow> secondary_to_remove i s \<in> set (in_secondary i)"
  unfolding secondary_to_remove_def by (metis last_in_set length_0_conv length_sort set_sort)

function trim_secondaries :: "bool \<Rightarrow> intent_state \<times> scheduler \<Rightarrow> bool res \<times> (intent_state \<times> scheduler)" where
  "trim_secondaries modified (i, s) =
     (if length (in_secondary i) > 1 then
        (case remove_secondary (secondary_to_remove i s) (i, s) of
           (Inl e, (i, s)) \<Rightarrow> (Inl e, (i, s))
         | (Inr _, (i, s)) \<Rightarrow> trim_secondaries True (i, s))
      else (Inr modified, (i, s)))"
  by pat_completeness auto
termination
  by (relation "measure (\<lambda>(_, i, _). length (in_secondary i))")
    (simp, auto dest!: sym [of _ "remove_secondary _ _"] intro!: remove_secondary_length secondary_to_remove_in)

definition populate_secondary :: "schedule_context \<Rightarrow> (schedule_error + bool) tact" where
  "populate_secondary context = (\<lambda>(self, s). case in_attached (ts_intent self) of
     Some n \<Rightarrow> abind (on_intent (demote_attached n)) (\<lambda>_. areturn (Inr True)) (self, s)
   | None \<Rightarrow> if in_secondary (ts_intent self) = [] then
       sbind (on_scheduler (schedule_shard AttachedShardTag [] (in_preferred_az_id (ts_intent self)) context))
         (\<lambda>n. abind (on_intent (push_secondary n)) (\<lambda>_. areturn (Inr True))) (self, s)
     else (Inr (Inr False), (self, s)))"

definition fulfil_policy :: "schedule_context \<Rightarrow> (schedule_error + bool) tact" where
  "fulfil_policy context = (\<lambda>(self, s). case ts_policy self of
     Attached secondary_count \<Rightarrow> sbind (schedule_attached context) (\<lambda>(modified, n).
       on_intent (add_secondaries secondary_count context [n] modified)) (self, s)
   | Secondary \<Rightarrow> sbind (populate_secondary context) (\<lambda>modified.
       abind (on_intent (trim_secondaries modified)) (\<lambda>modified. areturn (Inr modified))) (self, s)
   | Detached \<Rightarrow>
       if in_attached (ts_intent self) \<noteq> None \<or> in_secondary (ts_intent self) \<noteq> []
       then abind (on_intent intent_clear) (\<lambda>_. areturn (Inr True)) (self, s)
       else (Inr (Inr False), (self, s)))"

definition bump_sequence :: "bool \<Rightarrow> (schedule_error + unit) tact" where
  "bump_sequence modified = (\<lambda>(self, s). (Inr (Inr ()),
     (if modified then self\<lparr>ts_sequence := ts_sequence self + 1\<rparr> else self, s)))"

definition do_schedule :: "schedule_context \<Rightarrow> (schedule_error + unit) tact" where
  "do_schedule context = (\<lambda>(self, s).
     if ts_scheduling_policy self \<in> {SsPause, SsStop} then (Inr (Inr ()), (self, s))
     else sbind (fulfil_policy context) bump_sequence (self, s))"

definition schedule :: "((tenant_shard \<times> scheduler) \<times> schedule_context, schedule_error + unit) act" where
  "schedule = (\<lambda>(st, context). case do_schedule context st of
     (Inl e, st) \<Rightarrow> (Inl e, (st, context))
   | (Inr r, st) \<Rightarrow> (Inr r, (st, ctx_avoid (all_pageservers (ts_intent (fst st))) context)))"

definition reschedule_to_secondary :: "node_id option \<Rightarrow> (schedule_error + unit) tact" where
  "reschedule_to_secondary promote_to = (\<lambda>(self, s).
     case (case promote_to of Some n \<Rightarrow> Inr (Some n) | None \<Rightarrow> preferred_secondary self s) of
       Inl e \<Rightarrow> (Inl e, (self, s))
     | Inr None \<Rightarrow> (Inr (Inl ImpossibleConstraint), (self, s))
     | Inr (Some n) \<Rightarrow>
         if n \<notin> set (in_secondary (ts_intent self)) then
           (Inl (Panic ''assertion failed: self.intent.get_secondary().contains(&promote_to)''), (self, s))
         else sbind (case in_attached (ts_intent self) of
             Some m \<Rightarrow> abind (on_intent (demote_attached m)) (\<lambda>demoted.
               areturn (if demoted then Inr () else Inl ImpossibleConstraint))
           | None \<Rightarrow> areturn (Inr ())) (\<lambda>_.
           abind (on_intent (promote_attached n)) (\<lambda>_. bump_sequence True)) (self, s))"

subsection \<open>Optimization\<close>

definition is_better_location ::
  "shard_tag \<Rightarrow> tenant_shard \<Rightarrow> schedule_context \<Rightarrow> node_id \<Rightarrow> node_id \<Rightarrow> (scheduler, bool option) act" where
  "is_better_location tag self context current candidate =
     abind (compute_node_score tag candidate (in_preferred_az_id (ts_intent self)) context) (\<lambda>r.
       case r of None \<Rightarrow> areturn None
       | Some candidate_score \<Rightarrow>
           if ts_preferred_node self = Some candidate then areturn (Some True)
           else abind (compute_node_score tag current (in_preferred_az_id (ts_intent self)) context) (\<lambda>r.
             areturn (case r of None \<Rightarrow> None
               | Some current_score \<Rightarrow> Some (score_key (for_optimization candidate_score)
                   < score_key (for_optimization current_score)))))"

definition find_better_location ::
  "shard_tag \<Rightarrow> tenant_shard \<Rightarrow> schedule_context \<Rightarrow> node_id \<Rightarrow> node_id list \<Rightarrow> (scheduler, node_id option) act" where
  "find_better_location tag self context current hard_exclude = (case ts_preferred_node self of
     Some hint \<Rightarrow> areturn (if hint = current then None else Some hint)
   | None \<Rightarrow> abind (schedule_shard tag hard_exclude (in_preferred_az_id (ts_intent self)) context) (\<lambda>r.
       case r of Inl _ \<Rightarrow> areturn None
       | Inr candidate \<Rightarrow>
           if candidate = current then areturn None
           else abind (is_better_location tag self context current candidate) (\<lambda>better.
             areturn (if better = Some True then Some candidate else None))))"

definition maybe_optimizable :: "tenant_shard \<Rightarrow> scheduler \<Rightarrow> schedule_context \<Rightarrow> bool" where
  "maybe_optimizable self s context \<longleftrightarrow>
     (let i = ts_intent self; detached = project_detach i context in
      ts_preferred_node self \<noteq> None \<and> ts_preferred_node self \<noteq> in_attached i
      \<or> ts_shard_count self \<ge> 1
        \<and> list_ex (\<lambda>n. case ctx_nodes detached n of Some af \<Rightarrow> af > 0 | None \<Rightarrow> False) (all_pageservers i)
      \<or> (case (ts_policy self, in_attached i) of
           (Attached _, Some n) \<Rightarrow> get_node_az s n \<noteq> in_preferred_az_id i | _ \<Rightarrow> False)
      \<or> list_ex (\<lambda>n. get_node_az s n = in_preferred_az_id i) (in_secondary i)
      \<or> length (in_secondary i) > want_secondaries (ts_policy self))"

datatype optimization_action =
  OptMigrateAttachment node_id node_id
| OptReplaceSecondary node_id node_id
| OptCreateSecondary node_id
| OptRemoveSecondary node_id

record schedule_optimization =
  so_sequence :: u64
  so_action :: optimization_action

definition optimization :: "tenant_shard \<Rightarrow> optimization_action \<Rightarrow> schedule_optimization" where
  "optimization self a = \<lparr>so_sequence = ts_sequence self, so_action = a\<rparr>"

fun better_secondary ::
  "tenant_shard \<Rightarrow> schedule_context \<Rightarrow> node_id \<Rightarrow> node_id list \<Rightarrow> (scheduler, node_id option) act" where
  "better_secondary self context attached [] = areturn None"
| "better_secondary self context attached (n # ns) =
     abind (is_better_location AttachedShardTag self context attached n) (\<lambda>b.
       if b = Some True then areturn (Some n) else better_secondary self context attached ns)"

fun secondary_scores ::
  "tenant_shard \<Rightarrow> schedule_context \<Rightarrow> node_id list \<Rightarrow> (scheduler, (node_id \<times> node_score option) list) act" where
  "secondary_scores self context [] = areturn []"
| "secondary_scores self context (n # ns) =
     abind (compute_node_score SecondaryShardTag n (in_preferred_az_id (ts_intent self)) context) (\<lambda>sc.
     abind (secondary_scores self context ns) (\<lambda>scs. areturn ((n, sc) # scs)))"

definition excess_secondary :: "tenant_shard \<Rightarrow> scheduler \<Rightarrow> (node_id \<times> node_score option) list \<Rightarrow> node_id option" where
  "excess_secondary self s scores =
     (let secondaries = in_secondary (ts_intent self) in
      if list_ex (\<lambda>(n, sc). sc = None) scores then
        if length secondaries = 1 then Some (hd secondaries)
        else (case find (\<lambda>n. map_of scores n \<noteq> Some None
              \<and> get_node_az s n \<noteq> in_preferred_az_id (ts_intent self)) secondaries of
            Some retain_secondary \<Rightarrow> find (\<lambda>n. n \<noteq> retain_secondary) secondaries
          | None \<Rightarrow> None)
      else Some (fst (last (sort_key (\<lambda>(n, sc). score_key (the sc)) scores))))"

definition optimize_attachment ::
  "tenant_shard \<Rightarrow> schedule_context \<Rightarrow> (scheduler, schedule_optimization option) act" where
  "optimize_attachment self context = (case in_attached (ts_intent self) of
     None \<Rightarrow> areturn None
   | Some attached \<Rightarrow>
     let context = project_detach (ts_intent self) context; i = ts_intent self in
     abind (better_secondary self context attached (in_secondary i)) (\<lambda>better. case better of
       Some n \<Rightarrow> areturn (Some (optimization self (OptMigrateAttachment attached n)))
     | None \<Rightarrow>
       abind (if length (in_secondary i) > want_secondaries (ts_policy self) then
           abind (secondary_scores self context (in_secondary i)) (\<lambda>scores s.
             (Inr (excess_secondary self s scores), s))
         else areturn None) (\<lambda>victim. case victim of
         Some n \<Rightarrow> areturn (Some (optimization self (OptRemoveSecondary n)))
       | None \<Rightarrow>
         abind (find_better_location AttachedShardTag self context attached []) (\<lambda>replacement s.
           (Inr (case replacement of
              None \<Rightarrow> None
            | Some n \<Rightarrow>
                if ts_preferred_node self = None \<and> in_preferred_az_id i \<noteq> None
                   \<and> get_node_az s n \<noteq> in_preferred_az_id i then None
                else if n \<notin> set (in_secondary i) then Some (optimization self (OptCreateSecondary n))
                else Some (optimization self (OptMigrateAttachment attached n))), s)))))"

fun optimize_secondaries ::
  "tenant_shard \<Rightarrow> schedule_context \<Rightarrow> node_id list \<Rightarrow> (scheduler, schedule_optimization option) act" where
  "optimize_secondaries self context [] = areturn None"
| "optimize_secondaries self context (n # ns) =
     (let exclude = (case in_attached (ts_intent self) of Some attached \<Rightarrow> [attached] | None \<Rightarrow> []) in
      abind (case ts_policy self of
          Attached _ \<Rightarrow> find_better_location SecondaryShardTag self context n exclude
        | Secondary \<Rightarrow> find_better_location AttachedShardTag self context n exclude
        | Detached \<Rightarrow> areturn None) (\<lambda>replacement.
        if replacement = Some n then afail (Panic ''assertion failed: replacement != Some(*secondary)'')
        else case replacement of
          Some m \<Rightarrow> areturn (Some (optimization self (OptReplaceSecondary n m)))
        | None \<Rightarrow> optimize_secondaries self context ns))"

definition optimize_secondary ::
  "tenant_shard \<Rightarrow> schedule_context \<Rightarrow> (scheduler, schedule_optimization option) act" where
  "optimize_secondary self context =
     (if length (in_secondary (ts_intent self)) > want_secondaries (ts_policy self) then areturn None
      else optimize_secondaries self (project_detach (ts_intent self) context) (in_secondary (ts_intent self)))"

definition set_preferred_node :: "node_id option \<Rightarrow> tenant_shard \<Rightarrow> tenant_shard" where
  "set_preferred_node n self = self\<lparr>ts_preferred_node := n\<rparr>"

definition apply_optimization :: "schedule_optimization \<Rightarrow> bool tact" where
  "apply_optimization opt = (\<lambda>(self, s).
     if so_sequence opt \<noteq> ts_sequence self then (Inr False, (self, s))
     else abind (case so_action opt of
         OptMigrateAttachment old new \<Rightarrow>
           abind (on_intent (demote_attached old)) (\<lambda>_.
           abind (on_intent (promote_attached new)) (\<lambda>_ (self, s).
             (Inr (), (if ts_preferred_node self = Some new then set_preferred_node None self else self, s))))
       | OptReplaceSecondary old new \<Rightarrow>
           abind (on_intent (remove_secondary old)) (\<lambda>_. on_intent (push_secondary new))
       | OptCreateSecondary new \<Rightarrow> on_intent (push_secondary new)
       | OptRemoveSecondary old \<Rightarrow> on_intent (remove_secondary old)) (\<lambda>_. areturn True) (self, s))"

definition deref_node :: "node_id \<Rightarrow> tenant_shard \<Rightarrow> bool \<times> tenant_shard" where
  "deref_node n self =
     (let i = ts_intent self;
          i' = i\<lparr>in_attached := (if in_attached i = Some n then None else in_attached i),
            in_secondary := filter (\<lambda>m. m \<noteq> n) (in_secondary i)\<rparr> in
      (in_attached i = Some n \<or> length (in_secondary i') \<noteq> length (in_secondary i),
       self\<lparr>ts_intent := i', ts_preferred_node :=
         (if ts_preferred_node self = Some n then None else ts_preferred_node self)\<rparr>))"

end
