(* ===== verification/Spec2Isabelle.thy ===== *)
theory Spec2Isabelle
  imports Eviction Recovery KeyspacePart TenantSched
begin

text \<open>
  Verification development of the WAL service and of the libraries it rests on.

  \<^bold>\<open>The program.\<close> A compute node (PostgreSQL with the walproposer) streams its write-ahead log
  (WAL) to a set of safekeepers. A safekeeper is an acceptor of a consensus protocol: it votes for
  at most one proposer per term, appends the WAL of the elected one to segment files, reports how
  far it has flushed and learns how far a quorum has committed. Pageservers and standbys read the
  committed WAL from it; whole and partial segments are copied to a remote object storage, local
  segments nobody needs any more are removed, idle timelines are evicted and loaded again, and a
  safekeeper that has fallen behind fetches WAL from its peers. The sources are under
  src/safekeeper and src/libs.

  \<^bold>\<open>Conventions\<close> (theory \<open>Prelude\<close>). Machine integers are words of their width and wrap as they do
  in the release profile; \<open>debug_assert!\<close> is compiled out. Every fallible function returns a value
  of \<open>failure + 'a\<close>, where \<open>Bail\<close> and \<open>Io\<close> are errors and \<open>Panic\<close> is an unwinding: a failed
  assertion, a failed \<open>unwrap\<close>, an index or slice out of range, a checked addition that overflows.
  Code with state is an action \<open>'s \<Rightarrow> ('a res) \<times> 's\<close>, so that the state an error leaves behind is
  part of the model. \<open>keeps\<close> states that a relation between the states before and after holds on
  every branch; the progress and invariant theorems are assembled from it.

  \<^bold>\<open>Theories and sources.\<close>
  \<^item> \<open>Rust_Fmt\<close>, \<open>Wire\<close>: integer formatting, parsing, string trimming and byte-order reads of the
    standard library and of the trait \<open>BytesF\<close>; each reader with a writer interprets the locale
    \<open>codec\<close>.
  \<^item> \<open>Lsn\<close> (libs/utils/src/lsn.rs), \<open>Ids\<close> (libs/utils/src/id.rs), \<open>Membership\<close>
    (libs/safekeeper_api/src/membership.rs), \<open>TermHistory\<close>, \<open>Feedback\<close>
    (libs/utils/src/pageserver_feedback.rs), \<open>SafekeeperProto\<close>: data types and wire formats.
  \<^item> \<open>TimelineState\<close> (safekeeper/src/state.rs), \<open>Safekeeper\<close>, \<open>SafekeeperInv\<close>, \<open>SafekeeperRun\<close>
    (safekeeper/src/safekeeper.rs): the acceptor. It is written over two records of operations,
    the traits \<open>control_file::Storage\<close> and \<open>wal_storage::Storage\<close>; the locales \<open>control_file\<close>,
    \<open>control_steps\<close>, \<open>wal_store\<close> and \<open>sk_parts\<close> state what the acceptor relies on, and are
    interpreted on the models of the two implementations.
  \<^item> \<open>Fs\<close>: the file operations with a schedule of faults and with crashes, which lose what was not
    synced. \<open>ControlFile\<close> (safekeeper/src/control_file.rs), \<open>XlogFile\<close>, \<open>WalDecoder\<close>
    (libs/postgres_ffi/src), \<open>WalStorage\<close>, \<open>WalLog\<close>, \<open>WalReader\<close> (safekeeper/src/wal_storage.rs):
    the implementations over it.
  \<^item> \<open>WalSenders\<close>, \<open>SendWal\<close> (safekeeper/src/send_wal.rs, receive_wal.rs): the registries of the
    connections, the feedback they aggregate, and the send loop.
  \<^item> \<open>Timeline\<close> (safekeeper/src/timeline.rs): the shared state of a timeline with its watch
    channels, and every operation under its lock. \<open>Manager\<close> (timeline_manager.rs,
    timeline_guard.rs), \<open>Eviction\<close> (timeline_eviction.rs), \<open>PartialBackup\<close>
    (wal_backup_partial.rs), \<open>WalBackup\<close> (wal_backup.rs, remove_wal.rs), \<open>Recovery\<close> (recovery.rs):
    the tasks that act on it.

  \<^bold>\<open>What is shown.\<close>
  \<^item> Consensus: one vote per term along every run with crashes and failing writes, the commit
    position within the flushed WAL, terms and positions that only grow, stale messages without
    effect, recovery of the storage by the next election.
  \<^item> Storage: crash safety of the control file, exactness of writes over several segments, reading
    back what was written, the search for the end of the WAL, the round trips of names and wire
    formats, totality of the message parser.
  \<^item> Timeline and its tasks: agreement of the watch channels with the state, residence as long as a
    guard is held, removal of WAL nobody needs, the safety of whole and partial segment backup and
    their equivalence with a sequential upload, exactness of the validation of an evicted segment,
    the choice of donors and offloader, delivery of the written WAL by the send loop.

  \<^bold>\<open>Loops and bounds.\<close> Recursion over data is structural. The loops whose iterations depend on
  outside answers (the upload pool, the receive and send loops) recurse on the list of those
  answers or on a number of rounds; the theorems about delivery and about the upload of a range
  state that enough rounds produce the result. The remaining loops have termination proofs by a
  measure, for instance on the bytes left in a write that spans several segments.

  \<^bold>\<open>Parameters.\<close> Code that is not among the sources is an argument with its documented behaviour as
  hypothesis: the crates hex, bincode and crc32c, the generated PostgreSQL header bindings, the
  remote object storage. Clocks, random back-off, the rate limiter and the cancellation token are
  arguments. Every theorem with such a hypothesis has an instance with concrete functions.

  \<^bold>\<open>Not modelled.\<close> Sockets, HTTP routes, TLS, metrics, tracing, command-line handling and the
  scheduling of asynchronous tasks (the interleavings modelled are those of whole lock regions);
  serde glue; the broker client; the interpreted WAL protocol, which decodes records with
  generated PostgreSQL bindings; the proxy, the compute tools, the control plane, the storage
  controller, the scrubber and the C extensions.
\<close>

end
